(* ===== verification/Mermai_Prelude.thy ===== *)
theory Mermai_Prelude
  imports Main "HOL-Library.Word" "HOL-Library.Char_ord" "HOL-Library.List_Lexorder"
begin

text \<open>
  The vocabulary every component theory of the Mermai development shares: the machine
  integers of the C++ sources (\<^verbatim>\<open>uint8_t\<close>, \<^verbatim>\<open>uint16_t\<close>, \<^verbatim>\<open>uint32_t\<close>,
  \<^verbatim>\<open>uint64_t\<close>) as words, \<^verbatim>\<open>std::string\<close> as a list of 8-bit characters,
  \<^verbatim>\<open>std::vector<uint8_t>\<close> as a list of bytes, exceptions as the left side of a sum,
  the hexadecimal and decimal printers of \<^verbatim>\<open>std::ostringstream\<close>, the big-endian
  layout of integers, and reachable states of a step relation with the locale that turns
  a one-step invariant into a fact about every reachable state.
\<close>

unbundle bit_operations_syntax

section \<open>Types\<close>

type_synonym byte = "8 word"
type_synonym bytes = "8 word list"
type_synonym u16 = "16 word"
type_synonym u32 = "32 word"
type_synonym u64 = "64 word"

text \<open>The exceptions the sources throw, and fallible results.\<close>

datatype cpp_error =
    Runtime_error string
  | Invalid_argument string
  | Out_of_range string

type_synonym 'a result = "cpp_error + 'a"

definition rbind :: "'a result \<Rightarrow> ('a \<Rightarrow> 'b result) \<Rightarrow> 'b result" where
  "rbind r f = (case r of Inl e \<Rightarrow> Inl e | Inr x \<Rightarrow> f x)"

definition error_what :: "cpp_error \<Rightarrow> string" where
  "error_what e = (case e of Runtime_error m \<Rightarrow> m | Invalid_argument m \<Rightarrow> m | Out_of_range m \<Rightarrow> m)"

named_theorems codec_simps \<open>round-trip facts of the serialisation formats\<close>
named_theorems word_bounds \<open>bounds of unsigned values of machine words\<close>

lemma rbind_Inr [simp]: "rbind (Inr x) f = f x"
  by (simp add: rbind_def)

lemma rbind_Inl [simp]: "rbind (Inl e) f = Inl e"
  by (simp add: rbind_def)

lemma rbind_eq_Inr_iff: "rbind r f = Inr y \<longleftrightarrow> (\<exists>x. r = Inr x \<and> f x = Inr y)"
  by (cases r) auto

lemma rbind_InrE:
  assumes "rbind r f = Inr y"
  obtains x where "r = Inr x" and "f x = Inr y"
  using assms by (auto simp: rbind_eq_Inr_iff)

section \<open>Bytes and characters\<close>

definition char_of_byte :: "byte \<Rightarrow> char" where
  "char_of_byte b = char_of (unat b)"

definition byte_of_char :: "char \<Rightarrow> byte" where
  "byte_of_char c = of_nat (of_char c)"

abbreviation chars_of_bytes :: "bytes \<Rightarrow> string" where
  "chars_of_bytes \<equiv> map char_of_byte"

abbreviation bytes_of_chars :: "string \<Rightarrow> bytes" where
  "bytes_of_chars \<equiv> map byte_of_char"

lemma unat_byte_less [word_bounds]: "unat (b :: byte) < 256"
  using unsigned_less [of b, where ?'a = nat] by simp

lemma unat_u32_less [word_bounds]: "unat (w :: u32) < 2 ^ 32"
  using unsigned_less [of w, where ?'a = nat] by simp

lemma unat_u64_less [word_bounds]: "unat (w :: u64) < 2 ^ 64"
  using unsigned_less [of w, where ?'a = nat] by simp

lemma byte_of_char_of_byte [simp]: "byte_of_char (char_of_byte b) = b"
  using unat_byte_less [of b] by (simp add: byte_of_char_def char_of_byte_def)

lemma char_of_byte_of_char [simp]: "char_of_byte (byte_of_char c) = c"
  by (simp add: byte_of_char_def char_of_byte_def unat_of_nat take_bit_nat_eq_self)

lemma bytes_of_chars_inject: "bytes_of_chars a = bytes_of_chars b \<longleftrightarrow> a = b"
  by (rule inj_map_eq_map) (metis injI char_of_byte_of_char)

lemma byte_of_char_comp [simp]: "byte_of_char \<circ> char_of_byte = id"
  by (simp add: fun_eq_iff)

lemma char_of_byte_comp [simp]: "char_of_byte \<circ> byte_of_char = id"
  by (simp add: fun_eq_iff)

lemma char_of_byte_inject [simp]: "char_of_byte a = char_of_byte b \<longleftrightarrow> a = b"
  by (metis byte_of_char_of_byte)

lemma byte_of_char_inject [simp]: "byte_of_char a = byte_of_char b \<longleftrightarrow> a = b"
  by (metis char_of_byte_of_char)

lemma map_byte_of_char_inject [simp]:
  "bytes_of_chars xs = bytes_of_chars ys \<longleftrightarrow> xs = ys"
  by (rule inj_map_eq_map) (simp add: inj_def)

section \<open>Big-endian layout of machine words\<close>

text \<open>
  Byte \<open>i\<close> of the big-endian form of an \<open>n\<close>-byte integer, and the accumulation step
  that reads such a form back. The sources repeat this pair for every integer they put on
  the wire.
\<close>

definition be_byte :: "nat \<Rightarrow> 'a::len word \<Rightarrow> nat \<Rightarrow> byte" where
  "be_byte n v i = ucast (drop_bit ((n - 1 - i) * 8) v AND 0xFF)"

definition be_step :: "'a::len word \<Rightarrow> byte \<Rightarrow> 'a word" where
  "be_step v b = push_bit 8 v OR ucast b"

lemma FF_eq_mask: "(0xFF :: 'b::len word) = mask 8"
  by (simp add: mask_eq_exp_minus_1)

lemma bit_add_length: "bit (v :: 'a::len word) (k + j) \<Longrightarrow> j < LENGTH('a)"
  using bit_imp_le_length [of v "k + j"] by simp

lemma byte_bit_length: "bit (b :: byte) j \<Longrightarrow> j < 8"
  using bit_imp_le_length [of b j] by simp

lemma be_byte_eq: "be_byte n v i = ucast (drop_bit ((n - 1 - i) * 8) v)"
  by (rule bit_eqI) (auto simp: be_byte_def FF_eq_mask bit_simps bit_add_length)

lemma bit_be_byte: "bit (be_byte n v i) j \<longleftrightarrow> j < 8 \<and> bit v ((n - 1 - i) * 8 + j)"
  by (auto simp: be_byte_eq bit_simps)

lemma bit_be_step:
  "bit (be_step v b) j \<longleftrightarrow>
     j < LENGTH('a) \<and> (if j < 8 then bit b j else bit (v :: 'a::len word) (j - 8))"
  by (auto simp: be_step_def bit_simps not_less dest: byte_bit_length)

lemma be_step_be_byte:
  assumes "Suc k \<le> n" and "n * 8 = LENGTH('a)"
  shows "be_step (drop_bit ((n - k) * 8) v) (be_byte n v k) =
    drop_bit ((n - Suc k) * 8) (v :: 'a::len word)"
proof (rule bit_word_eqI)
  fix j assume "j < LENGTH('a)"
  have e: "(n - k) * 8 + (j - 8) = (n - Suc k) * 8 + j" if "\<not> j < 8"
    using assms(1) that by (simp add: diff_mult_distrib)
  show "bit (be_step (drop_bit ((n - k) * 8) v) (be_byte n v k)) j =
      bit (drop_bit ((n - Suc k) * 8) v) j"
    using \<open>j < LENGTH('a)\<close> e by (auto simp: bit_be_step bit_be_byte bit_simps)
qed

lemma foldl_be_bytes:
  assumes "k \<le> n" and "n * 8 = LENGTH('a)"
  shows "foldl be_step 0 (map (be_byte n v) [0..<k]) =
    drop_bit ((n - k) * 8) (v :: 'a::len word)"
  using assms(1)
proof (induction k)
  case 0
  show ?case using assms(2) by (simp add: drop_bit_eq_div)
next
  case (Suc k)
  then show ?case using be_step_be_byte [OF Suc.prems assms(2)] by simp
qed

lemma bit_foldl_be_step:
  "bit (foldl be_step (v :: 'a::len word) bs) j \<longleftrightarrow>
     j < LENGTH('a) \<and>
     (if j < 8 * length bs then bit (bs ! (length bs - 1 - j div 8)) (j mod 8)
      else bit v (j - 8 * length bs))"
proof (induction bs arbitrary: j rule: rev_induct)
  case Nil
  then show ?case by (auto dest: bit_imp_le_length)
next
  case (snoc b bs)
  show ?case
  proof (cases "j < 8")
    case True
    then show ?thesis by (auto simp: bit_be_step nth_append)
  next
    case False
    then obtain i where i: "j = i + 8" by (metis add.commute le_Suc_ex not_less)
    have "(length bs - Suc (i div 8)) < length bs" if "i < 8 * length bs"
      using that by (cases bs) auto
    moreover have "(i + 8) div 8 = Suc (i div 8)" by simp
    ultimately show ?thesis using snoc.IH [of i] by (auto simp: i bit_be_step nth_append)
  qed
qed

lemma be_bytes_foldl:
  assumes "length bs = n" and "n * 8 = LENGTH('a)"
  shows "map (be_byte n (foldl be_step (0 :: 'a::len word) bs)) [0..<n] = bs"
proof (rule nth_equalityI)
  fix i assume "i < length (map (be_byte n (foldl be_step (0 :: 'a word) bs)) [0..<n])"
  then have i: "i < n" by simp
  have "be_byte n (foldl be_step (0 :: 'a word) bs) i = bs ! i"
  proof (rule bit_word_eqI)
    fix j assume "j < LENGTH(8)"
    then have j: "j < 8" by simp
    from i j have "(n - Suc i) * 8 + j < 8 * n" and "n - Suc (n - Suc i) = i" by auto
    moreover have "((n - Suc i) * 8 + j) div 8 = n - Suc i"
      and "((n - Suc i) * 8 + j) mod 8 = j" using j by auto
    ultimately show "bit (be_byte n (foldl be_step (0 :: 'a word) bs) i) j = bit (bs ! i) j"
      using j assms by (simp add: bit_be_byte bit_foldl_be_step mult.commute)
  qed
  with i show "map (be_byte n (foldl be_step (0 :: 'a word) bs)) [0..<n] ! i = bs ! i" by simp
qed (simp add: assms)

section \<open>Hexadecimal and decimal text\<close>

text \<open>
  \<open>hex_digit\<close> and \<open>hex_byte\<close> are \<^verbatim>\<open>std::hex << std::setw(2) << std::setfill('0')\<close> on
  one byte; \<open>hex_encode\<close> is the loop over a byte vector that seven source files define
  under different names (\<^verbatim>\<open>hash_to_hex\<close>, \<^verbatim>\<open>hash_text\<close>, \<^verbatim>\<open>hex_encode\<close>,
  \<^verbatim>\<open>bytes_to_hex\<close>). \<open>dec_string\<close> is \<^verbatim>\<open>std::to_string\<close> on an unsigned value.
\<close>

definition hex_digit :: "nat \<Rightarrow> char" where
  "hex_digit n = (if n < 10 then char_of (48 + n) else char_of (87 + n))"

definition hex_byte :: "byte \<Rightarrow> string" where
  "hex_byte b = [hex_digit (unat b div 16), hex_digit (unat b mod 16)]"

definition hex_encode :: "bytes \<Rightarrow> string" where
  "hex_encode bs = concat (map hex_byte bs)"

definition hex_value :: "char \<Rightarrow> nat" where
  "hex_value c = (let n = of_char c in if n < 58 then n - 48 else n - 87)"

fun dec_string :: "nat \<Rightarrow> string" where
  "dec_string n =
     (if n < 10 then [char_of (48 + n)] else dec_string (n div 10) @ [char_of (48 + n mod 10)])"

declare dec_string.simps [simp del]

lemma hex_value_digit [simp]: "n < 16 \<Longrightarrow> hex_value (hex_digit n) = n"
  by (simp add: hex_value_def hex_digit_def Let_def)

lemma hex_digit_inject [simp]: "m < 16 \<Longrightarrow> n < 16 \<Longrightarrow> hex_digit m = hex_digit n \<longleftrightarrow> m = n"
  by (metis hex_value_digit)

lemma hex_digit_nonzero: "n < 16 \<Longrightarrow> hex_digit n \<noteq> char_of_byte 0"
proof
  assume "n < 16" and "hex_digit n = char_of_byte 0"
  then have "(of_char (hex_digit n) :: nat) = 0" by (simp add: char_of_byte_def)
  then show False using \<open>n < 16\<close> by (simp add: hex_digit_def split: if_splits)
qed

lemma hex_byte_nibbles: "unat (b :: byte) div 16 < 16" "unat b mod 16 < 16"
  using unat_byte_less [of b] by auto

lemma hex_byte_inject [simp]: "hex_byte a = hex_byte b \<longleftrightarrow> a = b"
proof
  assume "hex_byte a = hex_byte b"
  then have "unat a div 16 = unat b div 16" and "unat a mod 16 = unat b mod 16"
    by (auto simp: hex_byte_def hex_byte_nibbles)
  then have "unat a = unat b" by (metis div_mult_mod_eq)
  then show "a = b" by (simp add: word_unat_eq_iff)
qed simp

lemma length_hex_byte [simp]: "length (hex_byte b) = 2"
  by (simp add: hex_byte_def)

lemma length_hex_encode [simp]: "length (hex_encode bs) = 2 * length bs"
  by (induction bs) (auto simp: hex_encode_def)

lemma hex_encode_Nil [simp]: "hex_encode [] = []"
  by (simp add: hex_encode_def)

lemma hex_encode_Cons [simp]: "hex_encode (b # bs) = hex_byte b @ hex_encode bs"
  by (simp add: hex_encode_def)

lemma hex_encode_append [simp]: "hex_encode (xs @ ys) = hex_encode xs @ hex_encode ys"
  by (simp add: hex_encode_def)

lemma hex_encode_inject [simp]: "hex_encode xs = hex_encode ys \<longleftrightarrow> xs = ys"
proof
  assume eq: "hex_encode xs = hex_encode ys"
  then have "length xs = length ys" by (metis length_hex_encode mult_cancel1 zero_neq_numeral)
  then show "xs = ys" using eq by (induction xs ys rule: list_induct2) auto
qed simp

fun dec_value :: "string \<Rightarrow> nat" where
  "dec_value s = foldl (\<lambda>v c. 10 * v + (of_char c - 48)) 0 s"

lemma dec_value_dec_string: "dec_value (dec_string n) = n"
proof (induction n rule: dec_string.induct)
  case (1 n)
  show ?case
  proof (cases "n < 10")
    case True
    then show ?thesis by (simp add: dec_string.simps [of n])
  next
    case False
    with 1 show ?thesis by (simp add: dec_string.simps [of n])
  qed
qed

lemma dec_string_inject [simp]: "dec_string m = dec_string n \<longleftrightarrow> m = n"
  by (metis dec_value_dec_string)

lemma dec_string_digits: "set (dec_string n) \<subseteq> char_of ` {48..<58 :: nat}"
proof (induction n rule: dec_string.induct)
  case (1 n)
  have "n < 10 \<or> \<not> n < 10" by blast
  then show ?case
  proof
    assume "n < 10"
    then show ?thesis by (auto simp: dec_string.simps [of n])
  next
    assume "\<not> n < 10"
    moreover have "48 + n mod 10 \<in> {48..<58}" by simp
    ultimately show ?thesis using 1 by (auto simp: dec_string.simps [of n])
  qed
qed

lemma dec_string_not_Nil [simp]: "dec_string n \<noteq> []"
  by (simp add: dec_string.simps [of n])

lemma u64_room: "(a :: u64) \<le> - 1 - t \<longleftrightarrow> unat t + unat a < 2 ^ 64"
proof -
  have "unat (- 1 - t) = 2 ^ 64 - 1 - unat t"
    by (simp add: unat_sub unsigned_minus_1_eq_mask mask_eq_exp_minus_1)
  then show ?thesis using unat_u64_less [of t] by (simp add: word_le_nat_alt) linarith
qed

lemma unat_add_room: "unat t + unat a < 2 ^ 64 \<Longrightarrow> unat (t + a :: u64) = unat t + unat a"
  by (simp add: unat_add_lem [THEN iffD1])

section \<open>Reachable states of a step relation\<close>

inductive reach :: "('s \<Rightarrow> bool) \<Rightarrow> ('s \<Rightarrow> 's \<Rightarrow> bool) \<Rightarrow> 's \<Rightarrow> bool"
  for start :: "'s \<Rightarrow> bool" and step :: "'s \<Rightarrow> 's \<Rightarrow> bool" where
  reach_start: "start s \<Longrightarrow> reach start step s"
| reach_step: "reach start step s \<Longrightarrow> step s t \<Longrightarrow> reach start step t"

text \<open>
  The interface between a component that proves what one operation keeps and the clients
  that rely on every state the component can be in.
\<close>

locale safe_system =
  fixes start :: "'s \<Rightarrow> bool"
    and step :: "'s \<Rightarrow> 's \<Rightarrow> bool"
    and inv :: "'s \<Rightarrow> bool"
  assumes start_inv: "start s \<Longrightarrow> inv s"
    and step_inv: "inv s \<Longrightarrow> step s t \<Longrightarrow> inv t"
begin

lemma reach_inv: "reach start step s \<Longrightarrow> inv s"
  by (induction rule: reach.induct) (auto intro: start_inv step_inv)

lemma steps_inv: "step\<^sup>*\<^sup>* s t \<Longrightarrow> inv s \<Longrightarrow> inv t"
  by (induction rule: rtranclp_induct) (auto intro: step_inv)

end

end
