(* ===== verification/Mermai_Float.thy ===== *)
theory Mermai_Float
  imports Mermai_Prelude "HOL-Library.Log_Nat"
begin

text \<open>
  IEEE 754 arithmetic as the sources use it. A finite \<^verbatim>\<open>float\<close> or \<^verbatim>\<open>double\<close> is the
  rational number it denotes; an operation is the exact operation followed by rounding to the
  nearest representable number, ties to even. The quantities of the node (stakes, multipliers,
  fractions) stay far below the largest finite value, so there are no infinities in the model.
  The facts shared by the clients are that rounding is monotone and idempotent, keeps small
  integers, and has a relative error of at most half a unit in the last place.
\<close>

section \<open>Rounding\<close>

definition half_even :: "rat \<Rightarrow> int" where
  "half_even x =
     (let f = \<lfloor>x\<rfloor>; r = x - of_int f
      in if r < 1 / 2 \<or> r = 1 / 2 \<and> even f then f else f + 1)"

text \<open>The exponent of the leading bit of a positive rational.\<close>

definition exponent2 :: "rat \<Rightarrow> int" where
  "exponent2 x =
     (let (n, d) = quotient_of x; k = bitlen n - bitlen d
      in if x < 2 powi k then k - 1 else k)"

definition ulp_exponent :: "int \<Rightarrow> int \<Rightarrow> rat \<Rightarrow> int" where
  "ulp_exponent prec emin x = max (exponent2 \<bar>x\<bar> - prec + 1) emin"

definition round_fp :: "int \<Rightarrow> int \<Rightarrow> rat \<Rightarrow> rat" where
  "round_fp prec emin x =
     (if x = 0 then 0
      else let u = 2 powi ulp_exponent prec emin x in of_int (half_even (x / u)) * u)"

text \<open>\<^verbatim>\<open>float\<close> has 24 significant bits, \<^verbatim>\<open>double\<close> 53.\<close>

abbreviation f32 :: "rat \<Rightarrow> rat" where
  "f32 \<equiv> round_fp 24 (-149)"

abbreviation f64 :: "rat \<Rightarrow> rat" where
  "f64 \<equiv> round_fp 53 (-1074)"

definition rat_of_word :: "'a::len word \<Rightarrow> rat" where
  "rat_of_word n = rat_of_nat (unat n)"

definition float_of_u64 :: "u64 \<Rightarrow> rat" where
  "float_of_u64 n = f32 (rat_of_word n)"

definition double_of_u64 :: "u64 \<Rightarrow> rat" where
  "double_of_u64 n = f64 (rat_of_word n)"

definition float_add :: "rat \<Rightarrow> rat \<Rightarrow> rat" where
  "float_add x y = f32 (x + y)"

definition float_sub :: "rat \<Rightarrow> rat \<Rightarrow> rat" where
  "float_sub x y = f32 (x - y)"

definition float_mul :: "rat \<Rightarrow> rat \<Rightarrow> rat" where
  "float_mul x y = f32 (x * y)"

definition float_div :: "rat \<Rightarrow> rat \<Rightarrow> rat" where
  "float_div x y = f32 (x / y)"

text \<open>\<^verbatim>\<open>static_cast<uint64_t>\<close> truncates (values outside the range, undefined in C++, wrap around); \<^verbatim>\<open>std::fmod\<close> of non-negative arguments is exact.\<close>

definition u64_of_float :: "rat \<Rightarrow> u64" where
  "u64_of_float x = word_of_int (if x < 0 then - \<lfloor>- x\<rfloor> else \<lfloor>x\<rfloor>)"

definition fmod :: "rat \<Rightarrow> rat \<Rightarrow> rat" where
  "fmod x y = x - of_int \<lfloor>x / y\<rfloor> * y"

section \<open>Printing\<close>

text \<open>
  \<^verbatim>\<open>operator<<\<close> on a \<^verbatim>\<open>float\<close> with the default format, which is \<^verbatim>\<open>%.6g\<close> on the value: six
  significant digits of the exact decimal expansion, without trailing zeros, in positional form
  for decimal exponents from -4 to 5 and in exponent form otherwise. The smallest positive float
  is above \<open>10\<close> to the power -46, which bounds the search for a negative exponent.
\<close>

fun exponent10_small :: "nat \<Rightarrow> rat \<Rightarrow> int" where
  "exponent10_small 0 x = 0"
| "exponent10_small (Suc n) x = (if 1 \<le> x then 0 else exponent10_small n (x * 10) - 1)"

definition exponent10 :: "rat \<Rightarrow> int" where
  "exponent10 x =
     (if 1 \<le> x then int (length (dec_string (nat \<lfloor>x\<rfloor>))) - 1 else exponent10_small 46 x)"

definition six_digits :: "rat \<Rightarrow> int \<times> int" where
  "six_digits x =
     (let e = exponent10 x; n = half_even (x / 10 powi (e - 5))
      in if n = 1000000 then (100000, e + 1) else (n, e))"

definition strip_zeros :: "string \<Rightarrow> string" where
  "strip_zeros s = rev (dropWhile (\<lambda>c. c = CHR ''0'') (rev s))"

definition with_fraction :: "string \<Rightarrow> string \<Rightarrow> string" where
  "with_fraction i f = (let g = strip_zeros f in if g = [] then i else i @ ''.'' @ g)"

definition format_g :: "rat \<Rightarrow> string" where
  "format_g x =
     (if x = 0 then ''0''
      else let (n, e) = six_digits x; ds = dec_string (nat n)
        in if -4 \<le> e \<and> e < 6
           then if 0 \<le> e then with_fraction (take (nat (e + 1)) ds) (drop (nat (e + 1)) ds)
                else ''0.'' @ replicate (nat (- e - 1)) CHR ''0'' @ strip_zeros ds
           else with_fraction (take 1 ds) (drop 1 ds) @ (if e < 0 then ''e-'' else ''e+'') @
                (let es = dec_string (nat \<bar>e\<bar>) in if length es < 2 then CHR ''0'' # es else es))"

section \<open>Rounding to integers\<close>

lemma half_even_bounds: "of_int (half_even x) - 1 / 2 \<le> x" "x \<le> of_int (half_even x) + 1 / 2"
  unfolding half_even_def Let_def by (auto, linarith+)

lemma half_even_of_int [simp]: "half_even (of_int k) = k"
  by (simp add: half_even_def)

lemma half_even_mono: "x \<le> y \<Longrightarrow> half_even x \<le> half_even y"
proof (cases "\<lfloor>x\<rfloor> = \<lfloor>y\<rfloor>")
  case True
  assume "x \<le> y"
  then show ?thesis unfolding half_even_def Let_def True by auto
next
  case False
  assume "x \<le> y"
  with False have "\<lfloor>x\<rfloor> < \<lfloor>y\<rfloor>" using floor_mono [of x y] by linarith
  moreover have "half_even x \<le> \<lfloor>x\<rfloor> + 1" and "\<lfloor>y\<rfloor> \<le> half_even y" by (auto simp: half_even_def Let_def)
  ultimately show ?thesis by linarith
qed

lemma half_even_eqI: "\<bar>x - of_int k\<bar> < 1 / 2 \<Longrightarrow> half_even x = k"
  using half_even_bounds [of x] by linarith

lemma half_even_nonneg: "0 \<le> x \<Longrightarrow> 0 \<le> half_even x"
  using half_even_mono [of 0 x] half_even_of_int [of 0] by simp

section \<open>The exponent\<close>

lemma powi_pos [simp]: "(0 :: rat) < 2 powi k"
  by (simp add: zero_less_power_int)

lemma powi_Suc: "(2 :: rat) powi (k + 1) = 2 * 2 powi k"
  by (simp add: power_int_add)

lemma powi_mono: "k \<le> l \<Longrightarrow> (2 :: rat) powi k \<le> 2 powi l"
  by (simp add: power_int_increasing)

lemma powi_less_iff: "(2 :: rat) powi k < 2 powi l \<longleftrightarrow> k < l"
  by (metis linorder_not_le powi_mono one_less_numeral_iff power_int_strict_increasing
      semiring_norm(76))

lemma bitlen_rat:
  assumes "0 < n"
  shows "2 powi (bitlen n - 1) \<le> (of_int n :: rat)" "(of_int n :: rat) < 2 powi bitlen n"
proof -
  have b: "0 < bitlen n" using bitlen_bounds [OF assms] assms by (cases "bitlen n \<le> 0") auto
  from bitlen_bounds [OF assms] have "2 ^ nat (bitlen n - 1) \<le> n" "n < 2 ^ nat (bitlen n)" by auto
  then have "(of_int (2 ^ nat (bitlen n - 1)) :: rat) \<le> of_int n"
    "(of_int n :: rat) < of_int (2 ^ nat (bitlen n))"
    by (simp_all only: of_int_le_iff of_int_less_iff)
  with b show "2 powi (bitlen n - 1) \<le> (of_int n :: rat)" "(of_int n :: rat) < 2 powi bitlen n"
    by (simp_all add: power_int_def)
qed

lemma exponent2_bounds:
  assumes "0 < x"
  shows "2 powi exponent2 x \<le> x" and "x < 2 powi (exponent2 x + 1)"
proof -
  obtain n d where q: "quotient_of x = (n, d)" by (cases "quotient_of x")
  then have d: "0 < d" and x: "x = of_int n / of_int d"
    by (simp_all add: quotient_of_denom_pos quotient_of_div)
  with assms have n: "0 < n" by (simp add: zero_less_divide_iff)
  let ?k = "bitlen n - bitlen d"
  have "(2 :: rat) powi (?k - 1) * of_int d < 2 powi (?k - 1) * 2 powi bitlen d"
    using bitlen_rat(2) [OF d] by simp
  also have "\<dots> = 2 powi (bitlen n - 1)" by (simp flip: power_int_add)
  finally have lo: "2 powi (?k - 1) < x"
    using bitlen_rat(1) [OF n] d by (simp add: x pos_less_divide_eq)
  have "of_int n < (2 powi (?k + 1) :: rat) * 2 powi (bitlen d - 1)"
    using bitlen_rat(2) [OF n] by (simp flip: power_int_add)
  also have "\<dots> \<le> 2 powi (?k + 1) * of_int d" using bitlen_rat(1) [OF d] by simp
  finally have hi: "x < 2 powi (?k + 1)" using d by (simp add: x pos_divide_less_eq)
  show "2 powi exponent2 x \<le> x" "x < 2 powi (exponent2 x + 1)"
    using lo hi by (auto simp: exponent2_def q Let_def)
qed

lemma exponent2_eqI:
  assumes "2 powi e \<le> x" and "x < 2 powi (e + 1)"
  shows "exponent2 x = e"
proof -
  have "0 < x" using assms(1) powi_pos [of e] by linarith
  note b = exponent2_bounds [OF this]
  have "(2 :: rat) powi e < 2 powi (exponent2 x + 1)" "(2 :: rat) powi exponent2 x < 2 powi (e + 1)"
    using assms b by linarith+
  then show ?thesis by (simp add: powi_less_iff)
qed

lemma exponent2_mono: "0 < x \<Longrightarrow> x \<le> y \<Longrightarrow> exponent2 x \<le> exponent2 y"
  using exponent2_bounds [of x] exponent2_bounds [of y] powi_less_iff [of "exponent2 x" "exponent2 y + 1"]
  by linarith

section \<open>Rounding to the format\<close>

lemma powi_multiple:
  assumes "u \<le> e"
  shows "\<exists>m. (2 :: rat) powi e = of_int m * 2 powi u"
proof
  have "(2 :: rat) powi e = 2 powi (e - u) * 2 powi u" by (simp flip: power_int_add)
  also have "(2 :: rat) powi (e - u) = of_int (2 ^ nat (e - u))" using assms by (simp add: power_int_def)
  finally show "(2 :: rat) powi e = of_int (2 ^ nat (e - u)) * 2 powi u" .
qed

lemma multiple_mono:
  assumes "u' \<le> u"
  shows "\<exists>m. of_int k * (2 :: rat) powi u = of_int m * 2 powi u'"
proof -
  obtain m where "(2 :: rat) powi u = of_int m * 2 powi u'" using powi_multiple [OF assms] by blast
  then have "of_int k * (2 :: rat) powi u = of_int (k * m) * 2 powi u'" by simp
  then show ?thesis by blast
qed

lemma round_fp_0 [simp]: "round_fp prec emin 0 = 0"
  by (simp add: round_fp_def)

lemma round_fp_eq:
  "x \<noteq> 0 \<Longrightarrow> round_fp prec emin x =
     of_int (half_even (x / 2 powi ulp_exponent prec emin x)) * 2 powi ulp_exponent prec emin x"
  by (simp add: round_fp_def Let_def)

lemma round_fp_nonneg: "0 \<le> x \<Longrightarrow> 0 \<le> round_fp prec emin x"
  by (cases "x = 0") (simp_all add: round_fp_eq half_even_nonneg)

lemma round_fp_nonpos: "x \<le> 0 \<Longrightarrow> round_fp prec emin x \<le> 0"
proof (cases "x = 0")
  case False
  assume "x \<le> 0"
  then have "half_even (x / 2 powi ulp_exponent prec emin x) \<le> half_even 0"
    by (intro half_even_mono) (simp add: divide_le_0_iff)
  then have "half_even (x / 2 powi ulp_exponent prec emin x) \<le> 0"
    using half_even_of_int [of 0] by simp
  with False show ?thesis by (simp add: round_fp_eq mult_nonpos_nonneg)
qed simp

lemma round_fp_grid:
  fixes prec emin :: int
  assumes "0 < x"
  defines "u \<equiv> ulp_exponent prec emin x"
  shows "of_int m * 2 powi u \<le> x \<Longrightarrow> of_int m * 2 powi u \<le> round_fp prec emin x"
    and "x \<le> of_int m * 2 powi u \<Longrightarrow> round_fp prec emin x \<le> of_int m * 2 powi u"
proof -
  have r: "round_fp prec emin x = of_int (half_even (x / 2 powi u)) * 2 powi u"
    using assms by (simp add: round_fp_eq)
  show "of_int m * 2 powi u \<le> x \<Longrightarrow> of_int m * 2 powi u \<le> round_fp prec emin x"
    using half_even_mono [of "of_int m" "x / 2 powi u"] by (simp add: r pos_le_divide_eq)
  show "x \<le> of_int m * 2 powi u \<Longrightarrow> round_fp prec emin x \<le> of_int m * 2 powi u"
    using half_even_mono [of "x / 2 powi u" "of_int m"] by (simp add: r pos_divide_le_eq)
qed

lemma ulp_exponent_mono: "0 < x \<Longrightarrow> x \<le> y \<Longrightarrow> ulp_exponent prec emin x \<le> ulp_exponent prec emin y"
  using exponent2_mono [of x y] by (simp add: ulp_exponent_def max_def)

lemma round_fp_mono:
  assumes "1 \<le> prec" "0 \<le> x" "x \<le> y"
  shows "round_fp prec emin x \<le> round_fp prec emin y"
proof (cases "x = 0")
  case True
  with assms show ?thesis by (simp add: round_fp_nonneg)
next
  case False
  with assms have x: "0 < x" and y: "0 < y" by auto
  let ?u = "ulp_exponent prec emin x" and ?v = "ulp_exponent prec emin y" and ?e = "exponent2 y"
  show ?thesis
  proof (cases "?u = ?v")
    case True
    with x y assms(3) show ?thesis
      by (auto simp: round_fp_eq intro!: half_even_mono divide_right_mono)
  next
    case False
    with ulp_exponent_mono [OF x assms(3), of prec emin] have uv: "?u < ?v" by linarith
    then have v: "?v = ?e - prec + 1" and ex: "exponent2 x < ?e"
      using x y by (auto simp: ulp_exponent_def)
    from exponent2_bounds(2) [OF x] powi_mono [of "exponent2 x + 1" ?e] ex
    have below: "x \<le> 2 powi ?e" by simp
    obtain m where m: "(2 :: rat) powi ?e = of_int m * 2 powi ?u"
      using powi_multiple [of ?u ?e] v uv assms(1) by auto
    obtain n where n: "(2 :: rat) powi ?e = of_int n * 2 powi ?v"
      using powi_multiple [of ?v ?e] v assms(1) by auto
    have "round_fp prec emin x \<le> 2 powi ?e" using round_fp_grid(2) [OF x] below m by metis
    also have "\<dots> \<le> round_fp prec emin y" using round_fp_grid(1) [OF y] exponent2_bounds(1) [OF y] n by metis
    finally show ?thesis .
  qed
qed

text \<open>Numbers of the format are the ones rounding keeps.\<close>

lemma round_fp_exact: "0 < x \<Longrightarrow> x = of_int m * 2 powi ulp_exponent prec emin x \<Longrightarrow> round_fp prec emin x = x"
  using round_fp_grid [of x m prec emin] by (metis order_antisym order_refl)

lemma round_fp_idem:
  assumes "1 \<le> prec" "0 \<le> x"
  shows "round_fp prec emin (round_fp prec emin x) = round_fp prec emin x"
proof (cases "round_fp prec emin x = 0")
  case False
  then have "x \<noteq> 0" by auto
  with assms have x: "0 < x" by simp
  let ?r = "round_fp prec emin x" and ?u = "ulp_exponent prec emin x" and ?e = "exponent2 x"
  from False round_fp_nonneg [OF assms(2)] have r: "0 < ?r" by (simp add: order_less_le)
  obtain k where k: "?r = of_int k * 2 powi ?u" using x by (metis round_fp_eq less_irrefl)
  have le: "?u \<le> ?e + 1"
  proof (rule ccontr)
    assume "\<not> ?u \<le> ?e + 1"
    then have "x < 2 powi (?u - 1)"
      using exponent2_bounds(2) [OF x] powi_mono [of "?e + 1" "?u - 1"] by simp
    then have "x / 2 powi ?u < 1 / 2" using powi_Suc [of "?u - 1"] by (simp add: pos_divide_less_eq)
    with x have "half_even (x / 2 powi ?u) = 0" by (intro half_even_eqI) simp
    with x False show False by (simp add: round_fp_eq)
  qed
  from powi_multiple [OF this] obtain m where m: "(2 :: rat) powi (?e + 1) = of_int m * 2 powi ?u" by blast
  have top: "?r \<le> 2 powi (?e + 1)"
    using round_fp_grid(2) [OF x] exponent2_bounds(2) [OF x] m by (metis less_imp_le)
  show ?thesis
  proof (cases "?r = 2 powi (?e + 1)")
    case True
    have "exponent2 ?r = ?e + 1" unfolding True by (rule exponent2_eqI) (simp_all add: powi_less_iff)
    then have "ulp_exponent prec emin ?r \<le> ?e + 1"
      using le assms(1) x r by (auto simp: ulp_exponent_def)
    from powi_multiple [OF this] True r show ?thesis by (metis round_fp_exact)
  next
    case False
    with top have "?r < 2 powi (?e + 1)" by simp
    then have "exponent2 ?r \<le> ?e"
      using exponent2_bounds(1) [OF r] powi_less_iff [of "exponent2 ?r" "?e + 1"] by linarith
    then have "ulp_exponent prec emin ?r \<le> ?u" using x r by (simp add: ulp_exponent_def)
    from multiple_mono [OF this, of k] k r show ?thesis by (metis round_fp_exact)
  qed
qed simp

lemma round_fp_nat:
  assumes "1 \<le> prec" "emin \<le> 0" "n < 2 ^ nat prec"
  shows "round_fp prec emin (of_nat n) = of_nat n"
proof (cases "n = 0")
  case False
  let ?x = "of_nat n :: rat"
  from False have x: "0 < ?x" by simp
  have "?x < of_nat (2 ^ nat prec)" using assms(3) by (simp only: of_nat_less_iff)
  also have "\<dots> = 2 powi prec" using assms(1) by (simp add: power_int_def)
  finally have "exponent2 ?x < prec"
    using exponent2_bounds(1) [OF x] powi_less_iff [of "exponent2 ?x" prec] by linarith
  with assms(2) have "ulp_exponent prec emin ?x \<le> 0" by (simp add: ulp_exponent_def)
  from multiple_mono [OF this, of "int n"] have "\<exists>m. ?x = of_int m * 2 powi ulp_exponent prec emin ?x" by simp
  with round_fp_exact [OF x] show ?thesis by metis
qed simp

lemma round_fp_error:
  assumes "2 powi (emin + prec - 1) \<le> x"
  shows "\<bar>round_fp prec emin x - x\<bar> \<le> x * 2 powi (- prec)"
proof -
  let ?e = "exponent2 x" and ?u = "ulp_exponent prec emin x"
  have x: "0 < x" using assms powi_pos [of "emin + prec - 1"] by linarith
  have "emin + prec - 1 < ?e + 1"
    using assms exponent2_bounds(2) [OF x] powi_less_iff [of "emin + prec - 1" "?e + 1"] by linarith
  then have u: "?u = ?e - prec + 1" using x by (simp add: ulp_exponent_def)
  let ?q = "x / 2 powi ?u"
  have "\<bar>of_int (half_even ?q) - ?q\<bar> \<le> 1 / 2" using half_even_bounds [of ?q] by linarith
  then have "\<bar>of_int (half_even ?q) - ?q\<bar> * 2 powi ?u \<le> 1 / 2 * 2 powi ?u" by (simp add: mult_right_mono)
  moreover have "\<bar>round_fp prec emin x - x\<bar> = \<bar>of_int (half_even ?q) - ?q\<bar> * 2 powi ?u"
  proof -
    have "\<bar>of_int (half_even ?q) - ?q\<bar> * 2 powi ?u = \<bar>(of_int (half_even ?q) - ?q) * 2 powi ?u\<bar>"
      by (simp only: abs_mult abs_of_pos [OF powi_pos])
    also have "(of_int (half_even ?q) - ?q) * 2 powi ?u = round_fp prec emin x - x"
      using x by (simp add: round_fp_eq left_diff_distrib)
    finally show ?thesis ..
  qed
  moreover have "1 / 2 * (2 :: rat) powi ?u = 2 powi ?e * 2 powi (- prec)"
    using powi_Suc [of "?e - prec"] power_int_add [of "2 :: rat" ?e "- prec"] by (simp add: u)
  ultimately show ?thesis
    using mult_right_mono [OF exponent2_bounds(1) [OF x], of "2 powi (- prec)"]
      less_imp_le [OF powi_pos] by (metis order_trans)
qed

section \<open>Facts for \<^verbatim>\<open>float\<close> and \<^verbatim>\<open>double\<close>\<close>

lemmas f32_mono = round_fp_mono [of 24 _ _ "-149", simplified]
lemmas f32_idem = round_fp_idem [of 24 _ "-149", simplified]
lemmas f32_nonneg = round_fp_nonneg [of _ 24 "-149"]
lemmas f64_mono = round_fp_mono [of 53 _ _ "-1074", simplified]
lemmas f64_idem = round_fp_idem [of 53 _ "-1074", simplified]
lemmas f64_nonneg = round_fp_nonneg [of _ 53 "-1074"]

lemma f32_nat: "n < 16777216 \<Longrightarrow> f32 (of_nat n) = of_nat n"
  using round_fp_nat [of 24 "-149" n] by simp

lemma f32_numeral [simp]: "(numeral k :: nat) < 16777216 \<Longrightarrow> f32 (numeral k) = numeral k"
  using f32_nat [of "numeral k"] by simp

lemma f32_one [simp]: "f32 1 = 1"
  using f32_nat [of 1] by simp

text \<open>A float, that is, a non-negative number of the format.\<close>

definition is_f32 :: "rat \<Rightarrow> bool" where
  "is_f32 x \<longleftrightarrow> 0 \<le> x \<and> f32 x = x"

lemma is_f32_round [simp]: "0 \<le> x \<Longrightarrow> is_f32 (f32 x)"
  by (simp add: is_f32_def f32_idem f32_nonneg)

lemma f32_le_of_is_f32: "is_f32 y \<Longrightarrow> 0 \<le> x \<Longrightarrow> x \<le> y \<Longrightarrow> f32 x \<le> y"
  using f32_mono [of x y] by (simp add: is_f32_def)

lemma f32_ge_of_is_f32: "is_f32 y \<Longrightarrow> y \<le> x \<Longrightarrow> y \<le> f32 x"
  using f32_mono [of y x] by (simp add: is_f32_def)

lemma f32_half:
  assumes "is_f32 x" "1 \<le> x"
  shows "f32 (x / 2) = x / 2"
proof -
  let ?e = "exponent2 x"
  have x: "0 < x" "0 < x / 2" using assms(2) by auto
  have "0 \<le> ?e" using exponent2_bounds(2) [OF x(1)] assms(2) powi_less_iff [of 0 "?e + 1"] by simp
  have e: "exponent2 (x / 2) = ?e - 1"
    using exponent2_bounds [OF x(1)] powi_Suc [of "?e - 1"] powi_Suc [of ?e] by (intro exponent2_eqI) simp_all
  have u: "ulp_exponent 24 (-149) (x / 2) = ?e - 24" "ulp_exponent 24 (-149) x = ?e - 23"
    using x e \<open>0 \<le> ?e\<close> by (simp_all add: ulp_exponent_def)
  have "x = of_int (half_even (x / 2 powi (?e - 23))) * 2 powi (?e - 23)"
    using assms(1) round_fp_eq [of x 24 "-149"] x u(2) by (simp add: is_f32_def)
  moreover have "(2 :: rat) powi (?e - 23) = 2 * 2 powi (?e - 24)"
    using powi_Suc [of "?e - 24"] by (simp add: algebra_simps)
  ultimately have "x = 2 * (of_int (half_even (x / 2 powi (?e - 23))) * 2 powi (?e - 24))" by simp
  then have "x / 2 = of_int (half_even (x / 2 powi (?e - 23))) * 2 powi (?e - 24)" by linarith
  then show ?thesis using x(2) round_fp_exact [OF x(2)] u(1) by metis
qed

lemma f32_double:
  assumes "1 \<le> x"
  shows "f32 (2 * x) = 2 * f32 x"
proof -
  let ?e = "exponent2 x"
  have x: "0 < x" using assms by simp
  have "0 \<le> ?e" using exponent2_bounds(2) [OF x] assms powi_less_iff [of 0 "?e + 1"] by simp
  have e: "exponent2 (2 * x) = ?e + 1"
    using exponent2_bounds [OF x] powi_Suc [of ?e] powi_Suc [of "?e + 1"] by (intro exponent2_eqI) simp_all
  have u: "ulp_exponent 24 (-149) (2 * x) = ?e - 22" "ulp_exponent 24 (-149) x = ?e - 23"
    using x e \<open>0 \<le> ?e\<close> by (simp_all add: ulp_exponent_def)
  have p: "(2 :: rat) powi (?e - 22) = 2 * 2 powi (?e - 23)"
    using powi_Suc [of "?e - 23"] by (simp add: algebra_simps)
  have "f32 (2 * x) = of_int (half_even (2 * x / 2 powi (?e - 22))) * 2 powi (?e - 22)"
    using round_fp_eq [of "2 * x" 24 "-149"] x u by simp
  also have "2 * x / 2 powi (?e - 22) = x / 2 powi (?e - 23)" by (simp add: p)
  finally show ?thesis using round_fp_eq [of x 24 "-149"] x u p by simp
qed

lemma f32_error: "1 / 1000000 \<le> x \<Longrightarrow> \<bar>f32 x - x\<bar> \<le> x / 16777216"
proof -
  assume x: "1 / 1000000 \<le> x"
  have "(2 :: rat) powi (-126) \<le> 2 powi (-20)" by (rule powi_mono) simp
  also have "(2 :: rat) powi (-20) \<le> x" using x by (simp add: power_int_def power_divide)
  finally have "2 powi (-149 + 24 - 1) \<le> x" by simp
  from round_fp_error [OF this] show ?thesis by (simp add: power_int_def power_divide)
qed

lemma rat_of_word_0 [simp]: "rat_of_word 0 = 0"
  by (simp add: rat_of_word_def)

lemma rat_of_word_nonneg [simp]: "0 \<le> rat_of_word n"
  unfolding rat_of_word_def by (rule of_nat_0_le_iff)

lemma rat_of_word_le_iff [simp]: "rat_of_word m \<le> rat_of_word n \<longleftrightarrow> m \<le> n"
  unfolding rat_of_word_def of_nat_le_iff word_le_nat_alt ..

lemma rat_of_word_ge_1: "0 < n \<Longrightarrow> 1 \<le> rat_of_word n"
proof -
  assume "0 < n"
  then have "1 \<le> unat n" using unat_gt_0 [of n] by (simp add: word_neq_0_conv)
  then show ?thesis unfolding rat_of_word_def using of_nat_mono [of 1 "unat n", where 'a = rat] by simp
qed

lemma rat_of_word_less: "rat_of_word (n :: u64) \<le> 18446744073709551615"
proof -
  have "rat_of_nat (unat n) \<le> rat_of_nat 18446744073709551615"
    using unat_u64_less [of n] by (simp only: of_nat_le_iff) simp
  then show ?thesis unfolding rat_of_word_def by simp
qed

lemma float_of_u64_nonneg [simp]: "0 \<le> float_of_u64 n"
  by (simp add: float_of_u64_def f32_nonneg)

lemma float_of_u64_mono: "m \<le> n \<Longrightarrow> float_of_u64 m \<le> float_of_u64 n"
  unfolding float_of_u64_def by (intro f32_mono) simp_all

lemma float_of_u64_small: "n < 16777216 \<Longrightarrow> float_of_u64 n = rat_of_word n"
  unfolding float_of_u64_def rat_of_word_def by (rule f32_nat) (simp add: word_less_nat_alt)

lemma is_f32_float_of_u64 [simp]: "is_f32 (float_of_u64 n)"
  by (simp add: float_of_u64_def)

lemma float_of_u64_pos: "0 < n \<Longrightarrow> 1 \<le> float_of_u64 n"
  unfolding float_of_u64_def using f32_mono [of 1 "rat_of_word n"] rat_of_word_ge_1 [of n] by simp

lemma float_of_u64_error: "\<bar>float_of_u64 n - rat_of_word n\<bar> \<le> rat_of_word n / 16777216"
proof (cases "n = 0")
  case False
  then have "1 \<le> rat_of_word n" by (simp add: rat_of_word_ge_1 word_neq_0_conv)
  moreover have "(2 :: rat) powi (-126) \<le> 1" using powi_mono [of "-126" 0] by simp
  ultimately have "2 powi (-149 + 24 - 1) \<le> rat_of_word n" by simp
  from round_fp_error [OF this] show ?thesis
    by (simp add: float_of_u64_def power_int_def power_divide)
qed (simp add: float_of_u64_def)

lemma fmod_bounds:
  assumes "0 < y"
  shows "0 \<le> fmod x y" "fmod x y < y"
proof -
  have "of_int \<lfloor>x / y\<rfloor> \<le> x / y" "x / y < of_int \<lfloor>x / y\<rfloor> + 1" by linarith+
  then have "of_int \<lfloor>x / y\<rfloor> * y \<le> x" "x < (of_int \<lfloor>x / y\<rfloor> + 1) * y"
    using assms pos_le_divide_eq [OF assms] pos_divide_less_eq [OF assms] by metis+
  then show "0 \<le> fmod x y" "fmod x y < y" by (simp_all add: fmod_def distrib_right)
qed

end
