(* ===== verification/Std_Map.thy ===== *)
theory Std_Map
  imports Mermai_Prelude
begin

text \<open>
  \<^verbatim>\<open>std::map\<close> as the sources use it: an association list ordered by key, which is also
  the order in which the sources iterate (\<^verbatim>\<open>std::string\<close> keys compare byte by byte, as
  \<open>string\<close> does through its lexicographic order). The locale \<open>keyed_store\<close> is the
  interface the components rely on (what a lookup returns after an insertion or a removal);
  it is interpreted here for ordered maps, and again by the components that implement their own
  stores on top of one.
\<close>

type_synonym ('k, 'v) omap = "('k \<times> 'v) list"

section \<open>Operations\<close>

abbreviation omap_find :: "('k, 'v) omap \<Rightarrow> 'k \<Rightarrow> 'v option" where
  "omap_find \<equiv> map_of"

fun omap_put :: "'k::linorder \<Rightarrow> 'v \<Rightarrow> ('k, 'v) omap \<Rightarrow> ('k, 'v) omap" where
  "omap_put k v [] = [(k, v)]"
| "omap_put k v ((a, b) # ps) =
     (if k < a then (k, v) # (a, b) # ps
      else if k = a then (k, v) # ps
      else (a, b) # omap_put k v ps)"

definition omap_erase :: "'k \<Rightarrow> ('k, 'v) omap \<Rightarrow> ('k, 'v) omap" where
  "omap_erase k m = filter (\<lambda>p. fst p \<noteq> k) m"

text \<open>\<^verbatim>\<open>m[k]\<close>: the value under \<open>k\<close>, after inserting a default one if there is none.\<close>

definition omap_at :: "'v \<Rightarrow> 'k \<Rightarrow> ('k, 'v) omap \<Rightarrow> 'v" where
  "omap_at dflt k m = (case omap_find m k of Some v \<Rightarrow> v | None \<Rightarrow> dflt)"

definition omap_touch :: "'v \<Rightarrow> 'k::linorder \<Rightarrow> ('k, 'v) omap \<Rightarrow> ('k, 'v) omap" where
  "omap_touch dflt k m = (case omap_find m k of Some _ \<Rightarrow> m | None \<Rightarrow> omap_put k dflt m)"

definition omap_ok :: "('k::linorder, 'v) omap \<Rightarrow> bool" where
  "omap_ok m \<longleftrightarrow> sorted_wrt (<) (map fst m)"

section \<open>The interface of a keyed store\<close>

locale keyed_store =
  fixes find :: "'m \<Rightarrow> 'k \<Rightarrow> 'v option"
    and put :: "'k \<Rightarrow> 'v \<Rightarrow> 'm \<Rightarrow> 'm"
    and erase :: "'k \<Rightarrow> 'm \<Rightarrow> 'm"
  assumes find_put: "find (put k v m) = (find m)(k \<mapsto> v)"
    and find_erase: "find (erase k m) = (find m)(k := None)"
begin

lemma put_put_find: "find (put k w (put k v m)) = find (put k w m)"
  by (simp add: find_put)

lemma erase_put_find: "find (erase k (put k v m)) = find (erase k m)"
  by (simp add: find_put find_erase)

lemma put_comm_find: "k \<noteq> l \<Longrightarrow> find (put k v (put l w m)) = find (put l w (put k v m))"
  by (auto simp: find_put)

lemma dom_put: "dom (find (put k v m)) = insert k (dom (find m))"
  by (simp add: find_put)

lemma dom_erase: "dom (find (erase k m)) = dom (find m) - {k}"
  by (simp add: find_erase)

end

lemma omap_find_put [simp]: "omap_find (omap_put k v m) = (omap_find m)(k \<mapsto> v)"
  by (induction m) (auto simp: fun_eq_iff)

lemma omap_find_erase [simp]: "omap_find (omap_erase k m) = (omap_find m)(k := None)"
  by (induction m) (auto simp: fun_eq_iff omap_erase_def)

interpretation omap_store: keyed_store omap_find omap_put omap_erase
  by unfold_locales simp_all

section \<open>Order, size and sums\<close>

lemma omap_ok_Nil [simp]: "omap_ok []"
  by (simp add: omap_ok_def)

lemma omap_ok_distinct: "omap_ok m \<Longrightarrow> distinct (map fst m)"
  by (simp add: omap_ok_def strict_sorted_iff)

lemma omap_ok_Cons: "omap_ok ((a, b) # m) \<longleftrightarrow> (\<forall>k\<in>fst ` set m. a < k) \<and> omap_ok m"
  by (auto simp: omap_ok_def)

lemma keys_omap_put [simp]: "fst ` set (omap_put k v m) = insert k (fst ` set m)"
  by (simp only: omap_find_put dom_fun_upd option.distinct if_False flip: dom_map_of_conv_image_fst)

lemma keys_omap_erase [simp]: "fst ` set (omap_erase k m) = fst ` set m - {k}"
  by (auto simp: omap_erase_def)

lemma omap_ok_put [simp]: "omap_ok m \<Longrightarrow> omap_ok (omap_put k v m)"
proof (induction m)
  case (Cons p m)
  obtain a b where p: "p = (a, b)" by (cases p)
  consider "k < a" | "k = a" | "a < k" by (rule linorder_cases)
  then show ?case
  proof cases
    case 1
    with Cons.prems have "\<forall>x\<in>fst ` set m. k < x" by (auto simp: p omap_ok_Cons intro: less_trans)
    with 1 Cons.prems show ?thesis by (simp add: p omap_ok_Cons)
  next
    case 3
    with Cons show ?thesis by (auto simp: p omap_ok_Cons)
  qed (use Cons in \<open>auto simp: p omap_ok_Cons\<close>)
qed (simp add: omap_ok_def)

lemma omap_ok_erase [simp]: "omap_ok m \<Longrightarrow> omap_ok (omap_erase k m)"
  by (induction m) (auto simp: omap_ok_Cons omap_erase_def)

lemma omap_ok_touch [simp]: "omap_ok m \<Longrightarrow> omap_ok (omap_touch d k m)"
  by (simp add: omap_touch_def split: option.splits)

lemma omap_find_mem: "omap_ok m \<Longrightarrow> omap_find m k = Some v \<longleftrightarrow> (k, v) \<in> set m"
  by (simp add: map_of_eq_Some_iff omap_ok_distinct)

lemma omap_find_None_iff: "omap_find m k = None \<longleftrightarrow> k \<notin> fst ` set m"
  by (simp add: map_of_eq_None_iff)

lemma omap_erase_absent: "k \<notin> fst ` set m \<Longrightarrow> omap_erase k m = m"
  by (force simp: omap_erase_def filter_id_conv)

lemma set_omap_put:
  "omap_ok m \<Longrightarrow> set (omap_put k v m) = insert (k, v) {p \<in> set m. fst p \<noteq> k}"
  by (auto simp flip: omap_find_mem split: if_splits)

lemma set_omap_erase: "set (omap_erase k m) = {p \<in> set m. fst p \<noteq> k}"
  by (auto simp: omap_erase_def)

lemma length_omap_put:
  "omap_ok m \<Longrightarrow>
     length (omap_put k v m) = (case omap_find m k of None \<Rightarrow> Suc (length m) | Some _ \<Rightarrow> length m)"
proof (induction m)
  case (Cons p m)
  obtain a b where p: "p = (a, b)" by (cases p)
  have "omap_find m k = None" if "k < a"
    using Cons.prems that by (force simp: omap_find_None_iff omap_ok_Cons p)
  with Cons show ?case by (auto simp: p omap_ok_Cons split: option.splits)
qed simp

lemma length_omap_erase:
  "omap_ok m \<Longrightarrow>
     length (omap_erase k m) = (case omap_find m k of None \<Rightarrow> length m | Some _ \<Rightarrow> length m - 1)"
proof (induction m)
  case (Cons p m)
  obtain a b where p: "p = (a, b)" by (cases p)
  show ?case
  proof (cases "a = k")
    case True
    then have "k \<notin> fst ` set m" using Cons.prems by (auto simp: p omap_ok_Cons)
    from omap_erase_absent [OF this] have "omap_erase k (p # m) = m"
      using True by (simp add: p omap_erase_def)
    with True show ?thesis by (simp add: p)
  next
    case False
    then have "omap_find m k = Some v \<Longrightarrow> length m \<noteq> 0" for v by auto
    with False Cons show ?thesis
      by (fastforce simp: p omap_erase_def omap_ok_Cons split: option.splits)
  qed
qed (simp add: omap_erase_def)

text \<open>The sum of a quantity over the values of a map, in any commutative monoid.\<close>

definition omap_sum :: "('v \<Rightarrow> 'n::comm_monoid_add) \<Rightarrow> ('k, 'v) omap \<Rightarrow> 'n" where
  "omap_sum f m = sum_list (map (f \<circ> snd) m)"

lemma omap_sum_Nil [simp]: "omap_sum f [] = 0"
  by (simp add: omap_sum_def)

lemma omap_sum_Cons [simp]: "omap_sum f ((a, b) # m) = f b + omap_sum f m"
  by (simp add: omap_sum_def)

lemma omap_sum_put:
  "omap_ok m \<Longrightarrow>
     omap_sum f (omap_put k v m) + (case omap_find m k of None \<Rightarrow> 0 | Some w \<Rightarrow> f w) =
     omap_sum f m + f v"
proof (induction m)
  case (Cons p m)
  obtain a b where p: "p = (a, b)" by (cases p)
  have "omap_find m k = None" if "k < a"
    using Cons.prems that by (force simp: omap_find_None_iff omap_ok_Cons p)
  with Cons show ?case by (auto simp: p omap_ok_Cons ac_simps split: option.splits)
qed simp

lemma omap_sum_erase:
  "omap_ok m \<Longrightarrow>
     omap_sum f (omap_erase k m) + (case omap_find m k of None \<Rightarrow> 0 | Some w \<Rightarrow> f w) = omap_sum f m"
proof (induction m)
  case (Cons p m)
  obtain a b where p: "p = (a, b)" by (cases p)
  show ?case
  proof (cases "a = k")
    case True
    then have "k \<notin> fst ` set m" using Cons.prems by (auto simp: p omap_ok_Cons)
    from omap_erase_absent [OF this] show ?thesis using True by (simp add: p omap_erase_def ac_simps)
  next
    case False
    with Cons show ?thesis by (auto simp: p omap_ok_Cons omap_erase_def ac_simps split: option.splits)
  qed
qed (simp add: omap_erase_def)

lemma omap_sum_put_at:
  fixes f :: "'v \<Rightarrow> 'n::comm_monoid_add"
  assumes "omap_ok m" and "f dflt = 0"
  shows "omap_sum f (omap_put k v m) + f (omap_at dflt k m) = omap_sum f m + f v"
  using omap_sum_put [OF assms(1), of f k v] assms(2)
  by (simp add: omap_at_def split: option.splits)

lemma omap_at_put [simp]: "omap_at d k (omap_put l v m) = (if k = l then v else omap_at d k m)"
  by (simp add: omap_at_def)

lemma omap_at_touch [simp]: "omap_at d k (omap_touch d l m) = omap_at d k m"
  by (auto simp: omap_at_def omap_touch_def split: option.splits)

lemma omap_sum_touch:
  assumes "omap_ok m" and "f dflt = 0"
  shows "omap_sum f (omap_touch dflt k m) = omap_sum f m"
  using omap_sum_put [OF assms(1), of f k dflt] assms(2)
  by (auto simp: omap_touch_def split: option.splits)

lemma omap_sum_member: "(k, v) \<in> set m \<Longrightarrow> f v \<le> (omap_sum f m :: nat)"
  by (induction m) auto

lemma omap_sum_at_le: "f dflt = 0 \<Longrightarrow> f (omap_at dflt k m) \<le> (omap_sum f m :: nat)"
  by (auto simp: omap_at_def split: option.splits dest: map_of_SomeD intro: omap_sum_member)

end
