(* ===== verification/Mermai_Governance.thy ===== *)
theory Mermai_Governance
  imports Mermai_Float Std_Map
begin

text \<open>
  On-chain governance (\<^verbatim>\<open>src/src/consensus/mermai_governance.cpp\<close>): proposals, stake-weighted votes
  and the tally, which compares participation and approval as \<^verbatim>\<open>float\<close> quotients.
\<close>

section \<open>Operations\<close>

datatype proposal_status = ACTIVE | PASSED | REJECTED | EXECUTED

datatype proposal_type = PARAMETER_CHANGE | TEXT_PROPOSAL | COMMUNITY_GRANT

record mermai_proposal =
  prop_id :: u64
  prop_proposer :: string
  prop_title :: string
  prop_description :: string
  prop_type :: proposal_type
  prop_status :: proposal_status
  target_parameter :: string
  new_parameter_value :: u64
  start_block :: u32
  end_block :: u32
  votes_yes :: u64
  votes_no :: u64
  votes_abstain :: u64
  voter_records :: "(string, bool) omap"

record mermai_governance_engine =
  proposals :: "(u64, mermai_proposal) omap"
  next_proposal_id :: u64
  min_proposal_deposit :: u64
  voting_period_blocks :: u32
  quorum_threshold :: rat
  pass_threshold :: rat

definition new_governance :: mermai_governance_engine where
  "new_governance = \<lparr>proposals = [], next_proposal_id = 1, min_proposal_deposit = 100000,
     voting_period_blocks = 100, quorum_threshold = f32 (2 / 5), pass_threshold = f32 (1 / 2)\<rparr>"

definition create_proposal ::
  "string \<Rightarrow> string \<Rightarrow> string \<Rightarrow> proposal_type \<Rightarrow> u32 \<Rightarrow> string \<Rightarrow> u64 \<Rightarrow> mermai_governance_engine \<Rightarrow>
     u64 \<times> mermai_governance_engine" where
  "create_proposal proposer title description type current_block target_param new_val g =
     (if proposer = [] \<or> title = [] then (0, g)
      else let pid = next_proposal_id g;
             p = \<lparr>prop_id = pid, prop_proposer = proposer, prop_title = title,
                  prop_description = description, prop_type = type, prop_status = ACTIVE,
                  target_parameter = target_param, new_parameter_value = new_val,
                  start_block = current_block, end_block = current_block + voting_period_blocks g,
                  votes_yes = 0, votes_no = 0, votes_abstain = 0, voter_records = []\<rparr>
        in (pid, g\<lparr>next_proposal_id := pid + 1, proposals := omap_put pid p (proposals g)\<rparr>))"

definition vote ::
  "u64 \<Rightarrow> string \<Rightarrow> u64 \<Rightarrow> bool \<Rightarrow> u32 \<Rightarrow> mermai_governance_engine \<Rightarrow> bool \<times> mermai_governance_engine" where
  "vote proposal_id voter stake support current_block g =
     (case omap_find (proposals g) proposal_id of
        None \<Rightarrow> (False, g)
      | Some p \<Rightarrow>
          if prop_status p \<noteq> ACTIVE then (False, g)
          else if current_block > end_block p then (False, g)
          else if omap_find (voter_records p) voter \<noteq> None then (False, g)
          else
            let p1 = p\<lparr>voter_records := omap_put voter support (voter_records p)\<rparr>;
                p2 = (if support then p1\<lparr>votes_yes := votes_yes p1 + stake\<rparr>
                      else p1\<lparr>votes_no := votes_no p1 + stake\<rparr>)
            in (True, g\<lparr>proposals := omap_put proposal_id p2 (proposals g)\<rparr>))"

definition tally :: "mermai_governance_engine \<Rightarrow> mermai_proposal \<Rightarrow> u64 \<Rightarrow> bool \<times> proposal_status" where
  "tally g p total_active_stake =
     (let total_voted = votes_yes p + votes_no p + votes_abstain p
      in if total_active_stake > 0 \<and>
            float_div (float_of_u64 total_voted) (float_of_u64 total_active_stake) < quorum_threshold g
         then (False, REJECTED)
         else if total_voted > 0 \<and>
            float_div (float_of_u64 (votes_yes p)) (float_of_u64 total_voted) > pass_threshold g
         then (True, if prop_type p = PARAMETER_CHANGE then EXECUTED else PASSED)
         else (False, REJECTED))"

definition tally_and_execute ::
  "u64 \<Rightarrow> u32 \<Rightarrow> u64 \<Rightarrow> mermai_governance_engine \<Rightarrow> bool \<times> mermai_governance_engine" where
  "tally_and_execute proposal_id current_block total_active_stake g =
     (case omap_find (proposals g) proposal_id of
        None \<Rightarrow> (False, g)
      | Some p \<Rightarrow>
          if prop_status p \<noteq> ACTIVE then (False, g)
          else if current_block < end_block p then (False, g)
          else let (r, st) = tally g p total_active_stake
            in (r, g\<lparr>proposals := omap_put proposal_id (p\<lparr>prop_status := st\<rparr>) (proposals g)\<rparr>))"

definition get_proposal :: "u64 \<Rightarrow> mermai_governance_engine \<Rightarrow> mermai_proposal option" where
  "get_proposal proposal_id g = omap_find (proposals g) proposal_id"

definition get_all_proposals :: "mermai_governance_engine \<Rightarrow> mermai_proposal list" where
  "get_all_proposals g = map snd (proposals g)"

definition get_proposal_count :: "mermai_governance_engine \<Rightarrow> nat" where
  "get_proposal_count g = length (proposals g)"

section \<open>Every voter counts once\<close>

text \<open>
  The accepted votes of a run, as (proposal, voter, stake, support), are collected next to the
  engine. Ids are 64-bit and the run is cut before they wrap around.
\<close>

type_synonym vote_log = "(u64 \<times> string \<times> u64 \<times> bool) list"

inductive gov_step ::
  "mermai_governance_engine \<times> vote_log \<Rightarrow> mermai_governance_engine \<times> vote_log \<Rightarrow> bool" where
  gov_create: "next_proposal_id g + 1 \<noteq> 0 \<Longrightarrow>
    gov_step (g, L) (snd (create_proposal proposer title description type now param val g), L)"
| gov_vote: "vote pid voter stake support now g = (r, g') \<Longrightarrow>
    gov_step (g, L) (g', if r then L @ [(pid, voter, stake, support)] else L)"
| gov_tally: "gov_step (g, L) (snd (tally_and_execute pid now tot g), L)"

definition log_sum :: "vote_log \<Rightarrow> u64 \<Rightarrow> bool \<Rightarrow> u64" where
  "log_sum L pid support = (\<Sum>(i, w, s, b)\<leftarrow>L. if i = pid \<and> b = support then s else 0)"

definition log_voters :: "vote_log \<Rightarrow> u64 \<Rightarrow> string list" where
  "log_voters L pid = map (\<lambda>(i, w, s, b). w) (filter (\<lambda>(i, w, s, b). i = pid) L)"

definition ballot_ok :: "vote_log \<Rightarrow> u64 \<Rightarrow> mermai_proposal \<Rightarrow> bool" where
  "ballot_ok L pid p \<longleftrightarrow>
     votes_yes p = log_sum L pid True \<and> votes_no p = log_sum L pid False \<and> votes_abstain p = 0 \<and>
     distinct (log_voters L pid) \<and> dom (omap_find (voter_records p)) = set (log_voters L pid)"

definition gov_inv :: "mermai_governance_engine \<times> vote_log \<Rightarrow> bool" where
  "gov_inv = (\<lambda>(g, L).
     quorum_threshold g = f32 (2 / 5) \<and> pass_threshold g = f32 (1 / 2) \<and>
     (\<forall>pid p. omap_find (proposals g) pid = Some p \<longrightarrow> pid < next_proposal_id g \<and> ballot_ok L pid p) \<and>
     (\<forall>e\<in>set L. fst e < next_proposal_id g))"

lemma log_sum_snoc:
  "log_sum (L @ [(i, w, s, b)]) pid support = log_sum L pid support + (if i = pid \<and> b = support then s else 0)"
  by (simp add: log_sum_def)

lemma log_voters_snoc: "log_voters (L @ [(i, w, s, b)]) pid = log_voters L pid @ (if i = pid then [w] else [])"
  by (simp add: log_voters_def)

lemma log_fresh: "\<forall>e\<in>set L. fst e \<noteq> pid \<Longrightarrow> log_sum L pid support = 0 \<and> log_voters L pid = []"
  by (induction L) (auto simp: log_sum_def log_voters_def)

definition count_vote :: "string \<Rightarrow> u64 \<Rightarrow> bool \<Rightarrow> mermai_proposal \<Rightarrow> mermai_proposal" where
  "count_vote voter stake support p =
     (let p1 = p\<lparr>voter_records := omap_put voter support (voter_records p)\<rparr>
      in if support then p1\<lparr>votes_yes := votes_yes p1 + stake\<rparr> else p1\<lparr>votes_no := votes_no p1 + stake\<rparr>)"

lemma vote_cases:
  assumes "vote pid voter stake support now g = (r, g')"
  obtains "\<not> r" "g' = g"
  | p where "r" "omap_find (proposals g) pid = Some p" "omap_find (voter_records p) voter = None"
      "g' = g\<lparr>proposals := omap_put pid (count_vote voter stake support p) (proposals g)\<rparr>"
  using assms by (auto simp: vote_def count_vote_def Let_def split: option.splits if_splits)

lemma ballot_ok_count:
  "ballot_ok L pid p \<Longrightarrow> omap_find (voter_records p) voter = None \<Longrightarrow>
     ballot_ok (L @ [(pid, voter, stake, support)]) pid (count_vote voter stake support p)"
  by (cases support) (auto simp: ballot_ok_def count_vote_def log_sum_snoc log_voters_snoc Let_def domIff)

lemma ballot_ok_other:
  "i \<noteq> pid \<Longrightarrow> ballot_ok (L @ [(i, voter, stake, support)]) pid p = ballot_ok L pid p"
  by (simp add: ballot_ok_def log_sum_snoc log_voters_snoc)

lemma gov_step_inv:
  assumes "gov_inv s" "gov_step s s'"
  shows "gov_inv s'"
  using assms(2)
proof (cases rule: gov_step.cases)
  case (gov_create g L proposer title description type now param val)
  let ?n = "next_proposal_id g"
  have lt: "?n < ?n + 1" using unatSuc [of ?n] gov_create(3)
    by (simp add: word_less_nat_alt add.commute)
  have fresh: "log_sum L ?n support = 0 \<and> log_voters L ?n = []" for support
    using assms(1) gov_create(1) by (intro log_fresh) (auto simp: gov_inv_def)
  show ?thesis using assms(1) lt fresh gov_create(1,2)
    by (auto simp: gov_inv_def create_proposal_def Let_def ballot_ok_def intro: less_trans)
next
  case (gov_vote pid voter stake support now g r g' L)
  from gov_vote(3) show ?thesis
  proof (cases rule: vote_cases)
    case 1
    with assms(1) gov_vote show ?thesis by simp
  next
    case (2 p)
    from assms(1) gov_vote(1) have inv: "gov_inv (g, L)" by simp
    from inv 2(2) have "ballot_ok L pid p" "pid < next_proposal_id g" by (auto simp: gov_inv_def)
    with inv ballot_ok_count [OF _ 2(3)] ballot_ok_other show ?thesis
      by (auto simp: gov_vote(2) 2(1,4) gov_inv_def split: if_splits)
  qed
next
  case (gov_tally g L pid now tot)
  then show ?thesis using assms(1)
    by (auto simp: gov_inv_def tally_and_execute_def Let_def ballot_ok_def
        split: option.splits if_splits prod.splits)
qed

interpretation governance: safe_system "\<lambda>s. s = (new_governance, [])" gov_step gov_inv
proof
  show "s = (new_governance, []) \<Longrightarrow> gov_inv s" for s by (simp add: gov_inv_def new_governance_def)
qed (rule gov_step_inv)

section \<open>The tally\<close>

lemma majority_exact:
  assumes "0 < t" "float_div (float_of_u64 y) (float_of_u64 t) > 1 / 2"
  shows "unat t < 2 * unat y"
proof (rule ccontr)
  assume "\<not> unat t < 2 * unat y"
  then have le: "2 * unat y \<le> unat t" by simp
  then have "rat_of_nat (2 * unat y) \<le> rat_of_nat (unat t)" by (simp only: of_nat_le_iff)
  then have r: "2 * rat_of_word y \<le> rat_of_word t" by (simp add: rat_of_word_def)
  have "2 * float_of_u64 y \<le> float_of_u64 t"
  proof (cases "y = 0")
    case False
    then have "2 * float_of_u64 y = f32 (2 * rat_of_word y)"
      using f32_double rat_of_word_ge_1 [of y] by (simp add: float_of_u64_def word_neq_0_conv)
    with f32_mono [OF _ r] show ?thesis by (simp add: float_of_u64_def)
  qed (simp add: float_of_u64_def f32_nonneg)
  moreover have "0 < float_of_u64 t" using float_of_u64_pos [OF assms(1)] by linarith
  ultimately have "float_of_u64 y / float_of_u64 t \<le> 1 / 2" by (simp add: divide_le_eq)
  moreover have "is_f32 (1 / 2)" using f32_half [of 1] by (simp add: is_f32_def)
  ultimately have "float_div (float_of_u64 y) (float_of_u64 t) \<le> 1 / 2"
    unfolding float_div_def by (intro f32_le_of_is_f32) auto
  with assms(2) show False by simp
qed

lemma quorum_literal: "f32 (2 / 5) = 13421773 / 33554432" "f32 (1 / 2) = 1 / 2"
  by code_simp+

lemma participation_bound:
  assumes "0 < s" "f32 (2 / 5) \<le> float_div (float_of_u64 v) (float_of_u64 s)"
  shows "3999999 * rat_of_word s \<le> 10000000 * rat_of_word v"
proof -
  let ?V = "float_of_u64 v" and ?S = "float_of_u64 s"
  have S: "1 \<le> ?S" by (rule float_of_u64_pos [OF assms(1)])
  have q: "39999997 / 100000000 \<le> ?V / ?S"
  proof (rule ccontr)
    assume "\<not> 39999997 / 100000000 \<le> ?V / ?S"
    then have "f32 (?V / ?S) \<le> f32 (39999997 / 100000000)" using S by (intro f32_mono) auto
    also have "\<dots> < 13421773 / 33554432" by code_simp
    finally show False using assms(2) by (simp add: float_div_def quorum_literal)
  qed
  then have "39999997 * ?S \<le> 100000000 * ?V" using S by (simp add: pos_le_divide_eq)
  moreover have "?V \<le> rat_of_word v + rat_of_word v / 16777216" "rat_of_word s - rat_of_word s / 16777216 \<le> ?S"
    using float_of_u64_error [of v] float_of_u64_error [of s] by linarith+
  moreover have "0 \<le> rat_of_word s" "0 \<le> rat_of_word v" by simp_all
  ultimately show ?thesis by linarith
qed

text \<open>C19: A proposal passes only with a strict majority of the stake that voted, every voter having
  been counted once with the stake of its only accepted vote, and with the participation of at
  least 39.99999 % of the active stake; float rounding in the tally cannot let a tie or a
  minority pass. (Vote sums are modulo 2 to the power 64.)\<close>
theorem passed_proposal_has_majority:
  assumes "reach (\<lambda>s. s = (new_governance, [])) gov_step (g, L)"
    and "get_proposal pid g = Some p"
    and "tally_and_execute pid now active_stake g = (True, g')"
  shows "distinct (log_voters L pid) \<and> votes_yes p = log_sum L pid True \<and> votes_no p = log_sum L pid False \<and>
    unat (votes_yes p + votes_no p) < 2 * unat (votes_yes p) \<and>
    3999999 * rat_of_word active_stake \<le> 10000000 * rat_of_word (votes_yes p + votes_no p) \<and>
    map_option prop_status (get_proposal pid g') \<in> {Some PASSED, Some EXECUTED}"
proof -
  from governance.reach_inv [OF assms(1)] have inv: "gov_inv (g, L)" .
  with assms(2) have ballot: "ballot_ok L pid p" and thr: "quorum_threshold g = f32 (2 / 5)" "pass_threshold g = 1 / 2"
    by (auto simp: gov_inv_def get_proposal_def quorum_literal(2))
  let ?t = "votes_yes p + votes_no p"
  from ballot have abst: "votes_abstain p = 0" by (simp add: ballot_ok_def)
  from assms(2,3) have ok: "fst (tally g p active_stake)"
    and st: "prop_status (the (get_proposal pid g')) = snd (tally g p active_stake)" "get_proposal pid g' \<noteq> None"
    by (auto simp: tally_and_execute_def get_proposal_def split: if_splits prod.splits)
  from ok have pass: "0 < ?t" "float_div (float_of_u64 (votes_yes p)) (float_of_u64 ?t) > 1 / 2"
    and part: "active_stake = 0 \<or> f32 (2 / 5) \<le> float_div (float_of_u64 ?t) (float_of_u64 active_stake)"
    by (auto simp: tally_def Let_def abst thr not_less word_neq_0_conv split: if_splits)
  have "3999999 * rat_of_word active_stake \<le> 10000000 * rat_of_word ?t"
    using part participation_bound [of active_stake ?t] by (cases "active_stake = 0") (auto simp: word_neq_0_conv)
  moreover have "map_option prop_status (get_proposal pid g') \<in> {Some PASSED, Some EXECUTED}"
    using st ok by (auto simp: tally_def Let_def split: if_splits)
  ultimately show ?thesis
    using majority_exact [OF pass] ballot by (simp add: ballot_ok_def)
qed

definition demo_governance :: "mermai_governance_engine \<times> vote_log" where
  "demo_governance =
     (let g1 = snd (create_proposal ''p'' ''t'' '''' TEXT_PROPOSAL 5 '''' 0 new_governance);
          g2 = snd (vote 1 ''a'' 3 True 6 g1)
      in (snd (vote 1 ''b'' 2 False 7 g2), [(1, ''a'', 3, True), (1, ''b'', 2, False)]))"

lemma demo_governance_reach: "reach (\<lambda>s. s = (new_governance, [])) gov_step demo_governance"
proof -
  let ?R = "reach (\<lambda>s. s = (new_governance, [])) gov_step"
  let ?g1 = "snd (create_proposal ''p'' ''t'' '''' TEXT_PROPOSAL 5 '''' 0 new_governance)"
  let ?g2 = "snd (vote 1 ''a'' 3 True 6 ?g1)" and ?g3 = "snd (vote 1 ''b'' 2 False 7 (snd (vote 1 ''a'' 3 True 6 ?g1)))"
  have "?R (new_governance, [])" by (rule reach_start) simp
  then have "?R (?g1, [])"
    by (rule reach_step) (rule gov_create, simp add: new_governance_def)
  moreover have "vote 1 ''a'' 3 True 6 ?g1 = (True, ?g2)"
    by (simp add: vote_def create_proposal_def new_governance_def Let_def)
  from gov_step.gov_vote [OF this, of "[]"] have "gov_step (?g1, []) (?g2, [(1, ''a'', 3, True)])"
    by (simp only: if_True append_Nil)
  ultimately have "?R (?g2, [(1, ''a'', 3, True)])" by (rule reach_step)
  moreover have "vote 1 ''b'' 2 False 7 ?g2 = (True, ?g3)"
    by (simp add: vote_def create_proposal_def new_governance_def Let_def)
  from gov_step.gov_vote [OF this, of "[(1, ''a'', 3, True)]"]
  have "gov_step (?g2, [(1, ''a'', 3, True)]) (?g3, [(1, ''a'', 3, True), (1, ''b'', 2, False)])"
    by (simp only: if_True append_Cons append_Nil)
  ultimately have "?R (?g3, [(1, ''a'', 3, True), (1, ''b'', 2, False)])" by (rule reach_step)
  then show ?thesis unfolding demo_governance_def Let_def .
qed

lemma passed_proposal_has_majority_witness:
  "fst (tally_and_execute 1 105 10 (fst demo_governance)) \<and>
   unat (votes_yes (the (get_proposal 1 (fst demo_governance)))) = 3 \<and> (5 :: nat) < 2 * 3"
proof -
  let ?g = "fst demo_governance"
  obtain p where p: "get_proposal 1 ?g = Some p" "votes_yes p = 3" "votes_no p = 2" "votes_abstain p = 0"
    "prop_status p = ACTIVE" "end_block p = 105"
    by (simp add: demo_governance_def vote_def create_proposal_def new_governance_def Let_def get_proposal_def)
  have thr: "quorum_threshold ?g = f32 (2 / 5)" "pass_threshold ?g = f32 (1 / 2)"
    using governance.reach_inv [OF demo_governance_reach] by (simp_all add: gov_inv_def case_prod_unfold)
  have small: "float_of_u64 3 = 3" "float_of_u64 5 = 5" "float_of_u64 10 = 10"
    by (simp_all add: float_of_u64_small rat_of_word_def)
  have cmp: "\<not> float_div 5 10 < f32 (2 / 5)" "f32 (1 / 2) < float_div 3 5" by code_simp+
  have "fst (tally ?g p 10)" using cmp by (simp add: tally_def thr p small Let_def)
  then have acc: "fst (tally_and_execute 1 105 10 ?g)"
    using p by (simp add: tally_and_execute_def get_proposal_def case_prod_unfold)
  then obtain g' where "tally_and_execute 1 105 10 ?g = (True, g')" by (metis prod.collapse)
  with passed_proposal_has_majority [of ?g "snd demo_governance" 1 p 105 10 g'] demo_governance_reach p acc
  show ?thesis by simp
qed

end
