(* ===== verification/Codec.thy ===== *)
theory Codec
  imports Mermai_Prelude
begin

text \<open>
  The byte-level writers and readers of the anonymous namespace of
  \<^verbatim>\<open>src/src/core/mermai_blockchain.cpp\<close>: a writer appends to an output string, a reader
  takes the whole input and an offset and returns the value with the advanced offset, or
  throws. The locale \<open>codec\<close> is the interface of such a pair: what was written is read
  back (\<open>dec_enc\<close>), and whatever is read is the unique encoding of the value that was
  returned (\<open>dec_canonical\<close>). Loops over counted sequences are proved once inside it.
\<close>

type_synonym 'a reader = "string \<Rightarrow> nat \<Rightarrow> ('a \<times> nat) result"

lemma drop_eq_append_len:
  assumes "drop off d = u @ r" and "off \<le> length d"
  shows "off + length u \<le> length d"
proof -
  have "length d - off = length u + length r"
    by (simp only: assms(1) length_append flip: length_drop)
  with assms(2) show ?thesis by linarith
qed

lemma drop_eq_append_drop:
  assumes "drop off d = u @ r"
  shows "drop (off + length u) d = r"
proof -
  have "drop (off + length u) d = drop (length u) (drop off d)"
    by (simp only: drop_drop add.commute)
  then show ?thesis by (simp add: assms)
qed

lemma drop_split: "drop off d = take n (drop off d) @ drop (off + n) d"
  by (metis append_take_drop_id drop_drop add.commute)

section \<open>The interface of a writer and its reader\<close>

locale codec =
  fixes enc :: "'a \<Rightarrow> string"
    and dec :: "'a reader"
    and ok :: "'a \<Rightarrow> bool"
  assumes dec_enc:
      "ok x \<Longrightarrow> off \<le> length d \<Longrightarrow> drop off d = enc x @ r \<Longrightarrow>
         dec d off = Inr (x, off + length (enc x))"
    and dec_canonical:
      "off \<le> length d \<Longrightarrow> dec d off = Inr (x, off') \<Longrightarrow>
         ok x \<and> off' \<le> length d \<and> drop off d = enc x @ drop off' d"
begin

lemma dec_advances:
  assumes "off \<le> length d" and "dec d off = Inr (x, off')"
  shows "off' = off + length (enc x)"
proof -
  from dec_canonical [OF assms] have "length (drop off d) = length (enc x @ drop off' d)"
    and "off' \<le> length d" by auto
  with assms(1) show ?thesis by simp
qed

end

text \<open>The counted loop \<^verbatim>\<open>for (uint32_t index = 0; index < count; ++index)\<close> over a reader.\<close>

fun read_repeat :: "nat \<Rightarrow> 'a reader \<Rightarrow> 'a list reader" where
  "read_repeat 0 rd d off = Inr ([], off)"
| "read_repeat (Suc n) rd d off =
     rbind (rd d off) (\<lambda>(x, off1).
     rbind (read_repeat n rd d off1) (\<lambda>(xs, off2). Inr (x # xs, off2)))"

context codec
begin

lemma repeat_enc:
  "list_all ok xs \<Longrightarrow> off \<le> length d \<Longrightarrow> drop off d = concat (map enc xs) @ r \<Longrightarrow>
     read_repeat (length xs) dec d off = Inr (xs, off + length (concat (map enc xs)))"
proof (induction xs arbitrary: off)
  case Nil
  then show ?case by simp
next
  case (Cons x xs)
  from Cons.prems have d: "drop off d = enc x @ (concat (map enc xs) @ r)" by simp
  note len = drop_eq_append_len [OF d Cons.prems(2)] and rest = drop_eq_append_drop [OF d]
  from dec_enc [OF _ Cons.prems(2) d] Cons.prems(1) Cons.IH [OF _ len rest]
  show ?case by simp
qed

lemma repeat_canonical:
  "off \<le> length d \<Longrightarrow> read_repeat n dec d off = Inr (xs, off') \<Longrightarrow>
     list_all ok xs \<and> length xs = n \<and> off' \<le> length d \<and>
     drop off d = concat (map enc xs) @ drop off' d"
proof (induction n arbitrary: off xs)
  case 0
  then show ?case by simp
next
  case (Suc n)
  from Suc.prems(2) obtain x off1 ys where
      hd: "dec d off = Inr (x, off1)" and tl: "read_repeat n dec d off1 = Inr (ys, off')"
    and xs: "xs = x # ys"
    by (auto elim!: rbind_InrE)
  from dec_canonical [OF Suc.prems(1) hd] have "ok x" and "off1 \<le> length d"
    and "drop off d = enc x @ drop off1 d" by auto
  with Suc.IH [OF \<open>off1 \<le> length d\<close> tl] show ?case by (simp add: xs)
qed

end

text \<open>
  Sequencing: a reader of one value, then a reader of a second value that may depend on
  the first. The composition of two codecs is a codec; the fields of a struct are read
  this way.
\<close>

definition read_pair :: "'a reader \<Rightarrow> 'b reader \<Rightarrow> ('a \<times> 'b) reader" where
  "read_pair ra rb d off =
     rbind (ra d off) (\<lambda>(x, off1). rbind (rb d off1) (\<lambda>(y, off2). Inr ((x, y), off2)))"

lemma codec_pair:
  assumes "codec ea da oa" and "codec eb db ob"
  shows "codec (\<lambda>(x, y). ea x @ eb y) (read_pair da db) (\<lambda>(x, y). oa x \<and> ob y)"
proof
  fix p off d r
  assume ok: "case p of (x, y) \<Rightarrow> oa x \<and> ob y" and off: "off \<le> length d"
    and d: "drop off d = (case p of (x, y) \<Rightarrow> ea x @ eb y) @ r"
  obtain x y where p: "p = (x, y)" by (cases p)
  from d p have d1: "drop off d = ea x @ (eb y @ r)" by simp
  note len = drop_eq_append_len [OF d1 off] and d2 = drop_eq_append_drop [OF d1]
  from codec.dec_enc [OF assms(1) _ off d1] codec.dec_enc [OF assms(2) _ len d2] ok p
  show "read_pair da db d off = Inr (p, off + length (case p of (x, y) \<Rightarrow> ea x @ eb y))"
    by (simp add: read_pair_def)
next
  fix off d p off'
  assume off: "off \<le> length d" and rd: "read_pair da db d off = Inr (p, off')"
  then obtain x off1 y where p: "p = (x, y)"
    and a: "da d off = Inr (x, off1)" and b: "db d off1 = Inr (y, off')"
    by (auto simp: read_pair_def elim!: rbind_InrE)
  from codec.dec_canonical [OF assms(1) off a] codec.dec_canonical [OF assms(2) _ b] p
  show "(case p of (x, y) \<Rightarrow> oa x \<and> ob y) \<and> off' \<le> length d \<and>
      drop off d = (case p of (x, y) \<Rightarrow> ea x @ eb y) @ drop off' d"
    by simp
qed

text \<open>Reading a tuple of fields and building a record from it with a bijection.\<close>

lemma codec_iso:
  assumes c: "codec e da oa" and fg: "\<And>x. oa x \<Longrightarrow> g (f x) = x" and gf: "\<And>y. f (g y) = y"
  shows "codec (\<lambda>y. e (g y)) (\<lambda>d off. rbind (da d off) (\<lambda>(x, off'). Inr (f x, off')))
    (\<lambda>y. oa (g y))"
proof
  fix y off d r
  assume "oa (g y)" and "off \<le> length d" and "drop off d = e (g y) @ r"
  with codec.dec_enc [OF c, of "g y" off d r]
  show "rbind (da d off) (\<lambda>(x, off'). Inr (f x, off')) = Inr (y, off + length (e (g y)))"
    by (simp add: gf)
next
  fix off d y off'
  assume "off \<le> length d" and "rbind (da d off) (\<lambda>(x, off'). Inr (f x, off')) = Inr (y, off')"
  then obtain x where "da d off = Inr (x, off')" and "y = f x"
    by (auto elim!: rbind_InrE)
  with codec.dec_canonical [OF c \<open>off \<le> length d\<close>] fg
  show "oa (g y) \<and> off' \<le> length d \<and> drop off d = e (g y) @ drop off' d" by auto
qed

section \<open>Integers\<close>

definition write_value :: "'a::len word \<Rightarrow> string" where
  "write_value value =
     (let n = LENGTH('a) div 8
      in map (\<lambda>index. char_of_byte (be_byte n value index)) [0..<n])"

definition read_value :: "'a::len word reader" where
  "read_value input offset =
     (let n = LENGTH('a) div 8
      in if offset + n > length input then Inl (Runtime_error ''Unexpected end of payload'')
         else Inr (foldl (\<lambda>value c. be_step value (byte_of_char c)) 0 (take n (drop offset input)),
                   offset + n))"

lemma length_write_value [simp]: "length (write_value (v :: 'a::len word)) = LENGTH('a) div 8"
  by (simp add: write_value_def Let_def)

lemma foldl_byte_of_char:
  "foldl (\<lambda>value c. be_step value (byte_of_char c)) v cs = foldl be_step v (bytes_of_chars cs)"
  by (induction cs arbitrary: v) auto

lemma write_value_map:
  "write_value (v :: 'a::len word) =
     chars_of_bytes (map (be_byte (LENGTH('a) div 8) v) [0..<LENGTH('a) div 8])"
  by (simp add: write_value_def Let_def)

lemma codec_value:
  assumes "8 dvd LENGTH('a)"
  shows "codec (write_value :: 'a::len word \<Rightarrow> string) read_value (\<lambda>_. True)"
proof
  let ?n = "LENGTH('a) div 8"
  from assms have n8: "?n * 8 = LENGTH('a)" by simp
  {
    fix x :: "'a word" and off d r
    assume off: "off \<le> length d" and d: "drop off d = write_value x @ r"
    have len: "\<not> off + ?n > length d"
      using drop_eq_append_len [OF d off] by simp
    have "take ?n (drop off d) = write_value x" by (simp add: d)
    then have "bytes_of_chars (take ?n (drop off d)) = map (be_byte ?n x) [0..<?n]"
      by (simp add: write_value_map)
    with foldl_be_bytes [OF order_refl n8, of x] len
    show "read_value d off = Inr (x, off + length (write_value x))"
      by (simp add: read_value_def Let_def foldl_byte_of_char)
  next
    fix off d and x :: "'a word" and off'
    assume "off \<le> length d" and "read_value d off = Inr (x, off')"
    then have off': "off' = off + ?n" "off + ?n \<le> length d"
      and x: "x = foldl be_step 0 (bytes_of_chars (take ?n (drop off d)))"
      by (auto simp: read_value_def Let_def foldl_byte_of_char split: if_splits)
    have "length (bytes_of_chars (take ?n (drop off d))) = ?n" using off' by simp
    from be_bytes_foldl [OF this n8] x off'
    have "write_value x = take ?n (drop off d)" by (simp add: write_value_map)
    then show "True \<and> off' \<le> length d \<and> drop off d = write_value x @ drop off' d"
      using off' drop_split [of off d ?n] by simp
  }
qed

interpretation u32_codec: codec "write_value :: u32 \<Rightarrow> string" read_value "\<lambda>_. True"
  by (rule codec_value) simp

interpretation u64_codec: codec "write_value :: u64 \<Rightarrow> string" read_value "\<lambda>_. True"
  by (rule codec_value) simp

section \<open>Length-prefixed strings and byte vectors\<close>

definition MAX_SERIALIZED_STRING :: nat where "MAX_SERIALIZED_STRING = 64 * 1024"
definition MAX_SERIALIZED_BYTES :: nat where "MAX_SERIALIZED_BYTES = 16 * 1024"

definition write_string :: "string \<Rightarrow> string" where
  "write_string t = write_value (of_nat (length t) :: u32) @ t"

definition read_string :: "string reader" where
  "read_string input offset =
     rbind (read_value input offset) (\<lambda>(size :: u32, offset).
       if unat size > MAX_SERIALIZED_STRING \<or> offset + unat size > length input
       then Inl (Runtime_error ''Invalid string payload size'')
       else Inr (take (unat size) (drop offset input), offset + unat size))"

definition write_bytes :: "bytes \<Rightarrow> string" where
  "write_bytes b = write_value (of_nat (length b) :: u32) @ chars_of_bytes b"

definition read_bytes :: "bytes reader" where
  "read_bytes input offset =
     rbind (read_value input offset) (\<lambda>(size :: u32, offset).
       if unat size > MAX_SERIALIZED_BYTES \<or> offset + unat size > length input
       then Inl (Runtime_error ''Invalid byte payload size'')
       else Inr (bytes_of_chars (take (unat size) (drop offset input)), offset + unat size))"

definition string_ok :: "string \<Rightarrow> bool" where
  "string_ok s \<longleftrightarrow> length s \<le> MAX_SERIALIZED_STRING"

definition bytes_ok :: "bytes \<Rightarrow> bool" where
  "bytes_ok b \<longleftrightarrow> length b \<le> MAX_SERIALIZED_BYTES"

lemma unat_of_nat_u32: "n < 2 ^ 32 \<Longrightarrow> unat (of_nat n :: u32) = n"
  by (simp add: unat_of_nat take_bit_nat_eq_self)

lemma length_write_string [simp]: "length (write_string s) = 4 + length s"
  by (simp add: write_string_def)

lemma length_write_bytes [simp]: "length (write_bytes b) = 4 + length b"
  by (simp add: write_bytes_def)

lemma read_string_InrE:
  assumes "read_string d off = Inr (x, off')"
  obtains size :: u32 and o1 where "read_value d off = Inr (size, o1)"
    and "unat size \<le> MAX_SERIALIZED_STRING" and "o1 + unat size \<le> length d"
    and "x = take (unat size) (drop o1 d)" and "off' = o1 + unat size"
proof -
  from assms obtain p where p: "read_value d off = Inr p"
    and rest: "(\<lambda>(size :: u32, offset).
      if unat size > MAX_SERIALIZED_STRING \<or> offset + unat size > length d
      then Inl (Runtime_error ''Invalid string payload size'')
      else Inr (take (unat size) (drop offset d), offset + unat size)) p = Inr (x, off')"
    unfolding read_string_def by (rule rbind_InrE)
  obtain size o1 where "p = (size, o1)" by (cases p)
  with p rest show ?thesis by (intro that [of size o1]) (auto split: if_splits)
qed

interpretation string_codec: codec write_string read_string string_ok
proof
  fix x off d r
  assume ok: "string_ok x" and off: "off \<le> length d" and d: "drop off d = write_string x @ r"
  from ok have n: "unat (of_nat (length x) :: u32) = length x"
    by (intro unat_of_nat_u32) (simp add: string_ok_def MAX_SERIALIZED_STRING_def)
  from d have d1: "drop off d = write_value (of_nat (length x) :: u32) @ (x @ r)"
    by (simp add: write_string_def)
  have d2: "drop (off + 4) d = x @ r"
    using drop_eq_append_drop [OF d1] by simp
  have len: "off + 4 + length x \<le> length d"
    using drop_eq_append_len [OF d off] by simp
  from u32_codec.dec_enc [OF TrueI off d1] d2 n len ok
  show "read_string d off = Inr (x, off + length (write_string x))"
    by (simp add: read_string_def string_ok_def)
next
  fix off d x off'
  assume off: "off \<le> length d" and rd: "read_string d off = Inr (x, off')"
  from rd obtain size :: u32 and o1 where v: "read_value d off = Inr (size, o1)"
    and sz: "unat size \<le> MAX_SERIALIZED_STRING" "o1 + unat size \<le> length d"
    and x: "x = take (unat size) (drop o1 d)" and off': "off' = o1 + unat size"
    by (rule read_string_InrE)
  from u32_codec.dec_canonical [OF off v] have d1: "drop off d = write_value size @ drop o1 d"
    by simp
  from x sz(2) have lx: "length x = unat size" by simp
  then have "(of_nat (length x) :: u32) = size" by simp
  then have "write_string x = write_value size @ x" by (simp add: write_string_def)
  moreover have "drop o1 d = x @ drop off' d"
    using drop_split [of o1 d "unat size"] by (simp add: x off')
  ultimately show "string_ok x \<and> off' \<le> length d \<and> drop off d = write_string x @ drop off' d"
    using d1 sz off' lx by (simp add: string_ok_def)
qed

lemma read_bytes_InrE:
  assumes "read_bytes d off = Inr (x, off')"
  obtains size :: u32 and o1 where "read_value d off = Inr (size, o1)"
    and "unat size \<le> MAX_SERIALIZED_BYTES" and "o1 + unat size \<le> length d"
    and "x = bytes_of_chars (take (unat size) (drop o1 d))" and "off' = o1 + unat size"
proof -
  from assms obtain p where p: "read_value d off = Inr p"
    and rest: "(\<lambda>(size :: u32, offset).
      if unat size > MAX_SERIALIZED_BYTES \<or> offset + unat size > length d
      then Inl (Runtime_error ''Invalid byte payload size'')
      else Inr (bytes_of_chars (take (unat size) (drop offset d)), offset + unat size)) p = Inr (x, off')"
    unfolding read_bytes_def by (rule rbind_InrE)
  obtain size o1 where "p = (size, o1)" by (cases p)
  with p rest show ?thesis by (intro that [of size o1]) (auto split: if_splits)
qed

interpretation bytes_codec: codec write_bytes read_bytes bytes_ok
proof
  fix x off d r
  assume ok: "bytes_ok x" and off: "off \<le> length d" and d: "drop off d = write_bytes x @ r"
  from ok have n: "unat (of_nat (length x) :: u32) = length x"
    by (intro unat_of_nat_u32) (simp add: bytes_ok_def MAX_SERIALIZED_BYTES_def)
  from d have d1: "drop off d = write_value (of_nat (length x) :: u32) @ (chars_of_bytes x @ r)"
    by (simp add: write_bytes_def)
  have d2: "drop (off + 4) d = chars_of_bytes x @ r"
    using drop_eq_append_drop [OF d1] by simp
  have len: "off + 4 + length x \<le> length d"
    using drop_eq_append_len [OF d off] by simp
  from u32_codec.dec_enc [OF TrueI off d1] d2 n len ok
  show "read_bytes d off = Inr (x, off + length (write_bytes x))"
    by (simp add: read_bytes_def bytes_ok_def)
next
  fix off d x off'
  assume off: "off \<le> length d" and rd: "read_bytes d off = Inr (x, off')"
  from rd obtain size :: u32 and o1 where v: "read_value d off = Inr (size, o1)"
    and sz: "unat size \<le> MAX_SERIALIZED_BYTES" "o1 + unat size \<le> length d"
    and x: "x = bytes_of_chars (take (unat size) (drop o1 d))" and off': "off' = o1 + unat size"
    by (rule read_bytes_InrE)
  from u32_codec.dec_canonical [OF off v] have d1: "drop off d = write_value size @ drop o1 d"
    by simp
  from x sz(2) have lx: "length x = unat size" by simp
  then have "(of_nat (length x) :: u32) = size" by simp
  then have "write_bytes x = write_value size @ chars_of_bytes x" by (simp add: write_bytes_def)
  moreover have "drop o1 d = chars_of_bytes x @ drop off' d"
    using drop_split [of o1 d "unat size"] by (simp add: x off')
  ultimately show "bytes_ok x \<and> off' \<le> length d \<and> drop off d = write_bytes x @ drop off' d"
    using d1 sz off' lx by (simp add: bytes_ok_def)
qed

end
