(* ===== verification/OpenSSL.thy ===== *)
theory OpenSSL
  imports Mermai_Prelude
begin

text \<open>
  OpenSSL is not part of the repository: its entry points are a parameter of the model,
  one field per documented operation the sources call, with \<open>'k\<close> standing for
  \<^verbatim>\<open>EVP_PKEY\<close>. \<open>d2i_PUBKEY\<close> returns the key with the number of input bytes it
  consumed (the sources compare the advanced pointer with the end of the buffer);
  \<open>i2d_PUBKEY\<close> returns the DER form, empty for a failure; \<open>DigestVerify\<close> is the
  init/update/final sequence with SHA-256, false when any call fails or the context cannot be
  allocated; \<open>DigestSignSize\<close> is the init/update/size-query sequence and
  \<open>DigestSignFinal\<close> the last call that writes the signature.
\<close>

record 'k openssl =
  SHA256 :: "bytes \<Rightarrow> bytes"
  d2i_PUBKEY :: "bytes \<Rightarrow> ('k \<times> nat) option"
  i2d_PUBKEY :: "'k \<Rightarrow> bytes"
  DigestVerify :: "'k \<Rightarrow> string \<Rightarrow> bytes \<Rightarrow> bool"
  DigestSignSize :: "'k \<Rightarrow> string \<Rightarrow> nat option"
  DigestSignFinal :: "'k \<Rightarrow> string \<Rightarrow> bytes option"

text \<open>
  What the documentation of OpenSSL promises of a key pair that was generated by it and whose
  public half was exported: the exported form is read back completely, signing succeeds with a
  non-empty signature, and verification accepts it.
\<close>

definition sound_key :: "'k openssl \<Rightarrow> 'k \<Rightarrow> bool" where
  "sound_key ossl k \<longleftrightarrow>
     i2d_PUBKEY ossl k \<noteq> [] \<and>
     (\<exists>pub. d2i_PUBKEY ossl (i2d_PUBKEY ossl k) = Some (pub, length (i2d_PUBKEY ossl k)) \<and>
       (\<forall>m. \<exists>n s. DigestSignSize ossl k m = Some n \<and> 0 < n \<and>
          DigestSignFinal ossl k m = Some s \<and> s \<noteq> [] \<and> DigestVerify ossl pub m s))"

text \<open>
  A collision among given inputs: two different ones with the same digest. (Digests have a fixed
  length, so collisions exist; the statements below say which byte strings would have to collide.)
\<close>

definition sha_clash :: "'k openssl \<Rightarrow> bytes set \<Rightarrow> bool" where
  "sha_clash ossl S \<longleftrightarrow> (\<exists>x \<in> S. \<exists>y \<in> S. x \<noteq> y \<and> SHA256 ossl x = SHA256 ossl y)"

lemma sha_clashI: "SHA256 ossl x = SHA256 ossl y \<Longrightarrow> x \<noteq> y \<Longrightarrow> x \<in> S \<Longrightarrow> y \<in> S \<Longrightarrow> sha_clash ossl S"
  by (auto simp: sha_clash_def)

text \<open>The digest length every caller relies on (\<^verbatim>\<open>SHA256_DIGEST_LENGTH\<close>).\<close>

definition sha_length :: "'k openssl \<Rightarrow> bool" where
  "sha_length ossl \<longleftrightarrow> (\<forall>x. length (SHA256 ossl x) = 32)"

text \<open>The hexadecimal digest of a string, the form in which hashes travel through the node.\<close>

definition sha256_hex :: "'k openssl \<Rightarrow> bytes \<Rightarrow> string" where
  "sha256_hex ossl bs = hex_encode (SHA256 ossl bs)"

lemma sha256_hex_eq_iff [simp]:
  "sha256_hex ossl x = sha256_hex ossl y \<longleftrightarrow> SHA256 ossl x = SHA256 ossl y"
  by (simp add: sha256_hex_def)

text \<open>
  The signing sequence shared by transactions, votes and blocks: on success the buffer is
  resized to the reported length and then holds the signature; a failing last call leaves the
  zero-filled buffer behind.
\<close>

definition sign_payload :: "'k openssl \<Rightarrow> 'k \<Rightarrow> string \<Rightarrow> bool \<times> bytes" where
  "sign_payload ossl k payload =
     (case DigestSignSize ossl k payload of
        None \<Rightarrow> (False, [])
      | Some n \<Rightarrow>
          if n > 0
          then (case DigestSignFinal ossl k payload of
                  Some s \<Rightarrow> (True, s)
                | None \<Rightarrow> (False, replicate n 0))
          else (True, []))"

definition exported_key :: "'k openssl \<Rightarrow> 'k \<Rightarrow> bytes \<Rightarrow> bytes" where
  "exported_key ossl k current =
     (if current = [] then
        (if i2d_PUBKEY ossl k \<noteq> [] then i2d_PUBKEY ossl k else current)
      else current)"

lemma sign_payload_sound:
  assumes "sound_key ossl k"
  obtains s pub where "sign_payload ossl k m = (True, s)" and "s \<noteq> []"
    and "d2i_PUBKEY ossl (i2d_PUBKEY ossl k) = Some (pub, length (i2d_PUBKEY ossl k))"
    and "DigestVerify ossl pub m s"
proof -
  from assms obtain pub where pub:
      "d2i_PUBKEY ossl (i2d_PUBKEY ossl k) = Some (pub, length (i2d_PUBKEY ossl k))"
    and all: "\<forall>m. \<exists>n s. DigestSignSize ossl k m = Some n \<and> 0 < n \<and>
      DigestSignFinal ossl k m = Some s \<and> s \<noteq> [] \<and> DigestVerify ossl pub m s"
    by (auto simp: sound_key_def)
  from all obtain n s where "DigestSignSize ossl k m = Some n" and "0 < n"
    and "DigestSignFinal ossl k m = Some s" and "s \<noteq> []" and "DigestVerify ossl pub m s"
    by blast
  with pub that [of s pub] show ?thesis by (simp add: sign_payload_def)
qed

text \<open>
  A concrete instance of the parameter on which closed examples evaluate: a key is one byte,
  its DER form is that byte, a signature is the key followed by the payload, and the digest
  keeps the length and the first 31 bytes of its input.
\<close>

definition toy_ossl :: "byte openssl" where
  "toy_ossl =
     \<lparr>SHA256 = (\<lambda>x. of_nat (length x) # take 31 (x @ replicate 31 0)),
      d2i_PUBKEY = (\<lambda>bs. case bs of [] \<Rightarrow> None | b # _ \<Rightarrow> Some (b, 1)),
      i2d_PUBKEY = (\<lambda>k. [k]),
      DigestVerify = (\<lambda>k m s. s = k # bytes_of_chars m),
      DigestSignSize = (\<lambda>k m. Some (Suc (length m))),
      DigestSignFinal = (\<lambda>k m. Some (k # bytes_of_chars m))\<rparr>"

lemma toy_sound_key [simp]: "sound_key toy_ossl k"
  by (simp add: sound_key_def toy_ossl_def)

lemma toy_sha_length [simp]: "sha_length toy_ossl"
  by (auto simp: sha_length_def toy_ossl_def min_def)

lemma toy_i2d [simp]: "i2d_PUBKEY toy_ossl k = [k]"
  by (simp add: toy_ossl_def)

end
