(* ===== verification/Mermai_Data.thy ===== *)
theory Mermai_Data
  imports Codec OpenSSL
begin

text \<open>
  Transactions, votes and blocks (\<^verbatim>\<open>src/include/mermai/mermai_blockchain.hpp\<close>) with their
  wire format, hashing, signing and stand-alone validation
  (\<^verbatim>\<open>src/src/core/mermai_blockchain.cpp\<close>). Each struct is a record; \<^verbatim>\<open>serialize\<close> and
  \<^verbatim>\<open>deserialize\<close> follow the source field by field; every reader is an instance of the
  locale \<open>codec\<close>, from which the round trips and the uniqueness of encodings follow.
\<close>

section \<open>Structures\<close>

record mermai_tx_input =
  prev_tx_hash :: string
  prev_output_idx :: u32
  in_signature :: bytes
  in_public_key :: bytes

record mermai_tx_output =
  out_address :: string
  out_amount :: u64

record mermai_transaction =
  tx_id :: string
  inputs :: "mermai_tx_input list"
  outputs :: "mermai_tx_output list"
  fee :: u64
  tx_timestamp :: u64

record mermai_block_vote =
  vote_validator_address :: string
  vote_block_hash :: string
  vote_block_height :: u32
  vote_timestamp :: u64
  vote_public_key :: bytes
  vote_signature :: bytes

record mermai_block =
  version :: u32
  height :: u32
  prev_block_hash :: string
  merkle_root :: string
  blk_timestamp :: u64
  nonce :: u32
  validator_address :: string
  validator_stake :: u64
  validator_age :: u64
  validator_public_key :: bytes
  validator_signature :: bytes
  transactions :: "mermai_transaction list"

definition default_transaction :: mermai_transaction where
  "default_transaction =
     \<lparr>tx_id = [], inputs = [], outputs = [], fee = 0, tx_timestamp = 0\<rparr>"

definition new_block :: "u64 \<Rightarrow> u32 \<Rightarrow> mermai_block" where
  "new_block now block_height =
     \<lparr>version = 1, height = block_height, prev_block_hash = [], merkle_root = [],
      blk_timestamp = now, nonce = 0, validator_address = [], validator_stake = 0,
      validator_age = 0, validator_public_key = [], validator_signature = [],
      transactions = []\<rparr>"

definition MAX_TRANSACTION_INPUTS :: nat where "MAX_TRANSACTION_INPUTS = 1000"
definition MAX_TRANSACTION_OUTPUTS :: nat where "MAX_TRANSACTION_OUTPUTS = 1000"
definition MAX_BLOCK_TRANSACTIONS :: nat where "MAX_BLOCK_TRANSACTIONS = 10000"

lemmas serial_limits =
  MAX_SERIALIZED_STRING_def MAX_SERIALIZED_BYTES_def MAX_TRANSACTION_INPUTS_def
  MAX_TRANSACTION_OUTPUTS_def MAX_BLOCK_TRANSACTIONS_def

section \<open>Counted sequences\<close>

definition write_counted :: "('a \<Rightarrow> string) \<Rightarrow> 'a list \<Rightarrow> string" where
  "write_counted enc xs = write_value (of_nat (length xs) :: u32) @ concat (map enc xs)"

definition read_counted :: "nat \<Rightarrow> string \<Rightarrow> 'a reader \<Rightarrow> 'a list reader" where
  "read_counted limit msg rd d off =
     rbind (read_value d off) (\<lambda>(count :: u32, off).
       if unat count > limit then Inl (Runtime_error msg)
       else read_repeat (unat count) rd d off)"

lemma codec_counted:
  assumes c: "codec enc dec ok" and limit: "limit < 2 ^ 32"
  shows "codec (write_counted enc) (read_counted limit msg dec)
    (\<lambda>xs. length xs \<le> limit \<and> list_all ok xs)"
proof
  fix xs off d r
  assume ok: "length xs \<le> limit \<and> list_all ok xs" and off: "off \<le> length d"
    and d: "drop off d = write_counted enc xs @ r"
  from ok limit have n: "unat (of_nat (length xs) :: u32) = length xs"
    by (intro unat_of_nat_u32) simp
  from d have d1: "drop off d = write_value (of_nat (length xs) :: u32) @ (concat (map enc xs) @ r)"
    by (simp add: write_counted_def)
  note len = drop_eq_append_len [OF d1 off] and d2 = drop_eq_append_drop [OF d1]
  from u32_codec.dec_enc [OF TrueI off d1] codec.repeat_enc [OF c _ len d2] ok n
  show "read_counted limit msg dec d off = Inr (xs, off + length (write_counted enc xs))"
    by (simp add: read_counted_def write_counted_def)
next
  fix off d xs off'
  assume off: "off \<le> length d" and rd: "read_counted limit msg dec d off = Inr (xs, off')"
  from rd obtain p where p: "read_value d off = Inr p"
    and rest: "(\<lambda>(count :: u32, off). if unat count > limit then Inl (Runtime_error msg)
       else read_repeat (unat count) dec d off) p = Inr (xs, off')"
    unfolding read_counted_def by (rule rbind_InrE)
  obtain n o1 where pn: "p = (n, o1)" by (cases p)
  with rest have le: "unat n \<le> limit" and rr: "read_repeat (unat n) dec d o1 = Inr (xs, off')"
    by (auto split: if_splits)
  from u32_codec.dec_canonical [OF off] p pn
  have o1: "o1 \<le> length d" and d1: "drop off d = write_value n @ drop o1 d" by auto
  from codec.repeat_canonical [OF c o1 rr] have xs: "list_all ok xs" "length xs = unat n"
      "off' \<le> length d" "drop o1 d = concat (map enc xs) @ drop off' d" by auto
  then show "(length xs \<le> limit \<and> list_all ok xs) \<and> off' \<le> length d \<and>
      drop off d = write_counted enc xs @ drop off' d"
    using le d1 by (simp add: write_counted_def)
qed

section \<open>Transactions on the wire\<close>

definition write_tx_input :: "mermai_tx_input \<Rightarrow> string" where
  "write_tx_input i =
     write_string (prev_tx_hash i) @ write_value (prev_output_idx i) @
     write_bytes (in_signature i) @ write_bytes (in_public_key i)"

definition read_tx_input :: "mermai_tx_input reader" where
  "read_tx_input data off =
     rbind (read_string data off) (\<lambda>(h, off).
     rbind (read_value data off) (\<lambda>(idx, off).
     rbind (read_bytes data off) (\<lambda>(sg, off).
     rbind (read_bytes data off) (\<lambda>(pk, off).
       Inr (\<lparr>prev_tx_hash = h, prev_output_idx = idx, in_signature = sg, in_public_key = pk\<rparr>,
            off)))))"

definition write_tx_output :: "mermai_tx_output \<Rightarrow> string" where
  "write_tx_output out = write_string (out_address out) @ write_value (out_amount out)"

definition read_tx_output :: "mermai_tx_output reader" where
  "read_tx_output data off =
     rbind (read_string data off) (\<lambda>(a, off).
     rbind (read_value data off) (\<lambda>(v, off).
       Inr (\<lparr>out_address = a, out_amount = v\<rparr>, off)))"

definition serialize_tx :: "mermai_transaction \<Rightarrow> string" where
  "serialize_tx tx =
     write_string (tx_id tx) @ write_value (fee tx) @ write_value (tx_timestamp tx) @
     write_counted write_tx_input (inputs tx) @ write_counted write_tx_output (outputs tx)"

definition read_tx :: "mermai_transaction reader" where
  "read_tx data off =
     rbind (read_string data off) (\<lambda>(i, off).
     rbind (read_value data off) (\<lambda>(f, off).
     rbind (read_value data off) (\<lambda>(t, off).
     rbind (read_counted MAX_TRANSACTION_INPUTS ''Too many transaction inputs''
              read_tx_input data off) (\<lambda>(ins, off).
     rbind (read_counted MAX_TRANSACTION_OUTPUTS ''Too many transaction outputs''
              read_tx_output data off) (\<lambda>(outs, off).
       Inr (\<lparr>tx_id = i, inputs = ins, outputs = outs, fee = f, tx_timestamp = t\<rparr>, off))))))"

definition deserialize_tx :: "string \<Rightarrow> mermai_transaction result" where
  "deserialize_tx data =
     rbind (read_tx data 0) (\<lambda>(tx, off).
       if off \<noteq> length data then Inl (Runtime_error ''Trailing transaction data'') else Inr tx)"

definition tx_input_ok :: "mermai_tx_input \<Rightarrow> bool" where
  "tx_input_ok i \<longleftrightarrow>
     string_ok (prev_tx_hash i) \<and> bytes_ok (in_signature i) \<and> bytes_ok (in_public_key i)"

definition tx_output_ok :: "mermai_tx_output \<Rightarrow> bool" where
  "tx_output_ok out \<longleftrightarrow> string_ok (out_address out)"

definition tx_ok :: "mermai_transaction \<Rightarrow> bool" where
  "tx_ok tx \<longleftrightarrow>
     string_ok (tx_id tx) \<and>
     length (inputs tx) \<le> MAX_TRANSACTION_INPUTS \<and> list_all tx_input_ok (inputs tx) \<and>
     length (outputs tx) \<le> MAX_TRANSACTION_OUTPUTS \<and> list_all tx_output_ok (outputs tx)"

text \<open>
  Each struct reader is the reader of the tuple of its fields followed by the record
  constructor, so its codec laws come from those of its fields.
\<close>

lemma rbind_assoc: "rbind (rbind r f) g = rbind r (\<lambda>x. rbind (f x) g)"
  by (cases r) auto

lemma rbind_case_prod: "rbind (case p of (x, y) \<Rightarrow> f x y) g = (case p of (x, y) \<Rightarrow> rbind (f x y) g)"
  by (cases p) auto

lemmas reader_norm = read_pair_def rbind_assoc rbind_case_prod split_def

interpretation input_codec: codec write_tx_input read_tx_input tx_input_ok
proof -
  let ?g = "\<lambda>i. (prev_tx_hash i, prev_output_idx i, in_signature i, in_public_key i)"
  let ?f = "\<lambda>(h, x, s, k). \<lparr>prev_tx_hash = h, prev_output_idx = x, in_signature = s, in_public_key = k\<rparr>"
  note c = codec_iso [OF codec_pair [OF string_codec.codec_axioms
      codec_pair [OF u32_codec.codec_axioms
      codec_pair [OF bytes_codec.codec_axioms bytes_codec.codec_axioms]]], of ?g ?f]
  have "codec (\<lambda>i. (\<lambda>(x, y). write_string x @ (\<lambda>(x, y). write_value x @
      (\<lambda>(x, y). write_bytes x @ write_bytes y) y) y) (?g i)) read_tx_input tx_input_ok"
    using c by (auto simp: read_tx_input_def [abs_def] tx_input_ok_def [abs_def] reader_norm)
  then show "codec write_tx_input read_tx_input tx_input_ok"
    by (simp add: write_tx_input_def [abs_def])
qed

interpretation output_codec: codec write_tx_output read_tx_output tx_output_ok
proof -
  let ?g = "\<lambda>out. (out_address out, out_amount out)"
  let ?f = "\<lambda>(a, v). \<lparr>out_address = a, out_amount = v\<rparr>"
  note c = codec_iso [OF codec_pair [OF string_codec.codec_axioms u64_codec.codec_axioms],
      of ?g ?f]
  have "codec (\<lambda>out. (\<lambda>(x, y). write_string x @ write_value y) (?g out))
      read_tx_output tx_output_ok"
    using c by (auto simp: read_tx_output_def [abs_def] tx_output_ok_def [abs_def] reader_norm)
  then show "codec write_tx_output read_tx_output tx_output_ok"
    by (simp add: write_tx_output_def [abs_def])
qed

lemma inputs_codec:
  "codec (write_counted write_tx_input)
     (read_counted MAX_TRANSACTION_INPUTS msg read_tx_input)
     (\<lambda>xs. length xs \<le> MAX_TRANSACTION_INPUTS \<and> list_all tx_input_ok xs)"
  by (rule codec_counted [OF input_codec.codec_axioms]) (simp add: MAX_TRANSACTION_INPUTS_def)

lemma outputs_codec:
  "codec (write_counted write_tx_output)
     (read_counted MAX_TRANSACTION_OUTPUTS msg read_tx_output)
     (\<lambda>xs. length xs \<le> MAX_TRANSACTION_OUTPUTS \<and> list_all tx_output_ok xs)"
  by (rule codec_counted [OF output_codec.codec_axioms]) (simp add: MAX_TRANSACTION_OUTPUTS_def)

interpretation tx_codec: codec serialize_tx read_tx tx_ok
proof -
  let ?g = "\<lambda>tx. (tx_id tx, fee tx, tx_timestamp tx, inputs tx, outputs tx)"
  let ?f = "\<lambda>(i, f, t, ins, outs).
    \<lparr>tx_id = i, inputs = ins, outputs = outs, fee = f, tx_timestamp = t\<rparr>"
  note c = codec_iso [OF codec_pair [OF string_codec.codec_axioms
      codec_pair [OF u64_codec.codec_axioms codec_pair [OF u64_codec.codec_axioms
      codec_pair [OF inputs_codec [of "''Too many transaction inputs''"]
        outputs_codec [of "''Too many transaction outputs''"]]]]], of ?g ?f]
  have "codec (\<lambda>tx. (\<lambda>(x, y). write_string x @ (\<lambda>(x, y). write_value x @
      (\<lambda>(x, y). write_value x @ (\<lambda>(x, y). write_counted write_tx_input x @
      write_counted write_tx_output y) y) y) y) (?g tx)) read_tx tx_ok"
    using c by (auto simp: read_tx_def [abs_def] tx_ok_def [abs_def] reader_norm)
  then show "codec serialize_tx read_tx tx_ok"
    by (simp add: serialize_tx_def [abs_def])
qed

text \<open>
  A decoder that runs a reader from offset 0 and rejects trailing data inverts the encoder,
  and accepts nothing but encodings.
\<close>

definition decode_all :: "'a reader \<Rightarrow> string \<Rightarrow> string \<Rightarrow> 'a result" where
  "decode_all rd msg data =
     rbind (rd data 0) (\<lambda>(x, off).
       if off \<noteq> length data then Inl (Runtime_error msg) else Inr x)"

context codec
begin

lemma decode_all_enc: "ok x \<Longrightarrow> decode_all dec msg (enc x) = Inr x"
  using dec_enc [of x 0 "enc x" "[]"] by (simp add: decode_all_def)

lemma decode_all_canonical:
  assumes "decode_all dec msg data = Inr x"
  shows "ok x \<and> enc x = data"
proof -
  from assms have "dec data 0 = Inr (x, length data)"
    by (auto simp: decode_all_def elim!: rbind_InrE split: if_splits)
  from dec_canonical [OF _ this] show ?thesis by simp
qed

lemma decode_all_iff: "decode_all dec msg data = Inr x \<longleftrightarrow> ok x \<and> data = enc x"
  using decode_all_enc decode_all_canonical by blast

end

lemma deserialize_tx_eq:
  "deserialize_tx = decode_all read_tx ''Trailing transaction data''"
  by (simp add: deserialize_tx_def [abs_def] decode_all_def [abs_def])

lemma deserialize_tx_iff: "deserialize_tx data = Inr tx \<longleftrightarrow> tx_ok tx \<and> data = serialize_tx tx"
  by (simp add: deserialize_tx_eq tx_codec.decode_all_iff)

section \<open>Votes on the wire\<close>

definition serialize_vote :: "mermai_block_vote \<Rightarrow> string" where
  "serialize_vote v =
     write_string (vote_validator_address v) @ write_string (vote_block_hash v) @
     write_value (vote_block_height v) @ write_value (vote_timestamp v) @
     write_bytes (vote_public_key v) @ write_bytes (vote_signature v)"

definition read_vote :: "mermai_block_vote reader" where
  "read_vote data off =
     rbind (read_string data off) (\<lambda>(a, off).
     rbind (read_string data off) (\<lambda>(h, off).
     rbind (read_value data off) (\<lambda>(n, off).
     rbind (read_value data off) (\<lambda>(t, off).
     rbind (read_bytes data off) (\<lambda>(pk, off).
     rbind (read_bytes data off) (\<lambda>(sg, off).
       Inr (\<lparr>vote_validator_address = a, vote_block_hash = h, vote_block_height = n,
             vote_timestamp = t, vote_public_key = pk, vote_signature = sg\<rparr>, off)))))))"

definition deserialize_vote :: "string \<Rightarrow> mermai_block_vote result" where
  "deserialize_vote data = rbind (read_vote data 0) (\<lambda>(v, off). Inr v)"

definition vote_ok :: "mermai_block_vote \<Rightarrow> bool" where
  "vote_ok v \<longleftrightarrow>
     string_ok (vote_validator_address v) \<and> string_ok (vote_block_hash v) \<and>
     bytes_ok (vote_public_key v) \<and> bytes_ok (vote_signature v)"

interpretation vote_codec: codec serialize_vote read_vote vote_ok
proof -
  let ?g = "\<lambda>v. (vote_validator_address v, vote_block_hash v, vote_block_height v,
    vote_timestamp v, vote_public_key v, vote_signature v)"
  let ?f = "\<lambda>(a, h, n, t, pk, sg).
    \<lparr>vote_validator_address = a, vote_block_hash = h, vote_block_height = n,
     vote_timestamp = t, vote_public_key = pk, vote_signature = sg\<rparr>"
  note c = codec_iso [OF codec_pair [OF string_codec.codec_axioms
      codec_pair [OF string_codec.codec_axioms codec_pair [OF u32_codec.codec_axioms
      codec_pair [OF u64_codec.codec_axioms
      codec_pair [OF bytes_codec.codec_axioms bytes_codec.codec_axioms]]]]], of ?g ?f]
  have "codec (\<lambda>v. (\<lambda>(x, y). write_string x @ (\<lambda>(x, y). write_string x @
      (\<lambda>(x, y). write_value x @ (\<lambda>(x, y). write_value x @
      (\<lambda>(x, y). write_bytes x @ write_bytes y) y) y) y) y) (?g v)) read_vote vote_ok"
    using c by (auto simp: read_vote_def [abs_def] vote_ok_def [abs_def] reader_norm)
  then show "codec serialize_vote read_vote vote_ok"
    by (simp add: serialize_vote_def [abs_def])
qed

section \<open>Blocks on the wire\<close>

text \<open>A transaction inside a block is the length-prefixed string of its serialisation.\<close>

definition write_embedded_tx :: "mermai_transaction \<Rightarrow> string" where
  "write_embedded_tx tx = write_string (serialize_tx tx)"

definition read_embedded_tx :: "mermai_transaction reader" where
  "read_embedded_tx data off =
     rbind (read_string data off) (\<lambda>(s, off).
     rbind (deserialize_tx s) (\<lambda>tx. Inr (tx, off)))"

definition serialize_block :: "mermai_block \<Rightarrow> string" where
  "serialize_block b =
     write_value (version b) @ write_value (height b) @
     write_string (prev_block_hash b) @ write_string (merkle_root b) @
     write_value (blk_timestamp b) @ write_value (nonce b) @
     write_string (validator_address b) @ write_value (validator_stake b) @
     write_value (validator_age b) @ write_bytes (validator_public_key b) @
     write_bytes (validator_signature b) @
     write_counted write_embedded_tx (transactions b)"

definition read_block :: "mermai_block reader" where
  "read_block data off =
     rbind (read_value data off) (\<lambda>(ver, off).
     rbind (read_value data off) (\<lambda>(h, off).
     rbind (read_string data off) (\<lambda>(prev, off).
     rbind (read_string data off) (\<lambda>(root, off).
     rbind (read_value data off) (\<lambda>(t, off).
     rbind (read_value data off) (\<lambda>(nc, off).
     rbind (read_string data off) (\<lambda>(va, off).
     rbind (read_value data off) (\<lambda>(vs, off).
     rbind (read_value data off) (\<lambda>(vage, off).
     rbind (read_bytes data off) (\<lambda>(pk, off).
     rbind (read_bytes data off) (\<lambda>(sg, off).
     rbind (read_counted MAX_BLOCK_TRANSACTIONS ''Too many block transactions''
              read_embedded_tx data off) (\<lambda>(txs, off).
       Inr (\<lparr>version = ver, height = h, prev_block_hash = prev, merkle_root = root,
             blk_timestamp = t, nonce = nc, validator_address = va, validator_stake = vs,
             validator_age = vage, validator_public_key = pk, validator_signature = sg,
             transactions = txs\<rparr>, off)))))))))))))"

definition deserialize_block :: "string \<Rightarrow> mermai_block result" where
  "deserialize_block data =
     rbind (read_block data 0) (\<lambda>(b, off).
       if off \<noteq> length data then Inl (Runtime_error ''Trailing block data'') else Inr b)"

definition embedded_tx_ok :: "mermai_transaction \<Rightarrow> bool" where
  "embedded_tx_ok tx \<longleftrightarrow> tx_ok tx \<and> length (serialize_tx tx) \<le> MAX_SERIALIZED_STRING"

definition block_ok :: "mermai_block \<Rightarrow> bool" where
  "block_ok b \<longleftrightarrow>
     string_ok (prev_block_hash b) \<and> string_ok (merkle_root b) \<and>
     string_ok (validator_address b) \<and> bytes_ok (validator_public_key b) \<and>
     bytes_ok (validator_signature b) \<and>
     length (transactions b) \<le> MAX_BLOCK_TRANSACTIONS \<and>
     list_all embedded_tx_ok (transactions b)"

interpretation embedded_codec: codec write_embedded_tx read_embedded_tx embedded_tx_ok
proof
  fix tx off d r
  assume ok: "embedded_tx_ok tx" and off: "off \<le> length d"
    and d: "drop off d = write_embedded_tx tx @ r"
  from ok have s: "string_ok (serialize_tx tx)" and "tx_ok tx"
    by (simp_all add: embedded_tx_ok_def string_ok_def)
  from string_codec.dec_enc [OF s off] d deserialize_tx_iff [of "serialize_tx tx" tx] \<open>tx_ok tx\<close>
  show "read_embedded_tx d off = Inr (tx, off + length (write_embedded_tx tx))"
    by (simp add: read_embedded_tx_def write_embedded_tx_def)
next
  fix off d tx off'
  assume off: "off \<le> length d" and rd: "read_embedded_tx d off = Inr (tx, off')"
  from rd obtain p where p: "read_string d off = Inr p"
    and rest: "(\<lambda>(s, off). rbind (deserialize_tx s) (\<lambda>tx. Inr (tx, off))) p = Inr (tx, off')"
    unfolding read_embedded_tx_def by (rule rbind_InrE)
  then obtain s where s: "read_string d off = Inr (s, off')" and tx: "deserialize_tx s = Inr tx"
    by (cases p) (auto elim!: rbind_InrE)
  from string_codec.dec_canonical [OF off s] tx
  show "embedded_tx_ok tx \<and> off' \<le> length d \<and> drop off d = write_embedded_tx tx @ drop off' d"
    by (simp add: deserialize_tx_iff embedded_tx_ok_def write_embedded_tx_def string_ok_def)
qed

lemma block_txs_codec:
  "codec (write_counted write_embedded_tx)
     (read_counted MAX_BLOCK_TRANSACTIONS msg read_embedded_tx)
     (\<lambda>xs. length xs \<le> MAX_BLOCK_TRANSACTIONS \<and> list_all embedded_tx_ok xs)"
  by (rule codec_counted [OF embedded_codec.codec_axioms]) (simp add: MAX_BLOCK_TRANSACTIONS_def)

interpretation block_codec: codec serialize_block read_block block_ok
proof -
  let ?g = "\<lambda>b. (version b, height b, prev_block_hash b, merkle_root b, blk_timestamp b,
    nonce b, validator_address b, validator_stake b, validator_age b, validator_public_key b,
    validator_signature b, transactions b)"
  let ?f = "\<lambda>(ver, h, prev, root, t, nc, va, vs, vage, pk, sg, txs).
    \<lparr>version = ver, height = h, prev_block_hash = prev, merkle_root = root,
     blk_timestamp = t, nonce = nc, validator_address = va, validator_stake = vs,
     validator_age = vage, validator_public_key = pk, validator_signature = sg,
     transactions = txs\<rparr>"
  note c = codec_iso [OF codec_pair [OF u32_codec.codec_axioms
      codec_pair [OF u32_codec.codec_axioms codec_pair [OF string_codec.codec_axioms
      codec_pair [OF string_codec.codec_axioms codec_pair [OF u64_codec.codec_axioms
      codec_pair [OF u32_codec.codec_axioms codec_pair [OF string_codec.codec_axioms
      codec_pair [OF u64_codec.codec_axioms codec_pair [OF u64_codec.codec_axioms
      codec_pair [OF bytes_codec.codec_axioms codec_pair [OF bytes_codec.codec_axioms
        block_txs_codec [of "''Too many block transactions''"]]]]]]]]]]]], of ?g ?f]
  have "codec (\<lambda>b. (\<lambda>(x, y). write_value x @ (\<lambda>(x, y). write_value x @
      (\<lambda>(x, y). write_string x @ (\<lambda>(x, y). write_string x @ (\<lambda>(x, y). write_value x @
      (\<lambda>(x, y). write_value x @ (\<lambda>(x, y). write_string x @ (\<lambda>(x, y). write_value x @
      (\<lambda>(x, y). write_value x @ (\<lambda>(x, y). write_bytes x @ (\<lambda>(x, y). write_bytes x @
      write_counted write_embedded_tx y) y) y) y) y) y) y) y) y) y) y) (?g b))
      read_block block_ok"
    using c by (auto simp: read_block_def [abs_def] block_ok_def [abs_def] reader_norm)
  then show "codec serialize_block read_block block_ok"
    by (simp add: serialize_block_def [abs_def])
qed

lemma deserialize_block_eq:
  "deserialize_block = decode_all read_block ''Trailing block data''"
  by (simp add: deserialize_block_def [abs_def] decode_all_def [abs_def])

lemma deserialize_block_iff:
  "deserialize_block data = Inr b \<longleftrightarrow> block_ok b \<and> data = serialize_block b"
  by (simp add: deserialize_block_eq block_codec.decode_all_iff)

section \<open>Decoding errors\<close>

context codec
begin

lemma repeat_error:
  "list_all ok xs \<Longrightarrow> off \<le> length d \<Longrightarrow> drop off d = concat (map enc xs) @ r \<Longrightarrow>
     length xs < n \<Longrightarrow> dec d (off + length (concat (map enc xs))) = Inl e \<Longrightarrow>
     read_repeat n dec d off = Inl e"
proof (induction xs arbitrary: off n)
  case Nil
  then show ?case by (cases n) auto
next
  case (Cons x xs)
  from Cons.prems have d: "drop off d = enc x @ (concat (map enc xs) @ r)" by simp
  note len = drop_eq_append_len [OF d Cons.prems(2)] and rest = drop_eq_append_drop [OF d]
  from Cons.prems(4) obtain m where n: "n = Suc m" "length xs < m" by (cases n) auto
  have "dec d (off + length (enc x) + length (concat (map enc xs))) = Inl e"
    using Cons.prems(5) by (simp add: add.assoc)
  with Cons.IH [OF _ len rest n(2)] dec_enc [OF _ Cons.prems(2) d] Cons.prems(1) n(1)
  show ?case by simp
qed

end

lemma read_string_too_long:
  assumes off: "off \<le> length d" and d: "drop off d = write_string s @ r"
    and len: "MAX_SERIALIZED_STRING < length s" "length s < 2 ^ 32"
  shows "read_string d off = Inl (Runtime_error ''Invalid string payload size'')"
proof -
  from d have d1: "drop off d = write_value (of_nat (length s) :: u32) @ (s @ r)"
    by (simp add: write_string_def)
  from u32_codec.dec_enc [OF TrueI off d1] unat_of_nat_u32 [OF len(2)] len(1)
  show ?thesis by (simp add: read_string_def)
qed

text \<open>The fields of a block before its transactions, as one tuple with its own codec.\<close>

abbreviation read_block_header where
  "read_block_header \<equiv> read_pair (read_value :: u32 reader) (read_pair (read_value :: u32 reader)
     (read_pair read_string (read_pair read_string (read_pair (read_value :: u64 reader)
     (read_pair (read_value :: u32 reader) (read_pair read_string
     (read_pair (read_value :: u64 reader) (read_pair (read_value :: u64 reader)
     (read_pair read_bytes read_bytes)))))))))"

abbreviation block_header_fields where
  "block_header_fields b \<equiv> (version b, height b, prev_block_hash b, merkle_root b,
     blk_timestamp b, nonce b, validator_address b, validator_stake b, validator_age b,
     validator_public_key b, validator_signature b)"

lemmas block_header_codec =
  codec_pair [OF u32_codec.codec_axioms codec_pair [OF u32_codec.codec_axioms
  codec_pair [OF string_codec.codec_axioms codec_pair [OF string_codec.codec_axioms
  codec_pair [OF u64_codec.codec_axioms codec_pair [OF u32_codec.codec_axioms
  codec_pair [OF string_codec.codec_axioms codec_pair [OF u64_codec.codec_axioms
  codec_pair [OF u64_codec.codec_axioms
  codec_pair [OF bytes_codec.codec_axioms bytes_codec.codec_axioms]]]]]]]]]]

lemma read_block_header_error:
  assumes "read_block_header d off = Inr (h, off1)"
    and "read_counted MAX_BLOCK_TRANSACTIONS ''Too many block transactions''
      read_embedded_tx d off1 = Inl e"
  shows "read_block d off = Inl e"
proof -
  have "read_block d off = rbind (read_block_header d off) (\<lambda>(h, off).
      rbind (read_counted MAX_BLOCK_TRANSACTIONS ''Too many block transactions''
        read_embedded_tx d off) (\<lambda>(txs, off).
      Inr ((\<lambda>(ver, h, prev, root, t, nc, va, vs, vage, pk, sg).
        \<lparr>version = ver, height = h, prev_block_hash = prev, merkle_root = root,
         blk_timestamp = t, nonce = nc, validator_address = va, validator_stake = vs,
         validator_age = vage, validator_public_key = pk, validator_signature = sg,
         transactions = txs\<rparr>) h, off)))"
    by (simp add: read_block_def reader_norm)
  with assms show ?thesis by simp
qed

lemma read_counted_embedded_error:
  assumes pre: "list_all embedded_tx_ok pre"
    and n: "length (pre @ tx # post) \<le> MAX_BLOCK_TRANSACTIONS"
    and len: "MAX_SERIALIZED_STRING < length (serialize_tx tx)" "length (serialize_tx tx) < 2 ^ 32"
    and off: "off \<le> length d"
    and d: "drop off d = write_counted write_embedded_tx (pre @ tx # post)"
  shows "read_counted MAX_BLOCK_TRANSACTIONS msg read_embedded_tx d off =
    Inl (Runtime_error ''Invalid string payload size'')"
proof -
  let ?n = "of_nat (length (pre @ tx # post)) :: u32"
  let ?rest = "concat (map write_embedded_tx (tx # post))"
  from n have un: "unat ?n = length (pre @ tx # post)"
    by (intro unat_of_nat_u32) (simp add: MAX_BLOCK_TRANSACTIONS_def)
  from d have d1: "drop off d = write_value ?n @ (concat (map write_embedded_tx pre) @ ?rest)"
    by (simp add: write_counted_def)
  note l1 = drop_eq_append_len [OF d1 off] and d2 = drop_eq_append_drop [OF d1]
  note l2 = drop_eq_append_len [OF d2 l1] and d3 = drop_eq_append_drop [OF d2]
  from d3 have d4: "drop (off + length (write_value ?n) +
      length (concat (map write_embedded_tx pre))) d =
      write_string (serialize_tx tx) @ concat (map write_embedded_tx post)"
    by (simp only: list.map concat.simps write_embedded_tx_def)
  have "read_embedded_tx d (off + length (write_value ?n) +
      length (concat (map write_embedded_tx pre))) =
      Inl (Runtime_error ''Invalid string payload size'')"
    by (simp only: read_embedded_tx_def read_string_too_long [OF l2 d4 len] rbind_Inl)
  from embedded_codec.repeat_error [OF pre l1 d2 _ this, of "unat ?n"] un
    u32_codec.dec_enc [OF TrueI off d1] n
  show ?thesis by (simp add: read_counted_def)
qed

section \<open>Properties of the wire formats\<close>

text \<open>C14: A byte string decodes to a transaction exactly when the transaction respects the
  decoder's size limits and the string is its serialisation: decoding inverts encoding, and
  every accepted string is the one canonical encoding (no trailing data, no second spelling).\<close>

theorem tx_wire_format:
  "deserialize_tx data = Inr tx \<longleftrightarrow> tx_ok tx \<and> data = serialize_tx tx"
  by (rule deserialize_tx_iff)

text \<open>C15: The same for blocks, including the transactions embedded in them: a string is accepted
  as a block exactly when it is the serialisation of a block within the limits, so a received
  block is re-serialised, and therefore hashed, to the bytes that were received.\<close>

theorem block_wire_format:
  "deserialize_block data = Inr b \<longleftrightarrow> block_ok b \<and> data = serialize_block b"
  by (rule deserialize_block_iff)

text \<open>A vote within the limits is read back from its serialisation whatever follows it: the
  vote decoder, unlike the other two, never looks at the end of the data, so trailing bytes are
  accepted and one vote has many encodings.\<close>

theorem vote_wire_format_ignores_rest:
  assumes "vote_ok v"
  shows "deserialize_vote (serialize_vote v @ rest) = Inr v"
  using vote_codec.dec_enc [OF assms, of 0 "serialize_vote v @ rest" rest]
  by (simp add: deserialize_vote_def)

theorem vote_wire_format_ignores_rest_witness:
  "deserialize_vote (serialize_vote \<lparr>vote_validator_address = ''alice'', vote_block_hash = ''ab'',
     vote_block_height = 1, vote_timestamp = 2, vote_public_key = [3], vote_signature = [4]\<rparr> @ ''junk'') =
   Inr \<lparr>vote_validator_address = ''alice'', vote_block_hash = ''ab'',
     vote_block_height = 1, vote_timestamp = 2, vote_public_key = [3], vote_signature = [4]\<rparr>"
  by (rule vote_wire_format_ignores_rest)
    (simp add: vote_ok_def string_ok_def bytes_ok_def serial_limits)

text \<open>The size limit of 64 KiB on strings also applies to each transaction inside a block. A
  block whose transactions respect every other limit but one of which serialises to more than
  64 KiB is hashed, signed and sent, and every receiver rejects it with the same error.\<close>

theorem oversized_tx_undecodable:
  assumes b: "block_ok (b\<lparr>transactions := pre\<rparr>)" and txs: "transactions b = pre @ tx # post"
    and n: "length (transactions b) \<le> MAX_BLOCK_TRANSACTIONS"
    and len: "MAX_SERIALIZED_STRING < length (serialize_tx tx)" "length (serialize_tx tx) < 2 ^ 32"
  shows "deserialize_block (serialize_block b) =
    Inl (Runtime_error ''Invalid string payload size'')"
proof -
  let ?h = "block_header_fields b" and ?d = "serialize_block b"
  let ?r = "write_counted write_embedded_tx (pre @ tx # post)"
  obtain e where e: "?d = e @ ?r" "read_block_header ?d 0 = Inr (?h, length e)"
    using codec.dec_enc [OF block_header_codec, of ?h 0 ?d ?r] b
    by (simp add: serialize_block_def txs block_ok_def)
  from b have pre: "list_all embedded_tx_ok pre" by (simp add: block_ok_def)
  have "drop (length e) ?d = ?r" and "length e \<le> length ?d" using e(1) by auto
  from read_counted_embedded_error [OF pre n [unfolded txs] len this(2,1)] e(2)
  have "read_block ?d 0 = Inl (Runtime_error ''Invalid string payload size'')"
    by (rule read_block_header_error [rotated])
  then show ?thesis by (simp add: deserialize_block_def)
qed

definition big_tx :: mermai_transaction where
  "big_tx = \<lparr>tx_id = replicate 65536 CHR ''a'', inputs = [], outputs = [], fee = 0, tx_timestamp = 0\<rparr>"

lemma length_serialize_big_tx: "length (serialize_tx big_tx) = 65564"
  by (simp add: serialize_tx_def big_tx_def write_counted_def)

theorem oversized_tx_undecodable_witness:
  "deserialize_block (serialize_block ((new_block 0 1)\<lparr>transactions := [big_tx]\<rparr>)) =
    Inl (Runtime_error ''Invalid string payload size'')"
  by (rule oversized_tx_undecodable [where pre = "[]" and tx = big_tx and post = "[]"])
    (simp_all add: new_block_def block_ok_def string_ok_def bytes_ok_def serial_limits
      length_serialize_big_tx)

end
