(* ===== verification/Mermai_Signing.thy ===== *)
theory Mermai_Signing
  imports Mermai_Data
begin

text \<open>
  Hashing, signing and stand-alone validation of transactions, votes and blocks
  (\<^verbatim>\<open>src/src/core/mermai_blockchain.cpp\<close>, lines 77--422). The clock
  \<^verbatim>\<open>std::time(nullptr)\<close> is the argument \<open>now\<close>; OpenSSL is the argument \<open>ossl\<close>.
  The lemmas give each check as a statement about the whole transaction instead of a loop, and
  show that what \<^verbatim>\<open>sign\<close> produces is accepted.
\<close>

section \<open>Hashes and signing payloads\<close>

definition unsigned_transaction_payload :: "mermai_transaction \<Rightarrow> string" where
  "unsigned_transaction_payload tx =
     serialize_tx (tx\<lparr>inputs := map (\<lambda>i. i\<lparr>in_signature := []\<rparr>) (inputs tx)\<rparr>)"

definition get_hash :: "'k openssl \<Rightarrow> mermai_transaction \<Rightarrow> string" where
  "get_hash ossl tx = hex_encode (SHA256 ossl (bytes_of_chars (serialize_tx tx)))"

definition vote_signing_payload :: "mermai_block_vote \<Rightarrow> string" where
  "vote_signing_payload v =
     vote_validator_address v @ '':'' @ vote_block_hash v @ '':'' @
     dec_string (unat (vote_block_height v)) @ '':'' @ dec_string (unat (vote_timestamp v))"

definition block_signing_payload :: "mermai_block \<Rightarrow> string" where
  "block_signing_payload b = serialize_block (b\<lparr>validator_signature := []\<rparr>)"

definition calculate_hash :: "'k openssl \<Rightarrow> mermai_block \<Rightarrow> bytes" where
  "calculate_hash ossl b = SHA256 ossl (bytes_of_chars (serialize_block b))"

definition block_hash_hex :: "'k openssl \<Rightarrow> mermai_block \<Rightarrow> string" where
  "block_hash_hex ossl b = hex_encode (calculate_hash ossl b)"

section \<open>Validation of a transaction\<close>

fun check_inputs :: "(string \<times> u32) set \<Rightarrow> mermai_tx_input list \<Rightarrow> bool" where
  "check_inputs spent_outputs [] = True"
| "check_inputs spent_outputs (i # is) =
     (if prev_tx_hash i = [] \<or> (prev_tx_hash i, prev_output_idx i) \<in> spent_outputs then False
      else check_inputs (insert (prev_tx_hash i, prev_output_idx i) spent_outputs) is)"

fun check_outputs :: "u64 \<Rightarrow> mermai_tx_output list \<Rightarrow> bool" where
  "check_outputs total_outputs [] = True"
| "check_outputs total_outputs (out # outs) =
     (if out_address out = [] \<or> out_amount out = 0 \<or> out_amount out > - 1 - total_outputs
      then False
      else check_outputs (total_outputs + out_amount out) outs)"

definition check_input_signature :: "'k openssl \<Rightarrow> string \<Rightarrow> mermai_tx_input \<Rightarrow> bool" where
  "check_input_signature ossl payload i =
     (if in_signature i = [] \<or> in_public_key i = [] then False
      else case d2i_PUBKEY ossl (in_public_key i) of
             None \<Rightarrow> False
           | Some (key, _) \<Rightarrow> DigestVerify ossl key payload (in_signature i))"

fun check_signatures :: "'k openssl \<Rightarrow> string \<Rightarrow> mermai_tx_input list \<Rightarrow> bool" where
  "check_signatures ossl payload [] = True"
| "check_signatures ossl payload (i # is) =
     (if \<not> check_input_signature ossl payload i then False
      else check_signatures ossl payload is)"

definition tx_verify :: "'k openssl \<Rightarrow> u64 \<Rightarrow> mermai_transaction \<Rightarrow> bool" where
  "tx_verify ossl now tx =
     (if tx_id tx = [] \<or> inputs tx = [] \<or> outputs tx = [] then False
      else if length (inputs tx) > MAX_TRANSACTION_INPUTS \<or>
              length (outputs tx) > MAX_TRANSACTION_OUTPUTS then False
      else if tx_timestamp tx > now + 120 then False
      else if \<not> check_inputs {} (inputs tx) then False
      else if \<not> check_outputs 0 (outputs tx) then False
      else check_signatures ossl (unsigned_transaction_payload tx) (inputs tx))"

definition tx_sign ::
  "'k openssl \<Rightarrow> nat \<Rightarrow> 'k option \<Rightarrow> mermai_transaction \<Rightarrow> bool \<times> mermai_transaction" where
  "tx_sign ossl input_idx private_key tx =
     (case private_key of
        None \<Rightarrow> (False, tx)
      | Some k \<Rightarrow>
          if input_idx \<ge> length (inputs tx) then (False, tx)
          else
            let i = inputs tx ! input_idx;
                i1 = i\<lparr>in_public_key := exported_key ossl k (in_public_key i), in_signature := []\<rparr>;
                tx1 = tx\<lparr>inputs := (inputs tx)[input_idx := i1]\<rparr>;
                (success, sg) = sign_payload ossl k (unsigned_transaction_payload tx1)
            in (success, tx1\<lparr>inputs := (inputs tx1)[input_idx := i1\<lparr>in_signature := sg\<rparr>]\<rparr>))"

section \<open>Votes and blocks\<close>

definition vote_sign ::
  "'k openssl \<Rightarrow> 'k option \<Rightarrow> mermai_block_vote \<Rightarrow> bool \<times> mermai_block_vote" where
  "vote_sign ossl private_key v =
     (case private_key of
        None \<Rightarrow> (False, v)
      | Some k \<Rightarrow>
          let v1 = v\<lparr>vote_public_key := exported_key ossl k (vote_public_key v), vote_signature := []\<rparr>;
              (success, sg) = sign_payload ossl k (vote_signing_payload v1)
          in (success, v1\<lparr>vote_signature := sg\<rparr>))"

definition vote_verify_signature :: "'k openssl \<Rightarrow> mermai_block_vote \<Rightarrow> bool" where
  "vote_verify_signature ossl v =
     (if vote_public_key v = [] \<or> vote_signature v = [] then False
      else case d2i_PUBKEY ossl (vote_public_key v) of
             None \<Rightarrow> False
           | Some (key, _) \<Rightarrow> DigestVerify ossl key (vote_signing_payload v) (vote_signature v))"

definition block_sign ::
  "'k openssl \<Rightarrow> 'k option \<Rightarrow> mermai_block \<Rightarrow> bool \<times> mermai_block" where
  "block_sign ossl private_key b =
     (case private_key of
        None \<Rightarrow> (False, b)
      | Some k \<Rightarrow>
          let b1 = b\<lparr>validator_public_key := exported_key ossl k (validator_public_key b),
                     validator_signature := []\<rparr>;
              (success, sg) = sign_payload ossl k (block_signing_payload b1)
          in (success, b1\<lparr>validator_signature := sg\<rparr>))"

definition verify_validator_signature :: "'k openssl \<Rightarrow> mermai_block \<Rightarrow> bool" where
  "verify_validator_signature ossl b =
     (if validator_public_key b = [] \<or> validator_signature b = [] then False
      else case d2i_PUBKEY ossl (validator_public_key b) of
             None \<Rightarrow> False
           | Some (key, consumed) \<Rightarrow>
               consumed = length (validator_public_key b) \<and>
               DigestVerify ossl key (block_signing_payload b) (validator_signature b))"

definition verify_time_weight_pos :: "mermai_block \<Rightarrow> bool" where
  "verify_time_weight_pos b \<longleftrightarrow> validator_address b \<noteq> [] \<and> validator_stake b > 0"

definition is_valid_proposer :: "mermai_block \<Rightarrow> string \<Rightarrow> u64 \<Rightarrow> u64 \<Rightarrow> bool" where
  "is_valid_proposer b address stake_amount stake_age_seconds \<longleftrightarrow>
     validator_address b = address \<and> validator_stake b \<ge> stake_amount \<and>
     validator_age b \<ge> stake_age_seconds"

section \<open>The checks as statements about the whole transaction\<close>

abbreviation outpoint :: "mermai_tx_input \<Rightarrow> string \<times> u32" where
  "outpoint i \<equiv> (prev_tx_hash i, prev_output_idx i)"

lemma check_inputs_iff:
  "check_inputs S is \<longleftrightarrow>
     (\<forall>i\<in>set is. prev_tx_hash i \<noteq> []) \<and> distinct (map outpoint is) \<and>
     S \<inter> outpoint ` set is = {}"
  by (induction "is" arbitrary: S) auto

lemma check_signatures_iff:
  "check_signatures ossl payload is \<longleftrightarrow> list_all (check_input_signature ossl payload) is"
  by (induction "is") auto

lemma check_outputs_iff:
  "check_outputs t outs \<longleftrightarrow>
     (\<forall>out\<in>set outs. out_address out \<noteq> [] \<and> out_amount out \<noteq> 0) \<and>
     unat t + sum_list (map (unat \<circ> out_amount) outs) < 2 ^ 64"
proof (induction outs arbitrary: t)
  case Nil
  then show ?case using unat_u64_less [of t] by simp
next
  case (Cons out outs)
  show ?case
  proof (cases "unat t + unat (out_amount out) < 2 ^ 64")
    case True
    then have "\<not> out_amount out > - 1 - t" by (simp add: u64_room not_less)
    with Cons.IH [of "t + out_amount out"] unat_add_room [OF True] show ?thesis
      by (auto simp: add.assoc)
  next
    case False
    then have "out_amount out > - 1 - t" by (simp add: u64_room not_le [symmetric])
    with False show ?thesis by auto
  qed
qed

section \<open>Signing produces what verification accepts\<close>

lemma exported_key_ok:
  "sound_key ossl k \<Longrightarrow> pk = [] \<or> pk = i2d_PUBKEY ossl k \<Longrightarrow>
     exported_key ossl k pk = i2d_PUBKEY ossl k"
  by (auto simp: exported_key_def sound_key_def)

lemma vote_payload_signature [simp]:
  "vote_signing_payload (v\<lparr>vote_signature := s\<rparr>) = vote_signing_payload v"
  by (simp add: vote_signing_payload_def)

lemma block_payload_signature [simp]:
  "block_signing_payload (b\<lparr>validator_signature := s\<rparr>) = block_signing_payload b"
  by (simp add: block_signing_payload_def)

lemma vote_sign_accepted:
  assumes k: "sound_key ossl k"
    and pk: "vote_public_key v = [] \<or> vote_public_key v = i2d_PUBKEY ossl k"
  shows "fst (vote_sign ossl (Some k) v) \<and>
    vote_verify_signature ossl (snd (vote_sign ossl (Some k) v))"
proof -
  let ?v = "v\<lparr>vote_public_key := i2d_PUBKEY ossl k, vote_signature := []\<rparr>"
  obtain s pub where s: "sign_payload ossl k (vote_signing_payload ?v) = (True, s)" "s \<noteq> []"
    and pub: "d2i_PUBKEY ossl (i2d_PUBKEY ossl k) = Some (pub, length (i2d_PUBKEY ossl k))"
    and ver: "DigestVerify ossl pub (vote_signing_payload ?v) s"
    by (rule sign_payload_sound [OF k])
  have "vote_sign ossl (Some k) v = (True, ?v\<lparr>vote_signature := s\<rparr>)"
    using s(1) by (simp add: vote_sign_def exported_key_ok [OF k pk] Let_def)
  with s(2) pub ver k show ?thesis
    by (simp add: vote_verify_signature_def sound_key_def)
qed

lemma block_sign_accepted:
  assumes k: "sound_key ossl k"
    and pk: "validator_public_key b = [] \<or> validator_public_key b = i2d_PUBKEY ossl k"
  shows "fst (block_sign ossl (Some k) b) \<and>
    verify_validator_signature ossl (snd (block_sign ossl (Some k) b))"
proof -
  let ?b = "b\<lparr>validator_public_key := i2d_PUBKEY ossl k, validator_signature := []\<rparr>"
  obtain s pub where s: "sign_payload ossl k (block_signing_payload ?b) = (True, s)" "s \<noteq> []"
    and pub: "d2i_PUBKEY ossl (i2d_PUBKEY ossl k) = Some (pub, length (i2d_PUBKEY ossl k))"
    and ver: "DigestVerify ossl pub (block_signing_payload ?b) s"
    by (rule sign_payload_sound [OF k])
  have "block_sign ossl (Some k) b = (True, ?b\<lparr>validator_signature := s\<rparr>)"
    using s(1) by (simp add: block_sign_def exported_key_ok [OF k pk] Let_def)
  with s(2) pub ver k show ?thesis
    by (simp add: verify_validator_signature_def sound_key_def)
qed

text \<open>
  Signing one input of a transaction whose public keys are already filled in changes only that
  input's signature, so the signed payload, which blanks all signatures, stays the same.
\<close>

lemma unsigned_payload_signatures:
  "map (\<lambda>i. i\<lparr>in_signature := []\<rparr>) is = map (\<lambda>i. i\<lparr>in_signature := []\<rparr>) (inputs tx) \<Longrightarrow>
     unsigned_transaction_payload (tx\<lparr>inputs := is\<rparr>) = unsigned_transaction_payload tx"
  by (simp add: unsigned_transaction_payload_def)

lemma blank_update:
  "i < length is \<Longrightarrow>
     map (\<lambda>i. i\<lparr>in_signature := []\<rparr>) (is[i := (is ! i)\<lparr>in_signature := s\<rparr>]) =
     map (\<lambda>i. i\<lparr>in_signature := []\<rparr>) is"
  by (rule nth_equalityI) (auto simp: nth_list_update)

lemma same_public_key:
  "in_public_key i = pk \<Longrightarrow> i\<lparr>in_public_key := pk, in_signature := s\<rparr> = i\<lparr>in_signature := s\<rparr>"
  by (cases i) simp

lemma tx_sign_step:
  assumes k: "sound_key ossl k" and i: "i < length (inputs tx)"
    and pk: "in_public_key (inputs tx ! i) = i2d_PUBKEY ossl k"
  obtains s where
    "tx_sign ossl i (Some k) tx =
       (True, tx\<lparr>inputs := (inputs tx)[i := (inputs tx ! i)\<lparr>in_signature := s\<rparr>]\<rparr>)"
    and "check_input_signature ossl (unsigned_transaction_payload tx)
      ((inputs tx ! i)\<lparr>in_signature := s\<rparr>)"
proof -
  let ?pk = "i2d_PUBKEY ossl k" and ?P = "unsigned_transaction_payload tx"
  have pay: "unsigned_transaction_payload
      (tx\<lparr>inputs := (inputs tx)[i := (inputs tx ! i)\<lparr>in_signature := []\<rparr>]\<rparr>) = ?P"
    by (rule unsigned_payload_signatures) (rule blank_update [OF i])
  obtain s pub where s: "sign_payload ossl k ?P = (True, s)" "s \<noteq> []"
    and pub: "d2i_PUBKEY ossl ?pk = Some (pub, length ?pk)" and ver: "DigestVerify ossl pub ?P s"
    by (rule sign_payload_sound [OF k])
  have "tx_sign ossl i (Some k) tx =
      (True, tx\<lparr>inputs := (inputs tx)[i := (inputs tx ! i)\<lparr>in_signature := s\<rparr>]\<rparr>)"
    using i s(1) pay pk
    by (simp add: tx_sign_def exported_key_ok [OF k] same_public_key [OF pk] Let_def)
  moreover have "check_input_signature ossl ?P ((inputs tx ! i)\<lparr>in_signature := s\<rparr>)"
    using s(2) pub ver pk k by (simp add: check_input_signature_def sound_key_def)
  ultimately show ?thesis by (rule that)
qed

lemma tx_sign_extends:
  assumes k: "sound_key ossl k" and n: "n < length (inputs t)"
    and pk: "in_public_key (inputs t ! n) = i2d_PUBKEY ossl k"
    and sigs: "\<forall>i<n. check_input_signature ossl (unsigned_transaction_payload t) (inputs t ! i)"
  defines "t' \<equiv> snd (tx_sign ossl n (Some k) t)"
  shows "unsigned_transaction_payload t' = unsigned_transaction_payload t"
    and "map in_public_key (inputs t') = map in_public_key (inputs t)"
    and "\<forall>i<Suc n. check_input_signature ossl (unsigned_transaction_payload t) (inputs t' ! i)"
proof -
  obtain s where s: "tx_sign ossl n (Some k) t =
      (True, t\<lparr>inputs := (inputs t)[n := (inputs t ! n)\<lparr>in_signature := s\<rparr>]\<rparr>)"
    and ver: "check_input_signature ossl (unsigned_transaction_payload t)
      ((inputs t ! n)\<lparr>in_signature := s\<rparr>)"
    by (rule tx_sign_step [OF k n pk])
  then have t': "t' = t\<lparr>inputs := (inputs t)[n := (inputs t ! n)\<lparr>in_signature := s\<rparr>]\<rparr>"
    by (simp add: t'_def)
  show "unsigned_transaction_payload t' = unsigned_transaction_payload t"
    unfolding t' by (rule unsigned_payload_signatures [OF blank_update [OF n]])
  show "map in_public_key (inputs t') = map in_public_key (inputs t)"
    using n by (intro nth_equalityI) (auto simp: t' nth_list_update)
  show "\<forall>i<Suc n. check_input_signature ossl (unsigned_transaction_payload t) (inputs t' ! i)"
    using sigs ver n by (auto simp: t' nth_list_update less_Suc_eq)
qed

lemma sign_inputs_invariant:
  assumes keys: "\<And>i. i < length (inputs tx) \<Longrightarrow>
      sound_key ossl (ks i) \<and> in_public_key (inputs tx ! i) = i2d_PUBKEY ossl (ks i)"
    and "n \<le> length (inputs tx)"
    and "t = foldl (\<lambda>t i. snd (tx_sign ossl i (Some (ks i)) t)) tx [0..<n]"
  shows "unsigned_transaction_payload t = unsigned_transaction_payload tx \<and>
    map in_public_key (inputs t) = map in_public_key (inputs tx) \<and>
    (\<forall>i<n. check_input_signature ossl (unsigned_transaction_payload tx) (inputs t ! i))"
  using assms(2,3)
proof (induction n arbitrary: t)
  case 0
  then show ?case by simp
next
  case (Suc n)
  define u where "u = foldl (\<lambda>t i. snd (tx_sign ossl i (Some (ks i)) t)) tx [0..<n]"
  with Suc have t: "t = snd (tx_sign ossl n (Some (ks n)) u)" by simp
  from Suc.IH [OF _ u_def] Suc.prems(1)
  have pay: "unsigned_transaction_payload u = unsigned_transaction_payload tx"
    and pks: "map in_public_key (inputs u) = map in_public_key (inputs tx)"
    and sigs: "\<forall>i<n. check_input_signature ossl (unsigned_transaction_payload u) (inputs u ! i)"
    by auto
  have "length (inputs u) = length (inputs tx)" using pks by (metis length_map)
  with Suc.prems(1) have n: "n < length (inputs u)" and n': "n < length (inputs tx)" by auto
  have "in_public_key (inputs u ! n) = i2d_PUBKEY ossl (ks n)"
    using pks n n' keys [OF n'] by (metis nth_map)
  from tx_sign_extends [OF _ n this sigs] keys [OF n'] pay pks t show ?case by simp
qed

section \<open>Properties of validation and signing\<close>

text \<open>C16: \<^verbatim>\<open>mermai_transaction::verify\<close> accepts exactly the transactions that have an id, between
  1 and 1000 inputs and outputs, a timestamp at most two minutes ahead of the clock, pairwise
  different non-empty input references, non-empty addresses with positive amounts whose sum
  fits in 64 bits (no wrap-around), and a valid signature on every input.\<close>

theorem tx_verify_spec:
  "tx_verify ossl now tx \<longleftrightarrow>
     tx_id tx \<noteq> [] \<and>
     length (inputs tx) \<in> {1..1000} \<and> length (outputs tx) \<in> {1..1000} \<and>
     tx_timestamp tx \<le> now + 120 \<and>
     list_all (\<lambda>i. prev_tx_hash i \<noteq> []) (inputs tx) \<and>
     distinct (map (\<lambda>i. (prev_tx_hash i, prev_output_idx i)) (inputs tx)) \<and>
     list_all (\<lambda>out. out_address out \<noteq> [] \<and> out_amount out \<noteq> 0) (outputs tx) \<and>
     sum_list (map (unat \<circ> out_amount) (outputs tx)) < 2 ^ 64 \<and>
     list_all (check_input_signature ossl (unsigned_transaction_payload tx)) (inputs tx)"
  unfolding tx_verify_def check_inputs_iff check_outputs_iff check_signatures_iff serial_limits
  by (auto simp: list_all_iff not_less Suc_le_eq)

text \<open>Signing every input of a transaction, each with the key pair whose public key the input
  already carries, yields a transaction with the same signing payload in which every input
  passes the signature check: later signatures never invalidate earlier ones.\<close>

theorem sign_all_inputs_accepted:
  assumes "\<And>i. i < length (inputs tx) \<Longrightarrow>
      sound_key ossl (ks i) \<and> in_public_key (inputs tx ! i) = i2d_PUBKEY ossl (ks i)"
  defines "tx' \<equiv> foldl (\<lambda>t i. snd (tx_sign ossl i (Some (ks i)) t)) tx [0..<length (inputs tx)]"
  shows "check_signatures ossl (unsigned_transaction_payload tx') (inputs tx')"
proof -
  from sign_inputs_invariant [OF assms(1) order_refl tx'_def [THEN meta_eq_to_obj_eq]]
  have pay: "unsigned_transaction_payload tx' = unsigned_transaction_payload tx"
    and pks: "map in_public_key (inputs tx') = map in_public_key (inputs tx)"
    and sigs: "\<forall>i<length (inputs tx). check_input_signature ossl (unsigned_transaction_payload tx) (inputs tx' ! i)"
    by auto
  have "length (inputs tx') = length (inputs tx)" using pks by (metis length_map)
  with sigs pay show ?thesis by (simp add: check_signatures_iff list_all_length)
qed

definition demo_tx :: mermai_transaction where
  "demo_tx = \<lparr>tx_id = ''t'', inputs =
      [\<lparr>prev_tx_hash = ''p'', prev_output_idx = 0, in_signature = [], in_public_key = [7]\<rparr>,
       \<lparr>prev_tx_hash = ''q'', prev_output_idx = 1, in_signature = [], in_public_key = [9]\<rparr>],
      outputs = [\<lparr>out_address = ''a'', out_amount = 5\<rparr>], fee = 1, tx_timestamp = 3\<rparr>"

theorem sign_all_inputs_accepted_witness:
  "let tx' = foldl (\<lambda>t i. snd (tx_sign toy_ossl i (Some (if i = 0 then 7 else 9)) t)) demo_tx
     [0..<length (inputs demo_tx)]
   in check_signatures toy_ossl (unsigned_transaction_payload tx') (inputs tx')"
proof -
  have keys: "sound_key toy_ossl ((\<lambda>i. if i = 0 then 7 else 9) i) \<and>
      in_public_key (inputs demo_tx ! i) = i2d_PUBKEY toy_ossl ((\<lambda>i. if i = 0 then 7 else 9) i)"
    if "i < length (inputs demo_tx)" for i
    using that by (cases i) (auto simp: demo_tx_def)
  show ?thesis unfolding Let_def by (rule sign_all_inputs_accepted [OF keys])
qed

text \<open>A block signed by a validator's key is accepted by the signature check of
  \<^verbatim>\<open>verify_validator_signature\<close>, which also requires that the whole public key buffer is used.\<close>

theorem block_sign_verifies:
  assumes "sound_key ossl k"
    and "validator_public_key b = [] \<or> validator_public_key b = i2d_PUBKEY ossl k"
  shows "fst (block_sign ossl (Some k) b) \<and>
    verify_validator_signature ossl (snd (block_sign ossl (Some k) b))"
  by (rule block_sign_accepted [OF assms])

theorem block_sign_verifies_witness:
  "fst (block_sign toy_ossl (Some 5) (new_block 0 1)) \<and>
   verify_validator_signature toy_ossl (snd (block_sign toy_ossl (Some 5) (new_block 0 1)))"
  by (rule block_sign_verifies) (simp_all add: new_block_def)

end
