(* ===== verification/Std_Text.thy ===== *)
theory Std_Text
  imports Mermai_Prelude
begin

text \<open>
  The text functions of the C++ library the sources use: character classes, word and line
  splitting of string streams, and the integer conversions \<^verbatim>\<open>std::stoul\<close> and
  \<^verbatim>\<open>std::stoull\<close> with their exceptions, in the C locale.
\<close>

section \<open>Characters and words\<close>

definition is_space :: "char \<Rightarrow> bool" where
  "is_space c \<longleftrightarrow> (let n = of_char c :: nat in n = 32 \<or> 9 \<le> n \<and> n \<le> 13)"

text \<open>Repeated \<^verbatim>\<open>operator>>\<close> into a string: the white-space separated words.\<close>

function words :: "string \<Rightarrow> string list" where
  "words s =
     (case dropWhile is_space s of
        [] \<Rightarrow> []
      | c # cs \<Rightarrow> (c # takeWhile (\<lambda>x. \<not> is_space x) cs) # words (dropWhile (\<lambda>x. \<not> is_space x) cs))"
  by pat_completeness auto
termination
proof (relation "measure length")
  fix s :: string and c cs
  assume s: "dropWhile is_space s = c # cs"
  have "length (dropWhile (\<lambda>x. \<not> is_space x) cs) \<le> length cs" by (rule length_dropWhile_le)
  also have "\<dots> < length (dropWhile is_space s)" by (simp add: s)
  also have "\<dots> \<le> length s" by (rule length_dropWhile_le)
  finally show "(dropWhile (\<lambda>x. \<not> is_space x) cs, s) \<in> measure length" by simp
qed simp

declare words.simps [simp del]

text \<open>\<^verbatim>\<open>find\<close> of a text: what follows its first occurrence.\<close>

fun after :: "string \<Rightarrow> string \<Rightarrow> string option" where
  "after needle [] = (if needle = [] then Some [] else None)"
| "after needle (c # cs) =
     (if take (length needle) (c # cs) = needle then Some (drop (length needle) (c # cs)) else after needle cs)"

text \<open>
  \<^verbatim>\<open>std::getline(ss, seg, delim)\<close>: the text up to the delimiter, which is consumed, with the
  rest of the stream; \<open>None\<close> when the stream is exhausted.
\<close>

definition getline :: "char \<Rightarrow> string \<Rightarrow> (string \<times> string) option" where
  "getline delim s =
     (if s = [] then None
      else Some (takeWhile (\<lambda>c. c \<noteq> delim) s, drop 1 (dropWhile (\<lambda>c. c \<noteq> delim) s)))"

lemma getline_join: "delim \<notin> set seg \<Longrightarrow> getline delim (seg @ delim # rest) = Some (seg, rest)"
  unfolding getline_def by (induction seg) auto

section \<open>Integers\<close>

text \<open>An integer printed with \<^verbatim>\<open>std::hex\<close>, and \<^verbatim>\<open>std::to_string\<close> of a signed one.\<close>

fun hex_string :: "nat \<Rightarrow> string" where
  "hex_string n = (if n < 16 then [hex_digit n] else hex_string (n div 16) @ [hex_digit (n mod 16)])"

declare hex_string.simps [simp del]

definition int_string :: "int \<Rightarrow> string" where
  "int_string i = (if i < 0 then CHR ''-'' # dec_string (nat (- i)) else dec_string (nat i))"


definition digit_in :: "nat \<Rightarrow> char \<Rightarrow> nat option" where
  "digit_in base c =
     (let n = of_char c;
          d = (if 48 \<le> n \<and> n \<le> 57 then n - 48 else if 97 \<le> n \<and> n \<le> 122 then n - 87
               else if 65 \<le> n \<and> n \<le> 90 then n - 55 else 36)
      in if d < base then Some d else None)"

fun digits_value :: "nat \<Rightarrow> nat \<Rightarrow> string \<Rightarrow> nat" where
  "digits_value base acc [] = acc"
| "digits_value base acc (c # cs) =
     (case digit_in base c of None \<Rightarrow> acc | Some d \<Rightarrow> digits_value base (acc * base + d) cs)"

definition starts_digit :: "nat \<Rightarrow> string \<Rightarrow> bool" where
  "starts_digit base s = (case s of [] \<Rightarrow> False | c # _ \<Rightarrow> digit_in base c \<noteq> None)"

text \<open>
  The number at the head of a text without sign. In base 16 a prefix \<^verbatim>\<open>0x\<close> is skipped; base 0
  means the base the prefix announces: hexadecimal after \<^verbatim>\<open>0x\<close>, octal after \<^verbatim>\<open>0\<close>, else
  decimal.
\<close>

definition hex_prefixed :: "string \<Rightarrow> bool" where
  "hex_prefixed s \<longleftrightarrow> (take 2 s = ''0x'' \<or> take 2 s = ''0X'') \<and> starts_digit 16 (drop 2 s)"

definition unsigned_literal :: "nat \<Rightarrow> string \<Rightarrow> nat option" where
  "unsigned_literal base s =
     (if (base = 0 \<or> base = 16) \<and> hex_prefixed s then Some (digits_value 16 0 (drop 2 s))
      else if base = 0 \<and> take 1 s = ''0'' then Some (digits_value 8 0 s)
      else let b = (if base = 0 then 10 else base)
        in if starts_digit b s then Some (digits_value b 0 s) else None)"

definition stoull :: "string \<Rightarrow> nat \<Rightarrow> string \<Rightarrow> u64 result" where
  "stoull fname base s =
     (let t = dropWhile is_space s; neg = (take 1 t = ''-'');
          body = (if neg \<or> take 1 t = ''+'' then drop 1 t else t)
      in case unsigned_literal base body of
           None \<Rightarrow> Inl (Invalid_argument fname)
         | Some v \<Rightarrow> if v \<ge> 2 ^ 64 then Inl (Out_of_range fname)
             else Inr (if neg then - of_nat v else of_nat v))"

text \<open>\<^verbatim>\<open>std::stoi\<close> in base 10; an \<^verbatim>\<open>int\<close> has 32 bits.\<close>

definition stoi :: "string \<Rightarrow> int result" where
  "stoi s =
     (let t = dropWhile is_space s; neg = (take 1 t = ''-'');
          body = (if neg \<or> take 1 t = ''+'' then drop 1 t else t)
      in case unsigned_literal 10 body of
           None \<Rightarrow> Inl (Invalid_argument ''stoi'')
         | Some v \<Rightarrow> let i = (if neg then - int v else int v)
             in if i < - (2 ^ 31) \<or> i \<ge> 2 ^ 31 then Inl (Out_of_range ''stoi'') else Inr i)"

end
