(* ===== verification/Mermai_Multisig.thy ===== *)
theory Mermai_Multisig
  imports Mermai_Signing Std_Text
begin

text \<open>
  Threshold accounts (\<^verbatim>\<open>src/src/core/mermai_multisig.cpp\<close>): the address of an account, collecting
  signatures, checking that enough members signed, and the text forms of accounts and
  transactions.
\<close>

section \<open>Operations\<close>

record mermai_multisig_account =
  ms_address :: string
  threshold :: u32
  signers :: "bytes list"
  ms_balance :: u64
  ms_nonce :: u64

record mermai_multisig_signature =
  sig_public_key :: bytes
  sig_signature :: bytes

record mermai_multisig_tx =
  base_tx :: mermai_transaction
  multisig_address :: string
  signatures :: "mermai_multisig_signature list"

definition default_account :: mermai_multisig_account where
  "default_account = \<lparr>ms_address = [], threshold = 1, signers = [], ms_balance = 0, ms_nonce = 0\<rparr>"

definition default_multisig_tx :: mermai_multisig_tx where
  "default_multisig_tx = \<lparr>base_tx = default_transaction, multisig_address = [], signatures = []\<rparr>"

definition key_list :: "bytes list \<Rightarrow> string" where
  "key_list keys = concat (map (\<lambda>pk. hex_encode pk @ '','') keys)"

definition calculate_multisig_address :: "'k openssl \<Rightarrow> u32 \<Rightarrow> bytes list \<Rightarrow> string" where
  "calculate_multisig_address ossl thr public_keys =
     (let payload = dec_string (unat thr) @ '':'' @ key_list public_keys
      in ''mrm_ms1'' @ hex_encode (take 20 (SHA256 ossl (bytes_of_chars payload))))"

definition create_account :: "'k openssl \<Rightarrow> u32 \<Rightarrow> bytes list \<Rightarrow> mermai_multisig_account" where
  "create_account ossl thr public_keys =
     default_account\<lparr>threshold := thr, signers := public_keys,
       ms_address := calculate_multisig_address ossl thr public_keys\<rparr>"

definition multisig_signing_payload :: "mermai_multisig_tx \<Rightarrow> string" where
  "multisig_signing_payload tx = serialize_tx (base_tx tx) @ '':'' @ multisig_address tx"

definition add_signature :: "bytes \<Rightarrow> bytes \<Rightarrow> mermai_multisig_tx \<Rightarrow> bool \<times> mermai_multisig_tx" where
  "add_signature public_key sg tx =
     (if list_ex (\<lambda>s. sig_public_key s = public_key) (signatures tx) then (False, tx)
      else (True, tx\<lparr>signatures := signatures tx @ [\<lparr>sig_public_key = public_key, sig_signature = sg\<rparr>]\<rparr>))"

definition check_signature_of :: "'k openssl \<Rightarrow> string \<Rightarrow> mermai_multisig_signature \<Rightarrow> bool" where
  "check_signature_of ossl payload s =
     (case d2i_PUBKEY ossl (sig_public_key s) of
        None \<Rightarrow> False
      | Some (key, _) \<Rightarrow> DigestVerify ossl key payload (sig_signature s))"

fun count_signatures ::
  "'k openssl \<Rightarrow> mermai_multisig_account \<Rightarrow> string \<Rightarrow> string set \<Rightarrow> u32 \<Rightarrow>
     mermai_multisig_signature list \<Rightarrow> u32" where
  "count_signatures ossl account payload seen_signers valid [] = valid"
| "count_signatures ossl account payload seen_signers valid (s # rest) =
     (if \<not> list_ex (\<lambda>pk. pk = sig_public_key s) (signers account)
      then count_signatures ossl account payload seen_signers valid rest
      else let pk_hex = hex_encode (sig_public_key s)
        in if pk_hex \<in> seen_signers then count_signatures ossl account payload seen_signers valid rest
           else if check_signature_of ossl payload s
           then count_signatures ossl account payload (insert pk_hex seen_signers) (valid + 1) rest
           else count_signatures ossl account payload seen_signers valid rest)"

definition verify_multisig_tx :: "'k openssl \<Rightarrow> mermai_multisig_account \<Rightarrow> mermai_multisig_tx \<Rightarrow> bool" where
  "verify_multisig_tx ossl account tx =
     (if length (signatures tx) < unat (threshold account) then False
      else count_signatures ossl account (multisig_signing_payload tx) {} 0 (signatures tx) \<ge> threshold account)"

definition serialize_account :: "mermai_multisig_account \<Rightarrow> string" where
  "serialize_account a =
     ms_address a @ ''|'' @ dec_string (unat (threshold a)) @ ''|'' @ dec_string (unat (ms_balance a)) @
     ''|'' @ dec_string (unat (ms_nonce a)) @ ''|'' @ key_list (signers a)"

text \<open>Each field is read only when \<^verbatim>\<open>std::getline\<close> still finds one.\<close>

definition deserialize_account :: "string \<Rightarrow> mermai_multisig_account result" where
  "deserialize_account data =
     (case getline CHR ''|'' data of
        None \<Rightarrow> Inr default_account
      | Some (addr, r1) \<Rightarrow>
        let a1 = default_account\<lparr>ms_address := addr\<rparr>
        in case getline CHR ''|'' r1 of
          None \<Rightarrow> Inr a1
        | Some (thr, r2) \<Rightarrow> rbind (stoull ''stoul'' 10 thr) (\<lambda>thr.
          let a2 = a1\<lparr>threshold := ucast thr\<rparr>
          in case getline CHR ''|'' r2 of
            None \<Rightarrow> Inr a2
          | Some (bal, r3) \<Rightarrow> rbind (stoull ''stoull'' 10 bal) (\<lambda>bal.
            let a3 = a2\<lparr>ms_balance := bal\<rparr>
            in case getline CHR ''|'' r3 of
              None \<Rightarrow> Inr a3
            | Some (non, _) \<Rightarrow> rbind (stoull ''stoull'' 10 non) (\<lambda>non. Inr (a3\<lparr>ms_nonce := non\<rparr>)))))"

definition serialize_multisig_tx :: "mermai_multisig_tx \<Rightarrow> string" where
  "serialize_multisig_tx tx = serialize_tx (base_tx tx) @ ''#'' @ multisig_address tx"

definition deserialize_multisig_tx :: "string \<Rightarrow> mermai_multisig_tx result" where
  "deserialize_multisig_tx data =
     (if CHR ''#'' \<notin> set data then Inr default_multisig_tx
      else rbind (deserialize_tx (takeWhile (\<lambda>c. c \<noteq> CHR ''#'') data)) (\<lambda>btx.
        Inr (default_multisig_tx\<lparr>base_tx := btx,
               multisig_address := drop 1 (dropWhile (\<lambda>c. c \<noteq> CHR ''#'') data)\<rparr>)))"

section \<open>Threshold\<close>

definition good_keys ::
  "'k openssl \<Rightarrow> mermai_multisig_account \<Rightarrow> string \<Rightarrow> mermai_multisig_signature list \<Rightarrow> bytes set" where
  "good_keys ossl account payload sigs =
     {sig_public_key s | s. s \<in> set sigs \<and> sig_public_key s \<in> set (signers account) \<and> check_signature_of ossl payload s}"

lemma good_keys_Cons:
  "good_keys ossl account payload (s # sigs) =
     (if sig_public_key s \<in> set (signers account) \<and> check_signature_of ossl payload s
      then insert (sig_public_key s) (good_keys ossl account payload sigs)
      else good_keys ossl account payload sigs)"
  by (auto simp: good_keys_def)

lemma finite_good_keys [simp]: "finite (good_keys ossl account payload sigs)"
proof -
  have "good_keys ossl account payload sigs \<subseteq> sig_public_key ` set sigs" by (auto simp: good_keys_def)
  then show ?thesis by (rule finite_subset) simp
qed

lemma count_signatures_eq:
  assumes "finite K"
  shows "count_signatures ossl account payload (hex_encode ` K) (of_nat (card K)) sigs =
    of_nat (card (K \<union> good_keys ossl account payload sigs))"
  using assms
proof (induction sigs arbitrary: K)
  case Nil
  then show ?case by (simp add: good_keys_def)
next
  case (Cons s sigs)
  let ?pk = "sig_public_key s"
  have mem: "hex_encode ?pk \<in> hex_encode ` K \<longleftrightarrow> ?pk \<in> K" by auto
  have ins: "insert (hex_encode ?pk) (hex_encode ` K) = hex_encode ` insert ?pk K" by simp
  have card: "?pk \<notin> K \<Longrightarrow> (of_nat (card K) + 1 :: u32) = of_nat (card (insert ?pk K))"
    using Cons.prems by simp
  show ?case
  proof (cases "?pk \<in> set (signers account) \<and> ?pk \<notin> K \<and> check_signature_of ossl payload s")
    case True
    with Cons.IH [of "insert ?pk K"] Cons.prems card show ?thesis
      by (simp add: mem ins good_keys_Cons list_ex_iff Let_def add.commute del: image_insert)
  next
    case False
    then have "K \<union> good_keys ossl account payload (s # sigs) = K \<union> good_keys ossl account payload sigs"
      by (auto simp: good_keys_Cons)
    with False Cons show ?thesis by (auto simp: mem list_ex_iff Let_def)
  qed
qed

text \<open>C20: A multisig transaction is accepted exactly when at least as many different member keys as the
  threshold carry a valid signature over its payload (and there are at least that many signatures);
  repeating a signature or signing as an outsider does not help.\<close>
theorem verify_multisig_tx_iff:
  assumes "length (signatures tx) < 2 ^ 32"
  shows "verify_multisig_tx ossl account tx \<longleftrightarrow>
    unat (threshold account) \<le> card (good_keys ossl account (multisig_signing_payload tx) (signatures tx))"
proof -
  let ?G = "good_keys ossl account (multisig_signing_payload tx) (signatures tx)"
  have "?G \<subseteq> sig_public_key ` set (signatures tx)" by (auto simp: good_keys_def)
  then have "card ?G \<le> card (sig_public_key ` set (signatures tx))" by (intro card_mono) auto
  also have "\<dots> \<le> length (signatures tx)" by (metis card_length length_map list.set_map)
  finally have le: "card ?G \<le> length (signatures tx)" .
  then have "unat (of_nat (card ?G) :: u32) = card ?G"
    using assms by (intro unat_of_nat_u32) simp
  then show ?thesis
    using count_signatures_eq [of "{}" ossl account "multisig_signing_payload tx" "signatures tx"] le
    by (auto simp: verify_multisig_tx_def word_le_nat_alt)
qed

lemma verify_multisig_tx_iff_witness:
  "let acct = create_account toy_ossl 2 [[7], [9]];
       tx = default_multisig_tx\<lparr>multisig_address := ms_address acct\<rparr>;
       sign = (\<lambda>k. k # bytes_of_chars (multisig_signing_payload tx))
   in verify_multisig_tx toy_ossl acct (snd (add_signature [9] (sign 9) (snd (add_signature [7] (sign 7) tx)))) \<and>
      \<not> verify_multisig_tx toy_ossl acct (tx\<lparr>signatures :=
          [\<lparr>sig_public_key = [7], sig_signature = sign 7\<rparr>, \<lparr>sig_public_key = [7], sig_signature = sign 7\<rparr>]\<rparr>)"
proof -
  define acct where "acct = create_account toy_ossl 2 [[7], [9]]"
  define tx where "tx = default_multisig_tx\<lparr>multisig_address := ms_address acct\<rparr>"
  define sign where "sign = (\<lambda>k :: byte. k # bytes_of_chars (multisig_signing_payload tx))"
  define t1 where "t1 = snd (add_signature [9] (sign 9) (snd (add_signature [7] (sign 7) tx)))"
  define t2 where "t2 = tx\<lparr>signatures :=
          [\<lparr>sig_public_key = [7], sig_signature = sign 7\<rparr>, \<lparr>sig_public_key = [7], sig_signature = sign 7\<rparr>]\<rparr>"
  have acct: "threshold acct = 2" "signers acct = [[7], [9]]"
    by (simp_all add: acct_def create_account_def)
  have pay: "multisig_signing_payload t1 = multisig_signing_payload tx" "multisig_signing_payload t2 = multisig_signing_payload tx"
    by (simp_all add: t1_def t2_def tx_def add_signature_def default_multisig_tx_def multisig_signing_payload_def)
  have sigs: "signatures t1 = [\<lparr>sig_public_key = [7], sig_signature = sign 7\<rparr>, \<lparr>sig_public_key = [9], sig_signature = sign 9\<rparr>]"
    by (simp add: t1_def tx_def add_signature_def default_multisig_tx_def)
  have ok: "check_signature_of toy_ossl (multisig_signing_payload tx) \<lparr>sig_public_key = [k], sig_signature = sign k\<rparr>" for k
    by (simp add: check_signature_of_def toy_ossl_def sign_def)
  have g1: "good_keys toy_ossl acct (multisig_signing_payload t1) (signatures t1) = {[7], [9]}"
    unfolding pay sigs by (simp add: good_keys_Cons acct ok) (simp add: good_keys_def)
  have s2: "signatures t2 = [\<lparr>sig_public_key = [7], sig_signature = sign 7\<rparr>, \<lparr>sig_public_key = [7], sig_signature = sign 7\<rparr>]"
    by (simp add: t2_def)
  have g2: "good_keys toy_ossl acct (multisig_signing_payload t2) (signatures t2) = {[7]}"
    unfolding pay s2 by (simp add: good_keys_Cons acct ok) (simp add: good_keys_def)
  have "verify_multisig_tx toy_ossl acct t1" "\<not> verify_multisig_tx toy_ossl acct t2"
    using verify_multisig_tx_iff [of t1 toy_ossl acct] verify_multisig_tx_iff [of t2 toy_ossl acct]
    unfolding g1 g2 by (simp_all add: sigs s2 acct)
  then show ?thesis by (simp add: Let_def acct_def tx_def sign_def t1_def t2_def)
qed

text \<open>
  The text form of an account writes the signers but reading it back never restores them: an
  account that was stored accepts no member any more.
\<close>

lemma deserialize_account_loses_signers:
  "deserialize_account data = Inr a \<Longrightarrow> signers a = []"
  by (auto simp: deserialize_account_def default_account_def Let_def split: option.splits elim!: rbind_InrE)

text \<open>A base transaction whose encoding contains the separator is cut at its first occurrence, so
  the text form of a multisig transaction cannot be read back.\<close>

lemma deserialize_multisig_separator:
  assumes "tx_ok (base_tx tx)" "CHR ''#'' \<in> set (serialize_tx (base_tx tx))"
  shows "deserialize_multisig_tx (serialize_multisig_tx tx) \<noteq> Inr (tx\<lparr>signatures := []\<rparr>)"
proof
  let ?s = "serialize_tx (base_tx tx)" and ?cut = "takeWhile (\<lambda>c. c \<noteq> CHR ''#'') (serialize_multisig_tx tx)"
  assume "deserialize_multisig_tx (serialize_multisig_tx tx) = Inr (tx\<lparr>signatures := []\<rparr>)"
  moreover have "CHR ''#'' \<in> set (serialize_multisig_tx tx)" by (simp add: serialize_multisig_tx_def)
  ultimately obtain btx where "deserialize_tx ?cut = Inr btx" "btx = base_tx tx"
    by (auto simp: deserialize_multisig_tx_def default_multisig_tx_def elim!: rbind_InrE dest: arg_cong [of _ _ base_tx])
  then have "?cut = ?s" by (simp add: deserialize_tx_iff)
  then have "CHR ''#'' \<in> set ?cut" using assms(2) by simp
  then show False by (auto dest: set_takeWhileD)
qed

end
