(* ===== verification/Mermai_Merkle.thy ===== *)
theory Mermai_Merkle
  imports Mermai_Signing Std_Text
begin

text \<open>
  The two Merkle trees of the node. \<^verbatim>\<open>src/src/core/mermai_merkle.cpp\<close> builds all levels of a
  tree over hexadecimal leaf hashes, combining nodes through their decoded bytes, and makes and
  checks inclusion proofs; \<^verbatim>\<open>src/src/db/mermai_db.cpp\<close> computes the root that blocks carry,
  combining nodes through their hexadecimal text. Both walk the levels in the same way, so the
  walk is defined once over the combining function, and the locale \<open>merkle_hash\<close> states what the
  proofs need of that function; it is interpreted for both.
\<close>

section \<open>Decoding hexadecimal text\<close>

text \<open>
  \<^verbatim>\<open>strtol(s, nullptr, 16)\<close> on the two characters of \<^verbatim>\<open>substr(i, 2)\<close>: leading white space, an
  optional sign, then digits up to the first character that is none. (A prefix \<^verbatim>\<open>0x\<close> would
  need a third character to matter.)
\<close>

definition hex_digit_value :: "char \<Rightarrow> nat option" where
  "hex_digit_value c =
     (let n = of_char c
      in if 48 \<le> n \<and> n \<le> 57 then Some (n - 48)
         else if 97 \<le> n \<and> n \<le> 102 then Some (n - 87)
         else if 65 \<le> n \<and> n \<le> 70 then Some (n - 55)
         else None)"

fun hex_digits :: "nat \<Rightarrow> string \<Rightarrow> nat" where
  "hex_digits acc [] = acc"
| "hex_digits acc (c # cs) =
     (case hex_digit_value c of None \<Rightarrow> acc | Some d \<Rightarrow> hex_digits (acc * 16 + d) cs)"

definition strtol_hex :: "string \<Rightarrow> int" where
  "strtol_hex s =
     (case dropWhile is_space s of
        [] \<Rightarrow> 0
      | c # cs \<Rightarrow>
          if c = CHR ''-'' then - int (hex_digits 0 cs)
          else if c = CHR ''+'' then int (hex_digits 0 cs)
          else int (hex_digits 0 (c # cs)))"

fun hex_to_bytes :: "string \<Rightarrow> bytes" where
  "hex_to_bytes (a # b # cs) = word_of_int (strtol_hex [a, b]) # hex_to_bytes cs"
| "hex_to_bytes _ = []"

lemma hex_digit_value_digit: "n < 16 \<Longrightarrow> hex_digit_value (hex_digit n) = Some n"
  by (simp add: hex_digit_value_def hex_digit_def Let_def)

lemma hex_digit_plain:
  assumes "n < 16"
  shows "\<not> is_space (hex_digit n) \<and> hex_digit n \<noteq> CHR ''-'' \<and> hex_digit n \<noteq> CHR ''+''"
proof -
  have "(of_char (hex_digit n) :: nat) = (if n < 10 then 48 + n else 87 + n)"
    using assms by (simp add: hex_digit_def)
  moreover have "(of_char CHR ''-'' :: nat) = 45" "(of_char CHR ''+'' :: nat) = 43" by simp_all
  ultimately have "(of_char (hex_digit n) :: nat) \<noteq> of_char CHR ''-''"
    "(of_char (hex_digit n) :: nat) \<noteq> of_char CHR ''+''" "\<not> is_space (hex_digit n)"
    unfolding is_space_def Let_def by presburger+
  then show ?thesis by metis
qed

lemma strtol_hex_byte: "word_of_int (strtol_hex (hex_byte b)) = b"
proof -
  have "strtol_hex (hex_byte b) = int (unat b div 16 * 16 + unat b mod 16)"
    using hex_digit_plain [OF hex_byte_nibbles(1) [of b]]
    by (simp add: strtol_hex_def hex_byte_def hex_digit_value_digit hex_byte_nibbles)
  then show ?thesis by (simp only: div_mult_mod_eq uint_nat [symmetric] word_of_int_uint)
qed

lemma hex_to_bytes_encode [simp]: "hex_to_bytes (hex_encode bs) = bs"
proof (induction bs)
  case (Cons b bs)
  have "hex_byte b = [hex_byte b ! 0, hex_byte b ! 1]" by (simp add: hex_byte_def)
  then have "hex_to_bytes (hex_byte b @ hex_encode bs) =
      word_of_int (strtol_hex (hex_byte b)) # hex_to_bytes (hex_encode bs)"
    by (metis append_Cons append_Nil hex_to_bytes.simps(1))
  with Cons show ?case by (simp add: strtol_hex_byte)
qed simp

section \<open>Walking the levels\<close>

text \<open>One level from the one below; a last node without a right neighbour is its own neighbour.\<close>

fun next_level :: "('h \<Rightarrow> 'h \<Rightarrow> 'h) \<Rightarrow> 'h list \<Rightarrow> 'h list" where
  "next_level comb [] = []"
| "next_level comb [left] = [comb left left]"
| "next_level comb (left # right # rest) = comb left right # next_level comb rest"

lemma length_next_level [simp]: "length (next_level comb xs) = (length xs + 1) div 2"
  by (induction comb xs rule: next_level.induct) auto

function build_levels :: "('h \<Rightarrow> 'h \<Rightarrow> 'h) \<Rightarrow> 'h list \<Rightarrow> 'h list list" where
  "build_levels comb level =
     (if length level > 1 then level # build_levels comb (next_level comb level) else [level])"
  by pat_completeness auto
termination by (relation "measure (length \<circ> snd)") auto

function tree_loop :: "('h \<Rightarrow> 'h \<Rightarrow> 'h) \<Rightarrow> 'h list \<Rightarrow> 'h" where
  "tree_loop comb level =
     (if length level > 1 then tree_loop comb (next_level comb level) else hd level)"
  by pat_completeness auto
termination by (relation "measure (length \<circ> snd)") auto

declare build_levels.simps [simp del] tree_loop.simps [simp del]

section \<open>The tree with proofs\<close>

record mermai_merkle_proof_step =
  step_hash :: string
  is_right :: bool

record mermai_merkle_proof =
  leaf_hash :: string
  proof_steps :: "mermai_merkle_proof_step list"

record mermai_merkle_tree =
  levels :: "string list list"

definition hash_leaf :: "'k openssl \<Rightarrow> string \<Rightarrow> string" where
  "hash_leaf ossl data = sha256_hex ossl (bytes_of_chars data)"

definition hash_pair :: "'k openssl \<Rightarrow> string \<Rightarrow> string \<Rightarrow> string" where
  "hash_pair ossl left_hex right_hex =
     sha256_hex ossl (hex_to_bytes left_hex @ hex_to_bytes right_hex)"

definition build :: "'k openssl \<Rightarrow> string list \<Rightarrow> mermai_merkle_tree" where
  "build ossl leaf_hashes =
     \<lparr>levels = (if leaf_hashes = [] then [[sha256_hex ossl []]]
               else build_levels (hash_pair ossl) leaf_hashes)\<rparr>"

definition get_root :: "mermai_merkle_tree \<Rightarrow> string" where
  "get_root t =
     (if levels t = [] then [] else case last (levels t) of [] \<Rightarrow> [] | h # _ \<Rightarrow> h)"

definition get_leaf_count :: "mermai_merkle_tree \<Rightarrow> nat" where
  "get_leaf_count t = (case levels t of [] \<Rightarrow> 0 | l # _ \<Rightarrow> length l)"

definition get_leaf :: "mermai_merkle_tree \<Rightarrow> nat \<Rightarrow> string" where
  "get_leaf t index =
     (case levels t of [] \<Rightarrow> [] | l # _ \<Rightarrow> if index \<ge> length l then [] else l ! index)"

definition make_step :: "string list \<Rightarrow> nat \<Rightarrow> mermai_merkle_proof_step" where
  "make_step current_level index =
     (let is_right_child = index mod 2 \<noteq> 0;
          sibling_index = (if is_right_child then index - 1 else index + 1)
      in \<lparr>step_hash = (if sibling_index < length current_level then current_level ! sibling_index
                       else current_level ! index),
          is_right = \<not> is_right_child\<rparr>)"

fun make_steps :: "string list list \<Rightarrow> nat \<Rightarrow> mermai_merkle_proof_step list" where
  "make_steps (current_level # upper # rest) index =
     make_step current_level index # make_steps (upper # rest) (index div 2)"
| "make_steps _ index = []"

definition generate_proof :: "mermai_merkle_tree \<Rightarrow> nat \<Rightarrow> mermai_merkle_proof" where
  "generate_proof t leaf_index =
     (if levels t = [] \<or> leaf_index \<ge> length (hd (levels t)) then \<lparr>leaf_hash = [], proof_steps = []\<rparr>
      else \<lparr>leaf_hash = hd (levels t) ! leaf_index, proof_steps = make_steps (levels t) leaf_index\<rparr>)"

definition proof_step :: "(string \<Rightarrow> string \<Rightarrow> string) \<Rightarrow> string \<Rightarrow> mermai_merkle_proof_step \<Rightarrow> string" where
  "proof_step comb current_hash s =
     (if is_right s then comb current_hash (step_hash s) else comb (step_hash s) current_hash)"

definition verify_proof :: "'k openssl \<Rightarrow> string \<Rightarrow> string \<Rightarrow> mermai_merkle_proof \<Rightarrow> bool" where
  "verify_proof ossl expected_root leaf prf \<longleftrightarrow>
     foldl (proof_step (hash_pair ossl)) leaf (proof_steps prf) = expected_root"

section \<open>The root a block carries\<close>

definition zero_hash :: string where
  "zero_hash = replicate 64 CHR ''0''"

definition hash_combine :: "'k openssl \<Rightarrow> string \<Rightarrow> string \<Rightarrow> string" where
  "hash_combine ossl left right = sha256_hex ossl (bytes_of_chars (left @ right))"

definition calculate_tree_hash :: "'k openssl \<Rightarrow> mermai_transaction list \<Rightarrow> string" where
  "calculate_tree_hash ossl txs =
     (if txs = [] then zero_hash else tree_loop (hash_combine ossl) (map (get_hash ossl) txs))"

definition verify_tree :: "'k openssl \<Rightarrow> mermai_transaction list \<Rightarrow> string \<Rightarrow> string" where
  "verify_tree ossl txs expected_root =
     (let calculated_root = calculate_tree_hash ossl txs
      in if calculated_root = expected_root then calculated_root else [])"

section \<open>Facts about the walk\<close>

lemma next_level_nth:
  "j < (length xs + 1) div 2 \<Longrightarrow>
     next_level comb xs ! j =
       comb (xs ! (2 * j)) (if 2 * j + 1 < length xs then xs ! (2 * j + 1) else xs ! (2 * j))"
proof (induction comb xs arbitrary: j rule: next_level.induct)
  case (3 comb left right rest)
  then show ?case by (cases j) auto
qed auto

lemma single_node [simp]: "build_levels comb [x] = [[x]]" "tree_loop comb [x] = x"
  by (simp_all add: build_levels.simps tree_loop.simps)

lemma build_levels_hd [simp]: "hd (build_levels comb xs) = xs"
  by (subst build_levels.simps) simp

lemma build_levels_not_Nil [simp]: "build_levels comb xs \<noteq> []"
  by (subst build_levels.simps) simp

lemma build_levels_Cons: "\<exists>ls. build_levels comb xs = xs # ls"
  by (metis build_levels_hd build_levels_not_Nil list.collapse)

lemma last_build_levels: "xs \<noteq> [] \<Longrightarrow> last (build_levels comb xs) = [tree_loop comb xs]"
proof (induction comb xs rule: build_levels.induct)
  case (1 comb xs)
  show ?case
  proof (cases "length xs > 1")
    case True
    then have "next_level comb xs \<noteq> []" by (simp flip: length_greater_0_conv)
    with True 1 show ?thesis
      by (simp add: build_levels.simps [of comb xs] tree_loop.simps [of comb xs])
  next
    case False
    with \<open>xs \<noteq> []\<close> show ?thesis
      by (cases xs) auto
  qed
qed

lemma make_step_next_level:
  assumes "i < length xs"
  shows "proof_step comb (xs ! i) (make_step xs i) = next_level comb xs ! (i div 2)"
proof -
  have "i div 2 < (length xs + 1) div 2" using assms by linarith
  note nth = next_level_nth [OF this, of comb]
  show ?thesis
  proof (cases "even i")
    case True
    then have "2 * (i div 2) = i" by simp
    with True assms show ?thesis by (auto simp: nth proof_step_def make_step_def Let_def even_iff_mod_2_eq_zero)
  next
    case False
    then have "2 * (i div 2) + 1 = i" by simp
    moreover from this have "2 * (i div 2) = i - 1" by linarith
    ultimately show ?thesis using False assms
      by (auto simp: nth proof_step_def make_step_def Let_def even_iff_mod_2_eq_zero)
  qed
qed

lemma make_steps_complete:
  "i < length xs \<Longrightarrow>
     foldl (proof_step comb) (xs ! i) (make_steps (build_levels comb xs) i) = tree_loop comb xs"
proof (induction comb xs arbitrary: i rule: build_levels.induct)
  case (1 comb xs)
  show ?case
  proof (cases "length xs > 1")
    case True
    obtain ls where ls: "build_levels comb (next_level comb xs) = next_level comb xs # ls"
      using build_levels_Cons by blast
    have "i div 2 < length (next_level comb xs)" using 1(2) by (simp add: less_mult_imp_div_less)
    from 1(1) [OF True this] True 1(2) make_step_next_level [OF 1(2), of comb] show ?thesis
      by (simp add: build_levels.simps [of comb xs] tree_loop.simps [of comb xs] ls)
  next
    case False
    with 1(2) show ?thesis
      by (cases xs) auto
  qed
qed

section \<open>The pairs a computation combines\<close>

text \<open>The pairs of nodes combined for one level, for the root of a tree, and along an inclusion proof.\<close>

fun level_pairs :: "'h list \<Rightarrow> ('h \<times> 'h) list" where
  "level_pairs [] = []"
| "level_pairs [x] = [(x, x)]"
| "level_pairs (x # y # zs) = (x, y) # level_pairs zs"

function tree_pairs :: "('h \<Rightarrow> 'h \<Rightarrow> 'h) \<Rightarrow> 'h list \<Rightarrow> ('h \<times> 'h) list" where
  "tree_pairs comb level =
     (if length level > 1 then level_pairs level @ tree_pairs comb (next_level comb level) else [])"
  by pat_completeness auto
termination by (relation "measure (length \<circ> snd)") auto

declare tree_pairs.simps [simp del]

fun path_pairs :: "(string \<Rightarrow> string \<Rightarrow> string) \<Rightarrow> string \<Rightarrow> mermai_merkle_proof_step list \<Rightarrow> (string \<times> string) list" where
  "path_pairs comb c [] = []"
| "path_pairs comb c (p # ps) =
     (if is_right p then (c, step_hash p) else (step_hash p, c)) # path_pairs comb (proof_step comb c p) ps"

lemma next_level_pairs: "next_level comb xs = map (\<lambda>(l, r). comb l r) (level_pairs xs)"
  by (induction xs rule: induct_list012) auto

lemma level_pairs_mem: "(l, r) \<in> set (level_pairs xs) \<Longrightarrow> l \<in> set xs \<and> r \<in> set xs"
  by (induction xs rule: induct_list012) auto

section \<open>What the proofs need of the combining function\<close>

text \<open>
  \<open>digest\<close> singles out the strings that are hashes, \<open>known\<close> the pairs that were combined, and \<open>broken\<close>
  stands for a failure of the hash function on these pairs (a collision): unless it is broken, a
  combined node is a hash, and of a known pair it determines each child that is one.
\<close>

locale merkle_hash =
  fixes comb :: "string \<Rightarrow> string \<Rightarrow> string"
    and digest :: "string \<Rightarrow> bool"
    and known :: "string \<Rightarrow> string \<Rightarrow> bool"
    and broken :: bool
  assumes comb_digest: "digest (comb a b) \<or> broken"
    and comb_left: "known c s \<Longrightarrow> known l r \<Longrightarrow> digest c \<Longrightarrow> digest l \<Longrightarrow> digest r \<Longrightarrow> comb c s = comb l r \<Longrightarrow> c = l \<or> broken"
    and comb_right: "known s c \<Longrightarrow> known l r \<Longrightarrow> digest c \<Longrightarrow> digest l \<Longrightarrow> digest r \<Longrightarrow> comb s c = comb l r \<Longrightarrow> c = r \<or> broken"
begin

definition level_known :: "string list \<Rightarrow> bool" where
  "level_known xs \<longleftrightarrow> (\<forall>(l, r) \<in> set (level_pairs xs). known l r)"

definition tree_known :: "string list \<Rightarrow> bool" where
  "tree_known xs \<longleftrightarrow> (\<forall>(l, r) \<in> set (tree_pairs comb xs). known l r)"

lemma tree_known_long: "length xs > 1 \<Longrightarrow> tree_known xs \<longleftrightarrow> level_known xs \<and> tree_known (next_level comb xs)"
  unfolding tree_known_def by (subst tree_pairs.simps) (auto simp: level_known_def)

lemma comb_inject:
  "known a b \<Longrightarrow> known c d \<Longrightarrow> digest a \<Longrightarrow> digest b \<Longrightarrow> digest c \<Longrightarrow> digest d \<Longrightarrow> comb a b = comb c d \<Longrightarrow>
     a = c \<and> b = d \<or> broken"
  using comb_left comb_right by metis

lemma next_level_digest: "list_all digest (next_level comb xs) \<or> broken"
  using comb_digest by (induction xs rule: induct_list012) auto

lemma next_level_set:
  "x \<in> set (next_level comb xs) \<Longrightarrow> level_known xs \<Longrightarrow> \<exists>l\<in>set xs. \<exists>r\<in>set xs. known l r \<and> x = comb l r"
  by (fastforce simp: next_level_pairs level_known_def dest: level_pairs_mem)

lemma next_level_mem:
  assumes "list_all digest xs" "level_known xs" "known a b" and "digest a" and "digest b" and "comb a b \<in> set (next_level comb xs)"
  shows "(a \<in> set xs \<and> b \<in> set xs) \<or> broken"
  using next_level_set [OF assms(6,2)] comb_inject assms(1,3-5) by (metis list_all_iff)

lemma next_level_distinct:
  "list_all digest xs \<Longrightarrow> level_known xs \<Longrightarrow> distinct xs \<Longrightarrow> distinct (next_level comb xs) \<or> broken"
  by (induction xs rule: induct_list012) (use next_level_mem in \<open>auto simp: level_known_def\<close>)

lemma next_level_inject:
  assumes "list_all digest xs" "list_all digest ys" "level_known xs" "level_known ys"
    and "length xs = length ys \<or> distinct xs \<and> distinct ys"
    and "next_level comb xs = next_level comb ys"
  shows "xs = ys \<or> broken"
  using assms
proof (induction xs arbitrary: ys rule: induct_list012)
  case 1
  then show ?case by (cases ys rule: remdups_adj.cases) auto
next
  case (2 x)
  then show ?case
  proof (cases ys rule: remdups_adj.cases)
    case 1
    with 2(6) show ?thesis by simp
  next
    case (2 u)
    with "2.prems" show ?thesis using comb_inject [of x x u u] by (auto simp: level_known_def)
  next
    case (3 u v us)
    with "2.prems" show ?thesis using comb_inject [of x x u v] by (cases us) (auto simp: level_known_def)
  qed
next
  case (3 x y zs)
  then show ?case
  proof (cases ys rule: remdups_adj.cases)
    case 1
    with 3(8) show ?thesis by simp
  next
    case (2 u)
    with 3 show ?thesis using comb_inject [of x y u u] by (auto simp: level_known_def)
  next
    case (3 u v us)
    with "3.prems" have "zs = us \<or> broken" by (intro "3.IH"(1)) (auto simp: level_known_def)
    with 3 "3.prems" show ?thesis using comb_inject [of x y u v] by (auto simp: level_known_def)
  qed
qed

text \<open>The number of levels of a tree depends on the number of leaves only.\<close>

definition depth :: "string list \<Rightarrow> nat" where
  "depth xs = length (build_levels comb xs)"

lemma depth_long: "length xs > 1 \<Longrightarrow> depth xs = Suc (depth (next_level comb xs))"
  unfolding depth_def by (subst build_levels.simps) simp

lemma depth_short: "length xs \<le> 1 \<Longrightarrow> depth xs = 1"
  unfolding depth_def by (subst build_levels.simps) simp

lemma depth_long_iff: "depth xs > 1 \<longleftrightarrow> length xs > 1"
  using depth_long [of xs] depth_short [of xs]
  by (metis Suc_lessI depth_def build_levels_not_Nil length_greater_0_conv less_irrefl not_less zero_less_Suc
      Suc_less_eq One_nat_def)

lemma tree_loop_long: "length xs > 1 \<Longrightarrow> tree_loop comb xs = tree_loop comb (next_level comb xs)"
  by (subst tree_loop.simps) simp

lemma next_level_not_Nil: "xs \<noteq> [] \<Longrightarrow> next_level comb xs \<noteq> []"
  by (cases xs rule: remdups_adj.cases) auto

lemma equal_length_depth: "length xs = length ys \<Longrightarrow> depth xs = depth ys"
proof (induction "length xs" arbitrary: xs ys rule: less_induct)
  case less
  show ?case
  proof (cases "length xs > 1")
    case True
    then have "depth (next_level comb xs) = depth (next_level comb ys)"
      using less(2) by (intro less(1)) auto
    with True less(2) show ?thesis by (simp add: depth_long)
  qed (use less in \<open>simp add: depth_short\<close>)
qed

text \<open>Two trees of the same depth with the same root have the same leaves, when they have equally
  many leaves or no leaf occurs twice.\<close>

lemma same_depth_root:
  assumes "list_all digest xs" "list_all digest ys" "xs \<noteq> []" "ys \<noteq> []" "tree_known xs" "tree_known ys"
    and "length xs = length ys \<or> distinct xs \<and> distinct ys"
    and "depth xs = depth ys" and "tree_loop comb xs = tree_loop comb ys"
  shows "xs = ys \<or> broken"
  using assms
proof (induction "length xs" arbitrary: xs ys rule: less_induct)
  case less
  show ?case
  proof (cases "length xs > 1 \<and> \<not> broken")
    case True
    then have ys: "length ys > 1" using less(9) depth_long_iff [of xs] depth_long_iff [of ys] by simp
    let ?n = "next_level comb"
    have k: "level_known xs" "level_known ys" "tree_known (?n xs)" "tree_known (?n ys)"
      using less(6,7) True ys by (simp_all add: tree_known_long)
    have "?n xs = ?n ys \<or> broken"
    proof (rule less(1))
      show "length (?n xs) < length xs" using True by simp linarith
      show "list_all digest (?n xs)" "list_all digest (?n ys)" using True next_level_digest by auto
      show "length (?n xs) = length (?n ys) \<or> distinct (?n xs) \<and> distinct (?n ys)"
        using less(8) True next_level_distinct [OF less(2) k(1)] next_level_distinct [OF less(3) k(2)] by auto
      show "depth (?n xs) = depth (?n ys)" using True ys less(9) by (simp add: depth_long)
      show "tree_loop comb (?n xs) = tree_loop comb (?n ys)"
        using True ys less(10) by (simp add: tree_loop_long)
    qed (use less next_level_not_Nil k in auto)
    then show ?thesis using True next_level_inject [OF less(2,3) k(1,2) less(8)] by blast
  next
    case False
    then have "length ys \<le> 1" if "\<not> broken"
      using that less(9) depth_long_iff [of xs] depth_long_iff [of ys] by simp
    with False less(4,5,10) show ?thesis
      by (cases xs; cases ys) auto
  qed
qed

text \<open>A level of the taller of two trees that is as high as the other tree.\<close>

lemma level_of_depth:
  assumes "list_all digest ys" "distinct ys" "tree_known ys" "n < depth ys" "0 < n"
  shows "\<exists>zs ws. zs = next_level comb ws \<and> ws \<noteq> [] \<and> list_all digest ws \<and> level_known ws \<and> tree_known zs \<and>
    depth zs = n \<and> tree_loop comb zs = tree_loop comb ys \<and> distinct zs \<and> list_all digest zs \<or> broken"
  using assms
proof (induction "depth ys - n" arbitrary: ys)
  case (Suc k)
  from Suc.prems have long: "length ys > 1" using depth_long_iff [of ys] by simp
  let ?ys = "next_level comb ys"
  have d: "depth ys = Suc (depth ?ys)" using long by (rule depth_long)
  have known: "level_known ys" "tree_known ?ys" using Suc.prems(3) long by (simp_all add: tree_known_long)
  have step: "list_all digest ?ys \<or> broken" "distinct ?ys \<or> broken"
    using next_level_digest next_level_distinct Suc.prems known by auto
  have ne: "ys \<noteq> []" using long by auto
  show ?case
  proof (cases "n = depth ?ys")
    case True
    with step ne Suc.prems known long show ?thesis by (metis tree_loop_long)
  next
    case False
    with Suc.prems d have "n < depth ?ys" by simp
    with Suc.hyps(1) [of ?ys] Suc.hyps(2) Suc.prems step known d show ?thesis
      by (metis Suc_diff_le Suc_inject less_imp_le_nat tree_loop_long [OF long])
  qed
qed simp

text \<open>If no leaf is itself a combined node, equal roots mean equal depth.\<close>

lemma root_binding_distinct:
  assumes "list_all digest xs" "list_all digest ys" "xs \<noteq> []" "ys \<noteq> []" "distinct xs" "distinct ys"
    and "tree_known xs" "tree_known ys"
    and leaf: "\<And>x a b. x \<in> set xs \<union> set ys \<Longrightarrow> digest a \<Longrightarrow> digest b \<Longrightarrow> known a b \<Longrightarrow> x = comb a b \<Longrightarrow> broken"
    and root: "tree_loop comb xs = tree_loop comb ys"
  shows "xs = ys \<or> broken"
proof -
  have taller: broken
    if "list_all digest us" "us \<noteq> []" "distinct us" "list_all digest vs" "distinct vs" "tree_known us" "tree_known vs"
      "depth us < depth vs" "tree_loop comb us = tree_loop comb vs" "set us \<subseteq> set xs \<union> set ys"
    for us vs
  proof (rule ccontr)
    assume nb: "\<not> broken"
    have "0 < depth us" by (simp add: depth_def)
    with level_of_depth [OF that(4,5,7,8)] nb obtain zs ws where zs: "zs = next_level comb ws"
      "ws \<noteq> []" "list_all digest ws" "depth zs = depth us" "tree_loop comb zs = tree_loop comb vs"
      "distinct zs" "list_all digest zs" "level_known ws" "tree_known zs" by blast
    have "us = zs"
      using same_depth_root [OF that(1) zs(7) that(2) _ that(6) zs(9)] zs next_level_not_Nil [OF zs(2)] that(3,9) nb by auto
    with zs that(2) obtain z where "z \<in> set us" "z \<in> set (next_level comb ws)"
      by (metis list.set_intros(1) neq_Nil_conv)
    with next_level_set [OF _ zs(8)] zs(3) leaf that(10) nb show False by (metis list_all_iff subsetD)
  qed
  consider "depth xs = depth ys" | "depth xs < depth ys" | "depth ys < depth xs" by linarith
  then show ?thesis
    by cases (use same_depth_root taller assms in auto)
qed

lemma root_is_combined:
  assumes "list_all digest xs" "length xs > 1" "tree_known xs"
  shows "(\<exists>l r. digest l \<and> digest r \<and> known l r \<and> tree_loop comb xs = comb l r) \<or> broken"
  using assms
proof (induction "length xs" arbitrary: xs rule: less_induct)
  case less
  have k: "level_known xs" "tree_known (next_level comb xs)" using less(3,4) by (simp_all add: tree_known_long)
  show ?case
  proof (cases "length (next_level comb xs) > 1")
    case True
    have "length (next_level comb xs) < length xs" using less(3) by simp
    from less(1) [OF this _ True k(2)] less(3) next_level_digest show ?thesis
      by (auto simp: tree_loop_long)
  next
    case False
    with less(3) have "length xs = 2" by simp
    then obtain l r where "xs = [l, r]" by (metis (no_types) length_Suc_conv length_0_conv numeral_2_eq_2)
    with less(2) k(1) show ?thesis by (auto simp: tree_loop_long level_known_def)
  qed
qed

text \<open>Proof checking: from the top down, each step pins one node of the level.\<close>

lemma proof_sound:
  assumes "list_all digest xs" "xs \<noteq> []" "digest c" "Suc (length ps) = depth xs" "tree_known xs"
    and "\<forall>(l, r) \<in> set (path_pairs comb c ps). known l r"
    and "foldl (proof_step comb) c ps = tree_loop comb xs"
  shows "c \<in> set xs \<or> broken"
  using assms
proof (induction ps arbitrary: xs c)
  case Nil
  then have "length xs \<le> 1" using depth_long_iff [of xs] by simp
  with Nil show ?case by (cases xs) auto
next
  case (Cons p ps)
  then have long: "length xs > 1" using depth_long_iff [of xs] by simp
  then have k: "level_known xs" "tree_known (next_level comb xs)" using Cons.prems(5) by (simp_all add: tree_known_long)
  have "digest (proof_step comb c p) \<or> broken" using comb_digest by (simp add: proof_step_def)
  moreover have "proof_step comb c p \<in> set (next_level comb xs) \<or> broken"
    if "digest (proof_step comb c p)" "\<not> broken"
    using Cons.prems long that next_level_digest next_level_not_Nil k
    by (intro Cons.IH) (auto simp: depth_long tree_loop_long)
  ultimately consider broken | l r where "l \<in> set xs" "r \<in> set xs" "known l r" "proof_step comb c p = comb l r"
    using next_level_set [OF _ k(1)] by metis
  then show ?case
  proof cases
    case 2
    then have "digest l" "digest r" using Cons.prems(1) by (auto simp: list_all_iff)
    with 2 Cons.prems(3,6) comb_left [of c "step_hash p" l r] comb_right [of "step_hash p" c l r] show ?thesis
      by (auto simp: proof_step_def split: if_splits)
  qed simp
qed

end

section \<open>Both combining functions satisfy it\<close>

definition is_digest :: "string \<Rightarrow> bool" where
  "is_digest h \<longleftrightarrow> (\<exists>bs. length bs = 32 \<and> h = hex_encode bs)"

text \<open>\<open>S\<close> holds the byte strings that were hashed; the hash function fails on them if two of them clash.\<close>

definition sha_broken :: "'k openssl \<Rightarrow> bytes set \<Rightarrow> bool" where
  "sha_broken ossl S \<longleftrightarrow> sha_clash ossl S \<or> \<not> sha_length ossl"

lemma sha256_hex_digest: "is_digest (sha256_hex ossl x) \<or> sha_broken ossl S"
  by (auto simp: is_digest_def sha256_hex_def sha_broken_def sha_length_def)

lemma is_digest_length: "is_digest h \<Longrightarrow> length h = 64"
  by (auto simp: is_digest_def)

lemma is_digest_bytes: "is_digest h \<Longrightarrow> length (hex_to_bytes h) = 32"
  by (auto simp: is_digest_def)

lemma is_digest_bytes_inject: "is_digest g \<Longrightarrow> is_digest h \<Longrightarrow> hex_to_bytes g = hex_to_bytes h \<Longrightarrow> g = h"
  by (auto simp: is_digest_def)

lemma sha256_hex_inject: "sha256_hex ossl x = sha256_hex ossl y \<Longrightarrow> x \<in> S \<Longrightarrow> y \<in> S \<Longrightarrow> x = y \<or> sha_broken ossl S"
  by (auto simp: sha_broken_def intro: sha_clashI)

lemma append_parts:
  "length a = length c \<Longrightarrow> a @ b = c @ d \<Longrightarrow> a = c" "length b = length d \<Longrightarrow> a @ b = c @ d \<Longrightarrow> b = d"
  by auto

abbreviation pair_input :: "string \<Rightarrow> string \<Rightarrow> bytes" where
  "pair_input l r \<equiv> hex_to_bytes l @ hex_to_bytes r"

abbreviation text_input :: "string \<Rightarrow> string \<Rightarrow> bytes" where
  "text_input l r \<equiv> bytes_of_chars l @ bytes_of_chars r"

lemma hash_combine_input: "hash_combine ossl l r = sha256_hex ossl (text_input l r)"
  by (simp add: hash_combine_def)

text \<open>All pairs combined for the root of a tree are among the hashed byte strings.\<close>

abbreviation pair_known :: "'k openssl \<Rightarrow> bytes set \<Rightarrow> string list \<Rightarrow> bool" where
  "pair_known ossl S \<equiv> merkle_hash.tree_known (hash_pair ossl) (\<lambda>l r. pair_input l r \<in> S)"

abbreviation text_known :: "'k openssl \<Rightarrow> bytes set \<Rightarrow> string list \<Rightarrow> bool" where
  "text_known ossl S \<equiv> merkle_hash.tree_known (hash_combine ossl) (\<lambda>l r. text_input l r \<in> S)"

interpretation pair_tree: merkle_hash "hash_pair ossl" is_digest "\<lambda>l r. pair_input l r \<in> S" "sha_broken ossl S" for ossl S
proof
  show "is_digest (hash_pair ossl a b) \<or> sha_broken ossl S" for a b
    unfolding hash_pair_def by (rule sha256_hex_digest)
  show "c = l \<or> sha_broken ossl S"
    if "pair_input c s \<in> S" "pair_input l r \<in> S" "is_digest c" "is_digest l" "is_digest r" "hash_pair ossl c s = hash_pair ossl l r" for c l r s
    using sha256_hex_inject [OF that(6) [unfolded hash_pair_def] that(1,2)] is_digest_bytes_inject [OF that(3,4)]
      is_digest_bytes [OF that(3)] is_digest_bytes [OF that(4)] append_parts(1) by metis
  show "c = r \<or> sha_broken ossl S"
    if "pair_input s c \<in> S" "pair_input l r \<in> S" "is_digest c" "is_digest l" "is_digest r" "hash_pair ossl s c = hash_pair ossl l r" for c l r s
    using sha256_hex_inject [OF that(6) [unfolded hash_pair_def] that(1,2)] is_digest_bytes_inject [OF that(3,5)]
      is_digest_bytes [OF that(3)] is_digest_bytes [OF that(5)] append_parts(2) by metis
qed

interpretation text_tree: merkle_hash "hash_combine ossl" is_digest "\<lambda>l r. text_input l r \<in> S" "sha_broken ossl S" for ossl S
proof
  show "is_digest (hash_combine ossl a b) \<or> sha_broken ossl S" for a b
    unfolding hash_combine_input by (rule sha256_hex_digest)
  have cat: "a @ b = c @ d \<or> sha_broken ossl S"
    if "text_input a b \<in> S" "text_input c d \<in> S" "hash_combine ossl a b = hash_combine ossl c d" for a b c d
    using sha256_hex_inject [OF that(3) [unfolded hash_combine_input] that(1,2)] by (metis bytes_of_chars_inject map_append)
  show "c = l \<or> sha_broken ossl S"
    if "text_input c s \<in> S" "text_input l r \<in> S" "is_digest c" "is_digest l" "is_digest r"
      "hash_combine ossl c s = hash_combine ossl l r" for c l r s
    using cat [OF that(1,2,6)] is_digest_length that append_parts(1) by metis
  show "c = r \<or> sha_broken ossl S"
    if "text_input s c \<in> S" "text_input l r \<in> S" "is_digest c" "is_digest l" "is_digest r"
      "hash_combine ossl s c = hash_combine ossl l r" for c l r s
    using cat [OF that(1,2,6)] is_digest_length that append_parts(2) by metis
qed

section \<open>Inclusion proofs\<close>

lemma levels_build: "xs \<noteq> [] \<Longrightarrow> levels (build ossl xs) = build_levels (hash_pair ossl) xs"
  by (simp add: build_def)

lemma get_root_build: "xs \<noteq> [] \<Longrightarrow> get_root (build ossl xs) = tree_loop (hash_pair ossl) xs"
  by (simp add: get_root_def levels_build last_build_levels)

text \<open>C37: The proof generated for any leaf of a tree is accepted against the root of that tree,
  whatever the number of leaves and whatever the leaf strings are.\<close>
theorem generated_proof_verifies:
  assumes "i < get_leaf_count (build ossl leaf_hashes)"
  shows "verify_proof ossl (get_root (build ossl leaf_hashes)) (get_leaf (build ossl leaf_hashes) i)
    (generate_proof (build ossl leaf_hashes) i)"
proof (cases "leaf_hashes = []")
  case True
  then show ?thesis using assms
    by (simp add: verify_proof_def generate_proof_def build_def get_leaf_count_def get_leaf_def get_root_def)
next
  case False
  obtain ls where ls: "build_levels (hash_pair ossl) leaf_hashes = leaf_hashes # ls"
    using build_levels_Cons by blast
  with assms False have i: "i < length leaf_hashes"
    by (simp add: get_leaf_count_def levels_build)
  have "get_leaf (build ossl leaf_hashes) i = leaf_hashes ! i"
    using i ls by (simp add: get_leaf_def levels_build [OF False])
  moreover have "proof_steps (generate_proof (build ossl leaf_hashes) i) =
      make_steps (build_levels (hash_pair ossl) leaf_hashes) i"
    using i by (simp add: generate_proof_def levels_build [OF False])
  ultimately show ?thesis using make_steps_complete [OF i, of "hash_pair ossl"]
    by (simp add: verify_proof_def get_root_build [OF False])
qed

lemma generated_proof_verifies_witness:
  "verify_proof toy_ossl (get_root (build toy_ossl [''aa'', ''bb'', ''cc''])) ''cc''
     (generate_proof (build toy_ossl [''aa'', ''bb'', ''cc'']) 2)"
proof -
  have "get_leaf_count (build toy_ossl [''aa'', ''bb'', ''cc'']) = 3"
    "get_leaf (build toy_ossl [''aa'', ''bb'', ''cc'']) 2 = ''cc''"
    by (simp_all add: get_leaf_count_def get_leaf_def levels_build build_levels.simps)
  with generated_proof_verifies [of 2 toy_ossl "[''aa'', ''bb'', ''cc'']"] show ?thesis by simp
qed

text \<open>The byte strings hashed for the root of a tree, and when a proof is checked.\<close>

definition tree_inputs :: "'k openssl \<Rightarrow> string list \<Rightarrow> bytes set" where
  "tree_inputs ossl xs = (\<lambda>(l, r). pair_input l r) ` set (tree_pairs (hash_pair ossl) xs)"

definition proof_inputs :: "'k openssl \<Rightarrow> string \<Rightarrow> mermai_merkle_proof \<Rightarrow> bytes set" where
  "proof_inputs ossl leaf prf = (\<lambda>(l, r). pair_input l r) ` set (path_pairs (hash_pair ossl) leaf (proof_steps prf))"

lemma tree_inputs_known: "tree_inputs ossl xs \<subseteq> S \<Longrightarrow> pair_known ossl S xs"
  by (auto simp: pair_tree.tree_known_def tree_inputs_def image_subset_iff)

text \<open>C10: Inclusion proofs are sound: if a proof with one step per level below the root is accepted
  against the root of a tree over hashes, for a value that is itself a hash, then that value is a
  leaf of the tree, or two of the byte strings hashed for the tree and for the proof are a SHA-256
  collision.\<close>
theorem accepted_proof_sound:
  assumes "sha_length ossl"
    and "leaf_hashes \<noteq> []" "list_all is_digest leaf_hashes" "is_digest leaf"
    and "Suc (length (proof_steps prf)) = length (levels (build ossl leaf_hashes))"
    and "verify_proof ossl (get_root (build ossl leaf_hashes)) leaf prf"
  shows "leaf \<in> set leaf_hashes \<or> sha_clash ossl (tree_inputs ossl leaf_hashes \<union> proof_inputs ossl leaf prf)"
proof -
  let ?S = "tree_inputs ossl leaf_hashes \<union> proof_inputs ossl leaf prf"
  have "pair_known ossl ?S leaf_hashes" by (rule tree_inputs_known) simp
  moreover have "\<forall>(l, r) \<in> set (path_pairs (hash_pair ossl) leaf (proof_steps prf)). pair_input l r \<in> ?S"
    by (auto simp: proof_inputs_def)
  ultimately show ?thesis
    using pair_tree.proof_sound [OF assms(3,2,4), of "proof_steps prf" ossl ?S] assms
    by (auto simp: pair_tree.depth_def levels_build verify_proof_def get_root_build sha_broken_def)
qed

lemma accepted_proof_sound_witness:
  "hex_encode (replicate 32 7) \<in> set [hex_encode (replicate 32 7), hex_encode (replicate 32 9)] \<or>
   sha_clash toy_ossl (tree_inputs toy_ossl [hex_encode (replicate 32 7), hex_encode (replicate 32 9)] \<union>
     proof_inputs toy_ossl (hex_encode (replicate 32 7))
       (generate_proof (build toy_ossl [hex_encode (replicate 32 7), hex_encode (replicate 32 9)]) 0))"
proof (rule accepted_proof_sound)
  let ?xs = "[hex_encode (replicate 32 7), hex_encode (replicate 32 9)]"
  have two: "levels (build toy_ossl ?xs) = [?xs, [hash_pair toy_ossl (?xs ! 0) (?xs ! 1)]]"
    by (simp add: levels_build build_levels.simps)
  show "Suc (length (proof_steps (generate_proof (build toy_ossl ?xs) 0))) =
      length (levels (build toy_ossl ?xs))"
    by (simp add: generate_proof_def two)
  show "verify_proof toy_ossl (get_root (build toy_ossl ?xs)) (hex_encode (replicate 32 7))
      (generate_proof (build toy_ossl ?xs) 0)"
    by (simp add: verify_proof_def generate_proof_def get_root_def two make_step_def proof_step_def)
qed (auto simp: is_digest_def)

section \<open>The block root commits to the transactions\<close>

lemma get_hash_digest: "is_digest (get_hash ossl tx) \<or> sha_broken ossl S"
  using sha256_hex_digest [of ossl "bytes_of_chars (serialize_tx tx)"]
  by (simp add: get_hash_def sha256_hex_def)

lemma get_hash_inject:
  assumes "tx_ok t" "tx_ok u" "get_hash ossl t = get_hash ossl u"
    and "bytes_of_chars (serialize_tx t) \<in> S" "bytes_of_chars (serialize_tx u) \<in> S"
  shows "t = u \<or> sha_broken ossl S"
proof -
  have "serialize_tx t = serialize_tx u \<or> sha_broken ossl S"
    using assms(3) sha256_hex_inject [OF _ assms(4,5), of ossl]
    by (simp add: get_hash_def sha256_hex_def bytes_of_chars_inject)
  with assms(1,2) deserialize_tx_iff show ?thesis by (metis Inr_inject)
qed

text \<open>A serialised transaction begins with the length of its id, whose first byte is zero, so it is
  never the text of two hashes.\<close>

lemma serialize_tx_hd:
  assumes "tx_ok tx"
  shows "serialize_tx tx \<noteq> [] \<and> hd (serialize_tx tx) = char_of_byte 0"
proof -
  have l: "length (tx_id tx) \<le> 65536"
    using assms by (simp add: tx_ok_def string_ok_def serial_limits)
  have "be_byte 4 (of_nat (length (tx_id tx)) :: u32) 0 = 0"
  proof -
    have "unat (drop_bit 24 (of_nat (length (tx_id tx)) :: u32)) = 0"
      using l unat_of_nat_u32 [of "length (tx_id tx)"] 
      by (simp add: drop_bit_eq_div unat_div)
    then have "drop_bit 24 (of_nat (length (tx_id tx)) :: u32) = 0" by (simp only: unat_eq_zero)
    then show ?thesis by (simp add: be_byte_eq)
  qed
  then show ?thesis
    by (simp add: serialize_tx_def write_string_def write_value_def upt_rec hd_append)
qed

lemma get_hash_not_combined:
  assumes "tx_ok tx" "is_digest a" "is_digest b" "get_hash ossl tx = hash_combine ossl a b"
    and "bytes_of_chars (serialize_tx tx) \<in> S" "text_input a b \<in> S"
  shows "sha_broken ossl S"
proof (rule ccontr)
  assume "\<not> sha_broken ossl S"
  then have "serialize_tx tx = a @ b"
    using assms(4) sha256_hex_inject [OF _ assms(5,6), of ossl]
    by (auto simp: get_hash_def sha256_hex_def hash_combine_def bytes_of_chars_inject simp flip: map_append)
  with serialize_tx_hd [OF assms(1)] have "hd (a @ b) = char_of_byte 0" by simp
  moreover obtain bs where "length bs = 32" "a = hex_encode bs"
    using assms(2) by (auto simp: is_digest_def)
  ultimately show False
    using hex_digit_nonzero [OF hex_byte_nibbles(1)] by (cases bs) (auto simp: hex_byte_def)
qed

text \<open>The byte strings hashed for the root of a block.\<close>

definition root_inputs :: "'k openssl \<Rightarrow> mermai_transaction list \<Rightarrow> bytes set" where
  "root_inputs ossl txs = (\<lambda>t. bytes_of_chars (serialize_tx t)) ` set txs \<union>
     (\<lambda>(l, r). text_input l r) ` set (tree_pairs (hash_combine ossl) (map (get_hash ossl) txs))"

lemma root_inputs_known:
  "root_inputs ossl txs \<subseteq> S \<Longrightarrow> text_known ossl S (map (get_hash ossl) txs)"
  "root_inputs ossl txs \<subseteq> S \<Longrightarrow> t \<in> set txs \<Longrightarrow> bytes_of_chars (serialize_tx t) \<in> S"
  by (auto simp: text_tree.tree_known_def root_inputs_def image_subset_iff)

text \<open>C9: The Merkle root of a block commits to its transactions: two non-empty lists of
  transactions within the wire limits, neither with a repeated id, that have the same root are the
  same list, or two of the byte strings hashed for the two roots are a SHA-256 collision. In
  particular the duplication of the last node of an odd level cannot be used to present another list
  under the same root.\<close>
theorem merkle_root_commits:
  assumes "sha_length ossl" and "txs \<noteq> []" "txs' \<noteq> []"
    and "list_all tx_ok txs" "list_all tx_ok txs'"
    and "distinct (map tx_id txs)" "distinct (map tx_id txs')"
    and "calculate_tree_hash ossl txs = calculate_tree_hash ossl txs'"
  shows "txs = txs' \<or> sha_clash ossl (root_inputs ossl txs \<union> root_inputs ossl txs')"
proof -
  let ?h = "map (get_hash ossl)"
  define S where "S = root_inputs ossl txs \<union> root_inputs ossl txs'"
  then have sub: "root_inputs ossl txs \<subseteq> S" "root_inputs ossl txs' \<subseteq> S" by auto
  have known: "text_known ossl S (?h txs)" "text_known ossl S (?h txs')"
    using sub by (simp_all add: root_inputs_known(1))
  have t: "tx_ok t \<and> bytes_of_chars (serialize_tx t) \<in> S" if "t \<in> set txs \<union> set txs'" for t
    using that assms(4,5) root_inputs_known(2) sub by (auto simp: list_all_iff)
  have inj: "inj_on (get_hash ossl) (set txs \<union> set txs') \<or> sha_broken ossl S"
  proof (cases "sha_broken ossl S")
    case False
    then show ?thesis using get_hash_inject [of _ _ ossl S] t by (blast intro: inj_onI)
  qed simp
  have "?h txs = ?h txs' \<or> sha_broken ossl S"
  proof (cases "sha_broken ossl S")
    case False
    show ?thesis
    proof (rule text_tree.root_binding_distinct)
      show "list_all is_digest (?h txs)" "list_all is_digest (?h txs')"
        using False get_hash_digest by (auto simp: list_all_iff)
      have "distinct txs" "distinct txs'" using assms(6,7) by (simp_all add: distinct_map)
      then show "distinct (?h txs)" "distinct (?h txs')"
        using False inj by (auto simp: distinct_map inj_on_Un)
      show "tree_loop (hash_combine ossl) (?h txs) = tree_loop (hash_combine ossl) (?h txs')"
        using assms(2,3,8) by (simp add: calculate_tree_hash_def)
      show "sha_broken ossl S" if "x \<in> set (?h txs) \<union> set (?h txs')" "is_digest a" "is_digest b"
        "text_input a b \<in> S" "x = hash_combine ossl a b" for x a b
      proof -
        have "x \<in> get_hash ossl ` (set txs \<union> set txs')" using that(1) by (simp add: image_Un)
        then obtain u where "u \<in> set txs \<union> set txs'" and u: "x = get_hash ossl u" by blast
        with t have "tx_ok u" "bytes_of_chars (serialize_tx u) \<in> S" by blast+
        then show ?thesis using get_hash_not_combined that(2-4) that(5) [unfolded u] by blast
      qed
    qed (use assms(2,3) in simp_all, rule known(1), rule known(2))
  qed simp
  with inj have "txs = txs' \<or> sha_broken ossl S" using inj_on_map_eq_map by blast
  with assms(1) show ?thesis by (simp add: sha_broken_def S_def)
qed

text \<open>
  Two blocks of three transactions that differ in the last two. The digest of the concrete instance keeps only
  a prefix of its input, so that both have the same root, and the theorem yields a collision
  among the strings hashed on the way.
\<close>

definition id_tx :: "string \<Rightarrow> mermai_transaction" where
  "id_tx i = default_transaction\<lparr>tx_id := i\<rparr>"

lemma toy_hash_combine:
  "31 \<le> length a \<Longrightarrow> length b = length b' \<Longrightarrow> hash_combine toy_ossl a b = hash_combine toy_ossl a b'"
  by (simp add: hash_combine_def sha256_hex_def toy_ossl_def)

lemma toy_same_root:
  "calculate_tree_hash toy_ossl (map id_tx [''a'', ''b'', ''c'']) =
   calculate_tree_hash toy_ossl (map id_tx [''a'', ''d'', ''e''])"
proof -
  let ?h = "\<lambda>i. get_hash toy_ossl (id_tx i)" and ?f = "hash_combine toy_ossl"
  have l: "length (?h i) = 64" "length (?f a b) = 64" for i a b
    by (simp_all add: get_hash_def hash_combine_def sha256_hex_def toy_ossl_def)
  have "?f (?h ''a'') (?h ''b'') = ?f (?h ''a'') (?h ''d'')" by (rule toy_hash_combine) (simp_all add: l)
  moreover have "?f x (?f y y') = ?f x (?f z z')" if "length x = 64" for x y y' z z'
    by (rule toy_hash_combine) (simp_all add: l that)
  ultimately show ?thesis using l by (simp add: calculate_tree_hash_def tree_loop.simps)
qed

lemma merkle_root_commits_witness:
  "map id_tx [''a'', ''b'', ''c''] \<noteq> map id_tx [''a'', ''d'', ''e''] \<and>
   sha_clash toy_ossl (root_inputs toy_ossl (map id_tx [''a'', ''b'', ''c'']) \<union>
     root_inputs toy_ossl (map id_tx [''a'', ''d'', ''e'']))"
proof -
  let ?xs = "map id_tx [''a'', ''b'', ''c'']" and ?ys = "map id_tx [''a'', ''d'', ''e'']"
  have "list_all tx_ok ?xs" "list_all tx_ok ?ys"
    by (simp_all add: id_tx_def tx_ok_def default_transaction_def string_ok_def serial_limits)
  moreover have d: "?xs \<noteq> ?ys" "distinct (map tx_id ?xs)" "distinct (map tx_id ?ys)"
    by (simp_all add: id_tx_def default_transaction_def)
  ultimately show ?thesis using merkle_root_commits [of toy_ossl ?xs ?ys] toy_same_root by auto
qed

text \<open>The root a block carries is never the root of the proof tree over the same transaction
  hashes once there are two transactions (the nodes are combined through different encodings), so
  no inclusion proof of the proof tree can be accepted for such a block, short of a collision among
  the byte strings hashed for the two.\<close>
theorem block_root_not_tree_root:
  assumes "sha_length ossl" "length txs > 1"
  shows "calculate_tree_hash ossl txs \<noteq> get_root (build ossl (map (get_hash ossl) txs)) \<or>
    sha_clash ossl (root_inputs ossl txs \<union> tree_inputs ossl (map (get_hash ossl) txs))"
proof -
  let ?xs = "map (get_hash ossl) txs"
  define S where "S = root_inputs ossl txs \<union> tree_inputs ossl ?xs"
  have known: "text_known ossl S ?xs" "pair_known ossl S ?xs"
    by (rule root_inputs_known(1), simp add: S_def) (rule tree_inputs_known, simp add: S_def)
  have d: "list_all is_digest ?xs \<or> sha_broken ossl S"
    using get_hash_digest by (auto simp: list_all_iff)
  moreover from this have "(\<exists>l r. is_digest l \<and> is_digest r \<and> text_input l r \<in> S \<and>
        tree_loop (hash_combine ossl) ?xs = hash_combine ossl l r) \<or> sha_broken ossl S"
    using assms(2) text_tree.root_is_combined [of ?xs ossl S] known by auto
  moreover from d have "(\<exists>l r. is_digest l \<and> is_digest r \<and> pair_input l r \<in> S \<and>
        tree_loop (hash_pair ossl) ?xs = hash_pair ossl l r) \<or> sha_broken ossl S"
    using assms(2) pair_tree.root_is_combined [of ?xs ossl S] known by auto
  moreover have "sha_broken ossl S" if "is_digest l" "is_digest r" "is_digest l'" "is_digest r'"
    "text_input l r \<in> S" "pair_input l' r' \<in> S" "hash_combine ossl l r = hash_pair ossl l' r'" for l r l' r'
  proof -
    have "length (text_input l r) \<noteq> length (pair_input l' r')"
      using that(1-4) is_digest_length is_digest_bytes by simp
    with sha256_hex_inject [OF _ that(5,6), of ossl] that(7) show ?thesis unfolding hash_combine_input hash_pair_def by metis
  qed
  moreover have "txs \<noteq> []" using assms(2) by auto
  ultimately have "calculate_tree_hash ossl txs \<noteq> get_root (build ossl ?xs) \<or> sha_broken ossl S"
    by (simp add: calculate_tree_hash_def get_root_build) metis
  with assms(1) show ?thesis by (auto simp: sha_broken_def S_def)
qed

end
