(* ===== verification/Mermai_Light_Client.thy ===== *)
theory Mermai_Light_Client
  imports Mermai_Merkle Std_Map
begin

text \<open>
  The header-only client (\<^verbatim>\<open>src/src/core/mermai_light_client.cpp\<close>): headers are accepted in
  height order after a signature check, and inclusion proofs are checked against the Merkle root
  of a header.
\<close>

section \<open>Operations\<close>

record mermai_block_header =
  hdr_height :: u32
  hdr_hash :: string
  hdr_prev_block_hash :: string
  hdr_merkle_root :: string
  hdr_timestamp :: u64
  hdr_validator_address :: string
  hdr_validator_public_key :: bytes
  hdr_validator_signature :: bytes

record mermai_light_client =
  headers :: "mermai_block_header list"
  headers_by_height :: "(u32, mermai_block_header) omap"
  headers_by_hash :: "(string, mermai_block_header) omap"

definition new_light_client :: mermai_light_client where
  "new_light_client = \<lparr>headers = [], headers_by_height = [], headers_by_hash = []\<rparr>"

definition header_payload :: "mermai_block_header \<Rightarrow> string" where
  "header_payload h =
     dec_string (unat (hdr_height h)) @ '':'' @ hdr_prev_block_hash h @ '':'' @ hdr_merkle_root h @ '':'' @
     dec_string (unat (hdr_timestamp h)) @ '':'' @ hdr_validator_address h"

definition header_verify_signature :: "'k openssl \<Rightarrow> mermai_block_header \<Rightarrow> bool" where
  "header_verify_signature ossl h =
     (if hdr_validator_public_key h = [] \<or> hdr_validator_signature h = [] then True
      else case d2i_PUBKEY ossl (hdr_validator_public_key h) of
             None \<Rightarrow> False
           | Some (key, _) \<Rightarrow> DigestVerify ossl key (header_payload h) (hdr_validator_signature h))"

definition sync_header ::
  "'k openssl \<Rightarrow> mermai_block_header \<Rightarrow> mermai_light_client \<Rightarrow> bool \<times> mermai_light_client" where
  "sync_header ossl h lc =
     (if headers lc \<noteq> [] \<and> hdr_height h \<noteq> hdr_height (last (headers lc)) + 1 then (False, lc)
      else if \<not> header_verify_signature ossl h then (False, lc)
      else (True, lc\<lparr>headers := headers lc @ [h],
               headers_by_height := omap_put (hdr_height h) h (headers_by_height lc),
               headers_by_hash := (if hdr_hash h \<noteq> [] then omap_put (hdr_hash h) h (headers_by_hash lc)
                                   else headers_by_hash lc)\<rparr>))"

definition header_of_block :: "'k openssl \<Rightarrow> mermai_block \<Rightarrow> mermai_block_header" where
  "header_of_block ossl b =
     \<lparr>hdr_height = height b, hdr_hash = block_hash_hex ossl b, hdr_prev_block_hash = prev_block_hash b,
      hdr_merkle_root = merkle_root b, hdr_timestamp = blk_timestamp b,
      hdr_validator_address = validator_address b, hdr_validator_public_key = validator_public_key b,
      hdr_validator_signature = validator_signature b\<rparr>"

definition sync_header_from_block ::
  "'k openssl \<Rightarrow> mermai_block \<Rightarrow> mermai_light_client \<Rightarrow> bool \<times> mermai_light_client" where
  "sync_header_from_block ossl b lc = sync_header ossl (header_of_block ossl b) lc"

definition verify_transaction_inclusion ::
  "'k openssl \<Rightarrow> u32 \<Rightarrow> string \<Rightarrow> mermai_merkle_proof \<Rightarrow> mermai_light_client \<Rightarrow> bool" where
  "verify_transaction_inclusion ossl block_height tx_hash prf lc =
     (case omap_find (headers_by_height lc) block_height of
        None \<Rightarrow> False
      | Some h \<Rightarrow> verify_proof ossl (hdr_merkle_root h) tx_hash prf)"

definition get_latest_height :: "mermai_light_client \<Rightarrow> u32" where
  "get_latest_height lc = (if headers lc = [] then 0 else hdr_height (last (headers lc)))"

definition get_header :: "u32 \<Rightarrow> mermai_light_client \<Rightarrow> mermai_block_header option" where
  "get_header h lc = omap_find (headers_by_height lc) h"

definition get_header_count :: "mermai_light_client \<Rightarrow> nat" where
  "get_header_count lc = length (headers lc)"

inductive client_step :: "'k openssl \<Rightarrow> mermai_light_client \<Rightarrow> mermai_light_client \<Rightarrow> bool" for ossl where
  client_sync: "client_step ossl lc (snd (sync_header ossl h lc))"
| client_sync_block: "client_step ossl lc (snd (sync_header_from_block ossl b lc))"

section \<open>The header chain\<close>

definition client_inv :: "'k openssl \<Rightarrow> mermai_light_client \<Rightarrow> bool" where
  "client_inv ossl lc \<longleftrightarrow>
     list_all (header_verify_signature ossl) (headers lc) \<and>
     (\<forall>i<length (headers lc). hdr_height (headers lc ! i) = hdr_height (hd (headers lc)) + of_nat i) \<and>
     (\<forall>h hd'. omap_find (headers_by_height lc) h = Some hd' \<longrightarrow> hd' \<in> set (headers lc) \<and> hdr_height hd' = h) \<and>
     (\<forall>hd'\<in>set (headers lc). omap_find (headers_by_height lc) (hdr_height hd') \<noteq> None)"

lemma sync_header_inv:
  assumes "client_inv ossl lc"
  shows "client_inv ossl (snd (sync_header ossl h lc))"
proof (cases "fst (sync_header ossl h lc)")
  case True
  let ?hs = "headers lc"
  from True have sig: "header_verify_signature ossl h"
    and next_height: "?hs \<noteq> [] \<Longrightarrow> hdr_height h = hdr_height (last ?hs) + 1"
    and hs: "headers (snd (sync_header ossl h lc)) = ?hs @ [h]"
    and byh: "headers_by_height (snd (sync_header ossl h lc)) = omap_put (hdr_height h) h (headers_by_height lc)"
    by (auto simp: sync_header_def split: if_splits)
  have "hdr_height ((?hs @ [h]) ! i) = hdr_height (hd (?hs @ [h])) + of_nat i" if "i < Suc (length ?hs)" for i
  proof (cases "i < length ?hs")
    case True
    moreover from True have "hd (?hs @ [h]) = hd ?hs" by (cases ?hs) auto
    ultimately show ?thesis using assms by (simp add: client_inv_def nth_append)
  next
    case False
    with that have i: "i = length ?hs" by simp
    show ?thesis
    proof (cases "?hs = []")
      case ne: False
      then have "hdr_height (last ?hs) = hdr_height (hd ?hs) + of_nat (length ?hs - 1)"
        using assms by (simp add: client_inv_def last_conv_nth)
      with ne next_height [OF ne] show ?thesis by (cases ?hs) (simp_all add: i)
    qed (simp add: i)
  qed
  with assms sig show ?thesis
    unfolding client_inv_def hs byh by (auto split: if_splits)
next
  case False
  then have "snd (sync_header ossl h lc) = lc" by (auto simp: sync_header_def split: if_splits)
  with assms show ?thesis by simp
qed

interpretation client: safe_system "\<lambda>lc. lc = new_light_client" "client_step ossl" "client_inv ossl" for ossl
proof
  show "lc = new_light_client \<Longrightarrow> client_inv ossl lc" for lc by (simp add: client_inv_def new_light_client_def)
  show "client_inv ossl s \<Longrightarrow> client_step ossl s t \<Longrightarrow> client_inv ossl t" for s t
    by (erule client_step.cases) (auto simp: sync_header_from_block_def sync_header_inv)
qed

text \<open>C36: The headers a light client holds have consecutive heights (modulo 2 to the power 32), every
  one passed the signature check (which a header without a key or a signature passes), the index by height
  finds exactly the heights of the held headers and returns a held header of that height, and an
  inclusion proof is accepted for a height exactly if it verifies against the Merkle root of the header
  the index returns.
\<close>

theorem light_client_headers:
  assumes "reach (\<lambda>lc. lc = new_light_client) (client_step ossl) lc"
  shows "list_all (header_verify_signature ossl) (headers lc) \<and>
    map hdr_height (headers lc) = map (\<lambda>i. hdr_height (hd (headers lc)) + of_nat i) [0..<get_header_count lc] \<and>
    (\<forall>h hd'. get_header h lc = Some hd' \<longrightarrow> hd' \<in> set (headers lc) \<and> hdr_height hd' = h) \<and>
    (\<forall>hd'\<in>set (headers lc). get_header (hdr_height hd') lc \<noteq> None) \<and>
    (\<forall>h prf tx. verify_transaction_inclusion ossl h tx prf lc \<longleftrightarrow>
       (\<exists>hd'\<in>set (headers lc). get_header h lc = Some hd' \<and> verify_proof ossl (hdr_merkle_root hd') tx prf))"
proof -
  from client.reach_inv [OF assms] have inv: "client_inv ossl lc" .
  then have "map hdr_height (headers lc) =
      map (\<lambda>i. hdr_height (hd (headers lc)) + of_nat i) [0..<get_header_count lc]"
    by (intro nth_equalityI) (simp_all add: client_inv_def get_header_count_def)
  with inv show ?thesis
    by (auto simp: client_inv_def verify_transaction_inclusion_def get_header_def split: option.splits)
qed

text \<open>A client that trusts nobody still accepts any header without a key or a signature, whatever its
  predecessor hash is.\<close>

lemma unsigned_headers_accepted:
  assumes "hdr_validator_signature h = []"
    and "headers lc = [] \<or> hdr_height h = hdr_height (last (headers lc)) + 1"
  shows "fst (sync_header ossl h lc)"
  using assms by (auto simp: sync_header_def header_verify_signature_def)

text \<open>The client checks the signature over a text that begins with a decimal digit; the validator
  signed one that begins with the first byte of the version.\<close>

lemma dec_string_hd: "\<exists>d cs. dec_string n = d # cs \<and> d \<noteq> char_of_byte 0"
proof -
  have "dec_string n \<noteq> []" by (subst dec_string.simps) simp
  moreover from this have "hd (dec_string n) \<in> char_of ` {48..<58 :: nat}" using dec_string_digits [of n] by auto
  then have "hd (dec_string n) \<noteq> char_of_byte 0" by (auto simp: char_of_byte_def)
  ultimately show ?thesis by (cases "dec_string n") auto
qed

lemma header_payload_differs:
  assumes "version b = 1"
  shows "block_signing_payload b \<noteq> header_payload (header_of_block ossl b)"
proof -
  have "hd (write_value (v :: u32) @ r) = char_of_byte (be_byte 4 v 0)" for v r
    by (simp add: write_value_def upt_conv_Cons)
  moreover have "be_byte 4 (1 :: u32) 0 = 0" by (simp add: be_byte_eq)
  ultimately have "hd (block_signing_payload b) = char_of_byte 0"
    by (simp add: block_signing_payload_def serialize_block_def assms)
  moreover obtain d cs where "dec_string (unat (height b)) = d # cs" "d \<noteq> char_of_byte 0"
    using dec_string_hd by blast
  then have "hd (header_payload (header_of_block ossl b)) \<noteq> char_of_byte 0"
    by (simp add: header_payload_def header_of_block_def)
  ultimately show ?thesis by metis
qed

text \<open>The light client does not accept blocks as validators sign them: if a block of version 1
  carries a valid validator signature and the client accepts its header, then that one signature
  is valid for two different texts under the same key.\<close>
theorem signed_block_needs_second_message:
  assumes "verify_validator_signature ossl b" "version b = 1"
  shows "fst (sync_header_from_block ossl b lc) \<longrightarrow>
    (\<exists>key m m'. m \<noteq> m' \<and> DigestVerify ossl key m (validator_signature b) \<and>
      DigestVerify ossl key m' (validator_signature b))"
proof
  assume acc: "fst (sync_header_from_block ossl b lc)"
  from assms(1) obtain key n where key: "validator_public_key b \<noteq> []" "validator_signature b \<noteq> []"
    "d2i_PUBKEY ossl (validator_public_key b) = Some (key, n)"
    "DigestVerify ossl key (block_signing_payload b) (validator_signature b)"
    by (auto simp: verify_validator_signature_def split: if_splits option.splits)
  from acc have "header_verify_signature ossl (header_of_block ossl b)"
    by (auto simp: sync_header_from_block_def sync_header_def split: if_splits)
  with key have "DigestVerify ossl key (header_payload (header_of_block ossl b)) (validator_signature b)"
    by (simp add: header_verify_signature_def header_of_block_def)
  with key(4) header_payload_differs [OF assms(2)]
  show "\<exists>key m m'. m \<noteq> m' \<and> DigestVerify ossl key m (validator_signature b) \<and>
      DigestVerify ossl key m' (validator_signature b)" by blast
qed

section \<open>Examples\<close>

definition signed_block :: mermai_block where
  "signed_block = snd (block_sign toy_ossl (Some 5) (new_block 9 4))"

lemma signed_block_ok: "verify_validator_signature toy_ossl signed_block" "version signed_block = 1"
  using block_sign_accepted [of toy_ossl 5 "new_block 9 4"]
  by (simp_all add: signed_block_def new_block_def block_sign_def Let_def split: prod.splits)

lemma toy_unique: "DigestVerify toy_ossl k m s \<Longrightarrow> DigestVerify toy_ossl k m' s \<Longrightarrow> m = m'"
  by (auto simp: toy_ossl_def dest: bytes_of_chars_inject [THEN iffD1])

lemma signed_block_needs_second_message_witness:
  "\<not> fst (sync_header_from_block toy_ossl signed_block new_light_client)"
  using signed_block_needs_second_message [OF signed_block_ok, of new_light_client] toy_unique by blast

definition plain_header :: "u32 \<Rightarrow> string \<Rightarrow> mermai_block_header" where
  "plain_header h root = \<lparr>hdr_height = h, hdr_hash = [], hdr_prev_block_hash = [], hdr_merkle_root = root,
     hdr_timestamp = 0, hdr_validator_address = [], hdr_validator_public_key = [], hdr_validator_signature = []\<rparr>"

lemma light_client_headers_witness:
  "map hdr_height (headers (snd (sync_header toy_ossl (plain_header 8 ''r'') (snd (sync_header toy_ossl (plain_header 7 ''q'') new_light_client))))) = [7, 8]"
proof -
  let ?l1 = "snd (sync_header toy_ossl (plain_header 7 ''q'') new_light_client)"
  let ?l2 = "snd (sync_header toy_ossl (plain_header 8 ''r'') ?l1)"
  have "reach (\<lambda>lc. lc = new_light_client) (client_step toy_ossl) new_light_client" by (rule reach_start) simp
  from reach_step [OF reach_step [OF this client_sync] client_sync]
  have "reach (\<lambda>lc. lc = new_light_client) (client_step toy_ossl) ?l2" .
  moreover have "length (headers ?l2) = 2" "hdr_height (hd (headers ?l2)) = 7"
    by (simp_all add: sync_header_def plain_header_def new_light_client_def header_verify_signature_def)
  ultimately show ?thesis using light_client_headers [of toy_ossl ?l2]
    by (simp add: get_header_count_def upt_rec)
qed

end
