(* ===== verification/Mermai_Self_Aware.thy ===== *)
theory Mermai_Self_Aware
  imports Mermai_Float Std_Map
begin

text \<open>
  The node's self-monitoring (\<^verbatim>\<open>src/src/core/mermai_self_aware.cpp\<close>): block intervals, peer
  telemetry and the health score. Scores are \<^verbatim>\<open>double\<close> values; the order of the unordered map
  of peers is never observed, so an ordered map stands for it.
\<close>

section \<open>Operations\<close>

datatype node_health_status = OPTIMAL | DEGRADED | PARTITIONED | UNDER_ATTACK

record peer_telemetry =
  tel_peer_id :: string
  latency_ms :: u64
  blocks_propagated :: u64
  invalid_messages :: u64
  reliability_score :: rat

record node_introspection =
  health_score :: rat
  health_status :: node_health_status
  avg_block_time_ms :: u64
  mempool_congestion_percent :: u64
  active_peer_count :: u32
  diagnostic_summary :: string

record mermai_self_aware_engine =
  last_evaluation_time :: u64
  sa_peers :: "(string, peer_telemetry) omap"
  block_intervals :: "u64 list"
  current_state :: node_introspection

definition new_self_aware :: mermai_self_aware_engine where
  "new_self_aware = \<lparr>last_evaluation_time = 0, sa_peers = [], block_intervals = [],
     current_state = \<lparr>health_score = 100, health_status = OPTIMAL, avg_block_time_ms = 2000,
       mempool_congestion_percent = 0, active_peer_count = 0,
       diagnostic_summary = ''All systems operating normally.''\<rparr>\<rparr>"

definition new_telemetry :: peer_telemetry where
  "new_telemetry = \<lparr>tel_peer_id = [], latency_ms = 0, blocks_propagated = 0, invalid_messages = 0,
     reliability_score = 1\<rparr>"

definition record_block :: "u64 \<Rightarrow> mermai_self_aware_engine \<Rightarrow> mermai_self_aware_engine" where
  "record_block timestamp_ms e =
     (let e1 = (if last_evaluation_time e > 0 \<and> timestamp_ms > last_evaluation_time e
            then let is = block_intervals e @ [timestamp_ms - last_evaluation_time e]
              in e\<lparr>block_intervals := (if length is > 50 then tl is else is)\<rparr>
            else e)
      in e1\<lparr>last_evaluation_time := timestamp_ms\<rparr>)"

definition record_peer_event ::
  "string \<Rightarrow> u64 \<Rightarrow> bool \<Rightarrow> mermai_self_aware_engine \<Rightarrow> mermai_self_aware_engine" where
  "record_peer_event peer_id lat valid_message e =
     (let tel = omap_at new_telemetry peer_id (sa_peers e);
          t1 = tel\<lparr>tel_peer_id := peer_id,
                   latency_ms := (if latency_ms tel = 0 then lat else (latency_ms tel * 7 + lat * 3) div 10)\<rparr>;
          t2 = (if valid_message
                then t1\<lparr>blocks_propagated := blocks_propagated t1 + 1,
                        reliability_score := min 1 (f64 (reliability_score t1 + f64 (5 / 100)))\<rparr>
                else t1\<lparr>invalid_messages := invalid_messages t1 + 1,
                        reliability_score := max 0 (f64 (reliability_score t1 - f64 (25 / 100)))\<rparr>)
      in e\<lparr>sa_peers := omap_put peer_id t2 (sa_peers e)\<rparr>)"

definition evaluate_health ::
  "u64 \<Rightarrow> u64 \<Rightarrow> mermai_self_aware_engine \<Rightarrow> node_introspection \<times> mermai_self_aware_engine" where
  "evaluate_health mempool_size max_mempool_capacity e =
     (let (score, s1) =
            (if max_mempool_capacity > 0
             then let pct = (mempool_size * 100) div max_mempool_capacity;
                      s = (current_state e)\<lparr>mempool_congestion_percent := pct\<rparr>
               in (if pct > 80 then f64 (100 - 20) else if pct > 50 then f64 (100 - 10) else 100, s)
             else (100, current_state e));
          s2 = s1\<lparr>active_peer_count := of_nat (length (sa_peers e))\<rparr>;
          s3 = (if block_intervals e \<noteq> []
                then s2\<lparr>avg_block_time_ms :=
                       foldl (+) 0 (block_intervals e) div of_nat (length (block_intervals e))\<rparr>
                else s2);
          s4 = s3\<lparr>health_score := max 0 score, health_status := (if score \<ge> 80 then OPTIMAL else DEGRADED)\<rparr>
      in (s4, e\<lparr>current_state := s4\<rparr>))"

definition get_adaptive_gas_multiplier :: "mermai_self_aware_engine \<Rightarrow> rat" where
  "get_adaptive_gas_multiplier e =
     (if mempool_congestion_percent (current_state e) > 80 then 2
      else if mempool_congestion_percent (current_state e) > 50 then 3 / 2 else 1)"

definition should_isolate_peer :: "string \<Rightarrow> mermai_self_aware_engine \<Rightarrow> bool" where
  "should_isolate_peer peer_id e =
     (case omap_find (sa_peers e) peer_id of
        None \<Rightarrow> False
      | Some t \<Rightarrow> reliability_score t < f64 (2 / 10) \<or> invalid_messages t > 10)"

definition get_status_json :: "mermai_self_aware_engine \<Rightarrow> string" where
  "get_status_json e = ''{\"health_score\":'' @ format_g (health_score (current_state e)) @ ''}''"

section \<open>Scores\<close>

definition scores_ok :: "mermai_self_aware_engine \<Rightarrow> bool" where
  "scores_ok e \<longleftrightarrow> list_all (\<lambda>p. 0 \<le> reliability_score (snd p) \<and> reliability_score (snd p) \<le> 1) (sa_peers e) \<and>
     omap_ok (sa_peers e) \<and> length (block_intervals e) \<le> 50"

lemma record_peer_event_scores: "scores_ok e \<Longrightarrow> scores_ok (record_peer_event peer_id lat ok e)"
proof -
  assume *: "scores_ok e"
  let ?t = "omap_at new_telemetry peer_id (sa_peers e)"
  have t: "0 \<le> reliability_score ?t \<and> reliability_score ?t \<le> 1"
    using * by (auto simp: scores_ok_def omap_at_def new_telemetry_def list_all_iff split: option.splits
        dest!: map_of_SomeD)
  have "0 \<le> f64 (reliability_score ?t + f64 (5 / 100))" by (intro f64_nonneg) (simp add: t f64_nonneg)
  moreover have "f64 (reliability_score ?t - f64 (25 / 100)) \<le> 1"
  proof (cases "0 \<le> reliability_score ?t - f64 (25 / 100)")
    case True
    then have "f64 (reliability_score ?t - f64 (25 / 100)) \<le> f64 1"
      using t f64_nonneg [of "25 / 100"] by (intro f64_mono) auto
    then show ?thesis using round_fp_nat [of 53 "-1074" 1] by simp
  next
    case False
    then show ?thesis using round_fp_nonpos [of "reliability_score ?t - f64 (25 / 100)" 53 "-1074"] by simp
  qed
  ultimately show ?thesis
    using * by (auto simp: scores_ok_def record_peer_event_def Let_def list_all_iff set_omap_put)
qed

lemma record_block_scores: "scores_ok e \<Longrightarrow> scores_ok (record_block t e)"
  by (auto simp: scores_ok_def record_block_def Let_def)

text \<open>The health evaluation can never report anything but an optimal node: whatever the mempool
  load, the peers and the block intervals, the score is 100, 90 or 80 and the status is
  \<^verbatim>\<open>OPTIMAL\<close>, so \<^verbatim>\<open>DEGRADED\<close> and the other states are unreachable.\<close>
theorem health_always_optimal:
  "health_status (fst (evaluate_health mempool_size capacity e)) = OPTIMAL \<and>
   health_score (fst (evaluate_health mempool_size capacity e)) \<in> {100, 90, 80}"
proof -
  have "f64 80 = 80" "f64 90 = 90" using round_fp_nat [of 53 "-1074" 80] round_fp_nat [of 53 "-1074" 90] by simp_all
  then show ?thesis by (simp add: evaluate_health_def Let_def)
qed

end
