(* ===== verification/Mermai_Token.thy ===== *)
theory Mermai_Token
  imports Std_Map
begin

text \<open>
  The fungible token contract (\<^verbatim>\<open>src/src/vm/mermai_token.cpp\<close>): balances, allowances, supply and
  the event log. \<^verbatim>\<open>operator[]\<close> on the maps inserts a zero entry, also on the paths that fail
  afterwards; the model keeps those insertions.
\<close>

section \<open>Operations\<close>

record mermai_token_event =
  event_type :: string
  event_from :: string
  event_to :: string
  event_value :: u64

record mermai_token_contract =
  token_name :: string
  token_symbol :: string
  token_decimals :: byte
  total_supply :: u64
  token_owner :: string
  balances :: "(string, u64) omap"
  allowances :: "(string, (string, u64) omap) omap"
  event_logs :: "mermai_token_event list"

definition log_event ::
  "string \<Rightarrow> string \<Rightarrow> string \<Rightarrow> u64 \<Rightarrow> mermai_token_contract \<Rightarrow> mermai_token_contract" where
  "log_event ty from to v t = t\<lparr>event_logs := event_logs t @
     [\<lparr>event_type = ty, event_from = from, event_to = to, event_value = v\<rparr>]\<rparr>"

definition new_token :: "string \<Rightarrow> string \<Rightarrow> byte \<Rightarrow> u64 \<Rightarrow> string \<Rightarrow> mermai_token_contract" where
  "new_token name symbol decimals initial_supply owner =
     (let t = \<lparr>token_name = name, token_symbol = symbol, token_decimals = decimals,
               total_supply = initial_supply, token_owner = owner, balances = [], allowances = [],
               event_logs = []\<rparr>
      in if initial_supply > 0 \<and> owner \<noteq> []
         then log_event ''Transfer'' [] owner initial_supply (t\<lparr>balances := omap_put owner initial_supply []\<rparr>)
         else t)"

definition balance_of :: "mermai_token_contract \<Rightarrow> string \<Rightarrow> u64" where
  "balance_of t addr = (case omap_find (balances t) addr of Some b \<Rightarrow> b | None \<Rightarrow> 0)"

definition allowance :: "mermai_token_contract \<Rightarrow> string \<Rightarrow> string \<Rightarrow> u64" where
  "allowance t owner spender =
     (case omap_find (allowances t) owner of
        None \<Rightarrow> 0
      | Some m \<Rightarrow> (case omap_find m spender of Some a \<Rightarrow> a | None \<Rightarrow> 0))"

text \<open>\<^verbatim>\<open>balances[from] -= amount; balances[to] += amount;\<close>\<close>

definition move_balance :: "string \<Rightarrow> string \<Rightarrow> u64 \<Rightarrow> (string, u64) omap \<Rightarrow> (string, u64) omap" where
  "move_balance from to amount m =
     (let m1 = omap_put from (omap_at 0 from m - amount) m
      in omap_put to (omap_at 0 to m1 + amount) m1)"

definition transfer ::
  "string \<Rightarrow> string \<Rightarrow> u64 \<Rightarrow> mermai_token_contract \<Rightarrow> bool \<times> mermai_token_contract" where
  "transfer caller to amount t =
     (if caller = [] \<or> to = [] then (False, t)
      else let m = omap_touch 0 caller (balances t)
        in if omap_at 0 caller m < amount then (False, t\<lparr>balances := m\<rparr>)
           else (True, log_event ''Transfer'' caller to amount (t\<lparr>balances := move_balance caller to amount m\<rparr>)))"

definition approve ::
  "string \<Rightarrow> string \<Rightarrow> u64 \<Rightarrow> mermai_token_contract \<Rightarrow> bool \<times> mermai_token_contract" where
  "approve caller spender amount t =
     (if caller = [] \<or> spender = [] then (False, t)
      else (True, log_event ''Approval'' caller spender amount
        (t\<lparr>allowances := omap_put caller (omap_put spender amount (omap_at [] caller (allowances t)))
                           (allowances t)\<rparr>)))"

definition transfer_from ::
  "string \<Rightarrow> string \<Rightarrow> string \<Rightarrow> u64 \<Rightarrow> mermai_token_contract \<Rightarrow> bool \<times> mermai_token_contract" where
  "transfer_from spender from to amount t =
     (if spender = [] \<or> from = [] \<or> to = [] then (False, t)
      else let m = omap_touch 0 from (balances t)
        in if omap_at 0 from m < amount then (False, t\<lparr>balances := m\<rparr>)
           else
             let inner = omap_touch 0 spender (omap_at [] from (allowances t));
                 t1 = t\<lparr>balances := m, allowances := omap_put from inner (allowances t)\<rparr>
             in if omap_at 0 spender inner < amount then (False, t1)
                else (True, log_event ''Transfer'' from to amount
                  (t1\<lparr>allowances := omap_put from (omap_put spender (omap_at 0 spender inner - amount) inner)
                                     (allowances t1),
                      balances := move_balance from to amount m\<rparr>)))"

definition mint ::
  "string \<Rightarrow> string \<Rightarrow> u64 \<Rightarrow> mermai_token_contract \<Rightarrow> bool \<times> mermai_token_contract" where
  "mint caller to amount t =
     (if caller \<noteq> token_owner t \<or> to = [] then (False, t)
      else (True, log_event ''Mint'' [] to amount
        (t\<lparr>total_supply := total_supply t + amount,
           balances := omap_put to (omap_at 0 to (balances t) + amount) (balances t)\<rparr>)))"

definition burn :: "string \<Rightarrow> u64 \<Rightarrow> mermai_token_contract \<Rightarrow> bool \<times> mermai_token_contract" where
  "burn caller amount t =
     (let m = omap_touch 0 caller (balances t)
      in if omap_at 0 caller m < amount then (False, t\<lparr>balances := m\<rparr>)
         else (True, log_event ''Burn'' caller [] amount
           (t\<lparr>balances := omap_put caller (omap_at 0 caller m - amount) m,
              total_supply := total_supply t - amount\<rparr>)))"

definition clear_events :: "mermai_token_contract \<Rightarrow> mermai_token_contract" where
  "clear_events t = t\<lparr>event_logs := []\<rparr>"

text \<open>The life of a token whose owner never mints past 64 bits.\<close>

inductive token_step :: "mermai_token_contract \<Rightarrow> mermai_token_contract \<Rightarrow> bool" where
  "token_step t (snd (transfer caller to amount t))"
| "token_step t (snd (approve caller spender amount t))"
| "token_step t (snd (transfer_from spender from to amount t))"
| "unat (total_supply t) + unat amount < 2 ^ 64 \<Longrightarrow> token_step t (snd (mint caller to amount t))"
| "token_step t (snd (burn caller amount t))"
| "token_step t (clear_events t)"

section \<open>Conservation of the supply\<close>

definition supply_inv :: "mermai_token_contract \<Rightarrow> bool" where
  "supply_inv t \<longleftrightarrow> omap_ok (balances t) \<and> omap_sum unat (balances t) = unat (total_supply t)"

lemma log_event_simps [simp]:
  "balances (log_event ty f r v t) = balances t" "total_supply (log_event ty f r v t) = total_supply t"
  "allowances (log_event ty f r v t) = allowances t" "token_owner (log_event ty f r v t) = token_owner t"
  by (simp_all add: log_event_def)

lemma omap_sum_put_unat:
  assumes "omap_ok m"
  shows "omap_sum unat (omap_put k v m) + unat (omap_at 0 k m) = omap_sum unat m + unat v"
  by (rule omap_sum_put_at [OF assms]) simp

lemma move_balance_sum:
  assumes ok: "omap_ok m" and enough: "amount \<le> omap_at 0 from m" and fits: "omap_sum unat m < 2 ^ 64"
  shows "omap_ok (move_balance from to amount m) \<and> omap_sum unat (move_balance from to amount m) = omap_sum unat m"
proof -
  let ?m1 = "omap_put from (omap_at 0 from m - amount) m"
  have ok1: "omap_ok ?m1" using ok by simp
  have sub: "unat (omap_at 0 from m - amount) + unat amount = unat (omap_at 0 from m)"
    using enough by (simp add: unat_sub word_le_nat_alt)
  have s1: "omap_sum unat ?m1 + unat amount = omap_sum unat m"
    using omap_sum_put_unat [OF ok, of "from" "omap_at 0 from m - amount"] sub by linarith
  have "unat (omap_at 0 to ?m1) \<le> omap_sum unat ?m1" by (rule omap_sum_at_le) simp
  with s1 fits have "unat (omap_at 0 to ?m1 + amount) = unat (omap_at 0 to ?m1) + unat amount"
    by (intro unat_add_lem [THEN iffD1]) simp
  with omap_sum_put_unat [OF ok1, of to "omap_at 0 to ?m1 + amount"] s1
  have "omap_sum unat (omap_put to (omap_at 0 to ?m1 + amount) ?m1) = omap_sum unat m" by linarith
  with ok1 show ?thesis by (simp add: move_balance_def Let_def)
qed

lemma supply_touch: "supply_inv t \<Longrightarrow> omap_ok (omap_touch 0 k (balances t)) \<and>
    omap_sum unat (omap_touch 0 k (balances t)) = unat (total_supply t)"
  by (simp add: supply_inv_def omap_sum_touch)

lemma transfer_inv: "supply_inv t \<Longrightarrow> supply_inv (snd (transfer caller to amount t))"
  using supply_touch [of t caller] move_balance_sum [of "omap_touch 0 caller (balances t)" amount caller to]
    unat_u64_less [of "total_supply t"]
  by (auto simp: transfer_def supply_inv_def Let_def not_less)

lemma transfer_from_inv: "supply_inv t \<Longrightarrow> supply_inv (snd (transfer_from spender from to amount t))"
  using supply_touch [of t "from"] move_balance_sum [of "omap_touch 0 from (balances t)" amount "from" to]
    unat_u64_less [of "total_supply t"]
  by (auto simp: transfer_from_def supply_inv_def Let_def not_less)

lemma mint_inv:
  assumes "supply_inv t" "unat (total_supply t) + unat amount < 2 ^ 64"
  shows "supply_inv (snd (mint caller to amount t))"
proof -
  let ?b = "omap_at 0 to (balances t)"
  from assms have ok: "omap_ok (balances t)" and sum: "omap_sum unat (balances t) = unat (total_supply t)"
    by (simp_all add: supply_inv_def)
  have "unat ?b \<le> unat (total_supply t)" unfolding sum [symmetric] by (rule omap_sum_at_le) simp
  with assms(2) have "unat (?b + amount) = unat ?b + unat amount"
    "unat (total_supply t + amount) = unat (total_supply t) + unat amount"
    by (auto intro!: unat_add_lem [THEN iffD1])
  with omap_sum_put_unat [OF ok, of to "?b + amount"] ok sum assms(1) show ?thesis
    by (simp add: mint_def supply_inv_def)
qed

lemma burn_inv:
  assumes "supply_inv t"
  shows "supply_inv (snd (burn caller amount t))"
proof -
  let ?m = "omap_touch 0 caller (balances t)"
  from supply_touch [OF assms, of caller] have ok: "omap_ok ?m" and sum: "omap_sum unat ?m = unat (total_supply t)" by auto
  have le: "unat (omap_at 0 caller ?m) \<le> unat (total_supply t)" unfolding sum [symmetric]
    by (rule omap_sum_at_le) simp
  show ?thesis
  proof (cases "omap_at 0 caller ?m < amount")
    case True
    with ok sum show ?thesis by (simp add: burn_def supply_inv_def Let_def)
  next
    case False
    then have "unat (omap_at 0 caller ?m - amount) = unat (omap_at 0 caller ?m) - unat amount"
      "unat amount \<le> unat (omap_at 0 caller ?m)"
      by (simp_all add: unat_sub word_le_nat_alt not_less)
    moreover have "unat (total_supply t - amount) = unat (total_supply t) - unat amount"
      using le calculation(2) by (simp add: unat_sub word_le_nat_alt)
    ultimately have "omap_sum unat (omap_put caller (omap_at 0 caller ?m - amount) ?m) =
        unat (total_supply t - amount)"
      using omap_sum_put_unat [OF ok, of caller "omap_at 0 caller ?m - amount"] sum le by linarith
    with ok False show ?thesis by (simp add: burn_def supply_inv_def Let_def)
  qed
qed

interpretation token: safe_system
  "\<lambda>t. \<exists>n s d i ow. t = new_token n s d i ow \<and> (ow \<noteq> [] \<or> i = 0)" token_step supply_inv
proof
  show "\<exists>n s d i ow. t = new_token n s d i ow \<and> (ow \<noteq> [] \<or> i = 0) \<Longrightarrow> supply_inv t" for t
    by (auto simp: new_token_def supply_inv_def Let_def omap_ok_def word_neq_0_conv [symmetric])
next
  show "supply_inv s \<Longrightarrow> token_step s t \<Longrightarrow> supply_inv t" for s t
    by (erule token_step.cases)
      (auto simp: transfer_inv transfer_from_inv mint_inv burn_inv, auto simp: supply_inv_def approve_def clear_events_def)
qed

text \<open>C18: The balances of a token always add up to its total supply, exactly and without wrap-around,
  through any sequence of transfers, delegated transfers, approvals, burns and mints, as long as
  the contract was created with an owner and no mint takes the supply past 64 bits.\<close>
theorem token_supply_conserved:
  assumes "reach (\<lambda>t. \<exists>n s d i ow. t = new_token n s d i ow \<and> (ow \<noteq> [] \<or> i = 0)) token_step t"
  shows "omap_sum unat (balances t) = unat (total_supply t) \<and> unat (balance_of t a) \<le> unat (total_supply t)"
proof -
  from token.reach_inv [OF assms] have sum: "omap_sum unat (balances t) = unat (total_supply t)"
    by (simp add: supply_inv_def)
  have "unat (omap_at 0 a (balances t)) \<le> omap_sum unat (balances t)" by (rule omap_sum_at_le) simp
  with sum show ?thesis by (simp add: balance_of_def omap_at_def)
qed

definition demo_token :: mermai_token_contract where
  "demo_token = snd (transfer_from ''carol'' ''alice'' ''bob'' 30
     (snd (approve ''alice'' ''carol'' 50 (new_token ''Mer'' ''MER'' 18 100 ''alice''))))"

lemma token_supply_conserved_witness:
  "omap_sum unat (balances demo_token) = 100 \<and> balance_of demo_token ''bob'' = 30"
proof -
  let ?start = "\<lambda>t. \<exists>n s d i ow. t = new_token n s d i ow \<and> (ow \<noteq> [] \<or> i = 0)"
  have "reach ?start token_step (new_token ''Mer'' ''MER'' 18 100 ''alice'')" by (rule reach_start) blast
  then have "reach ?start token_step demo_token"
    unfolding demo_token_def by (blast intro: reach_step token_step.intros(2,3))
  from token_supply_conserved [OF this] show ?thesis
    by (simp add: demo_token_def transfer_from_def approve_def new_token_def Let_def omap_at_def
        omap_touch_def move_balance_def balance_of_def log_event_def less_char_def)
qed

text \<open>
  Minting does not check for overflow: a mint that takes the supply past 64 bits wraps the supply
  and the balance, destroying the tokens of the receiver.
\<close>

lemma mint_wraps:
  "balance_of (snd (mint ''o'' ''o'' 1 (new_token ''T'' ''T'' 0 (- 1) ''o''))) ''o'' = 0 \<and>
   total_supply (snd (mint ''o'' ''o'' 1 (new_token ''T'' ''T'' 0 (- 1) ''o''))) = 0"
proof -
  have "(0 :: u64) < - 1" by (simp add: word_neq_0_conv [symmetric])
  then show ?thesis by (simp add: mint_def new_token_def Let_def balance_of_def omap_at_def log_event_def)
qed

text \<open>What a delegated transfer does when it succeeds, and that it fails exactly without funds or
  allowance.\<close>

lemma balance_of_at: "balance_of t a = omap_at 0 a (balances t)"
  by (simp add: balance_of_def omap_at_def)

lemma allowance_at: "allowance t ow sp = omap_at 0 sp (omap_at [] ow (allowances t))"
  by (simp add: allowance_def omap_at_def split: option.splits)

lemma transfer_from_spec:
  "fst (transfer_from spender from to amount t) \<longleftrightarrow>
     spender \<noteq> [] \<and> from \<noteq> [] \<and> to \<noteq> [] \<and> amount \<le> balance_of t from \<and> amount \<le> allowance t from spender"
  "fst (transfer_from spender from to amount t) \<Longrightarrow>
     allowance (snd (transfer_from spender from to amount t)) ow sp =
       (if ow = from \<and> sp = spender then allowance t from spender - amount else allowance t ow sp)"
  by (auto simp: transfer_from_def Let_def balance_of_at allowance_at not_less split: if_splits)

end
