(* ===== verification/Mermai_VM.thy ===== *)
theory Mermai_VM
  imports Std_Text Mermai_Token
begin

text \<open>
  The contract virtual machine (\<^verbatim>\<open>src/src/vm/mermai_vm.cpp\<close>) and its assembler. The header
  \<^verbatim>\<open>mermai_vm.hpp\<close> is not in the repository, so the numeric values of the opcodes and the gas
  prices are parameters of the model (\<open>vm_config\<close>); the fields of the execution context are those
  the code uses. The stack is a list with the top first. A division by a 64-bit zero is undefined
  behaviour in C++ and is the outcome \<open>Crashed\<close>. The clock is a function of the number of
  executed instructions.
\<close>

section \<open>Machine state\<close>

datatype mermai_opcode =
    PUSH0 | PUSH1 | PUSH32 | POP | ADD | MUL | SUB | DIV | MOD | DUP1 | SWAP1 | LT | GT | EQ
  | MLOAD | MSTORE | SLOAD | SSTORE | JMP | JMPI | CALLER | CALLVALUE | TIMESTAMP | GASLIMIT
  | RETURN | REVERT | STOP

definition all_opcodes :: "mermai_opcode list" where
  "all_opcodes = [PUSH0, PUSH1, PUSH32, POP, ADD, MUL, SUB, DIV, MOD, DUP1, SWAP1, LT, GT, EQ,
     MLOAD, MSTORE, SLOAD, SSTORE, JMP, JMPI, CALLER, CALLVALUE, TIMESTAMP, GASLIMIT,
     RETURN, REVERT, STOP]"

record vm_config =
  opcode_value :: "mermai_opcode \<Rightarrow> byte"
  GAS_PUSH :: u64
  GAS_ADD :: u64
  GAS_MUL :: u64
  GAS_SLOAD :: u64
  GAS_SSTORE :: u64

text \<open>C++ requires the labels of the \<^verbatim>\<open>switch\<close> to be different.\<close>

definition opcodes_distinct :: "vm_config \<Rightarrow> bool" where
  "opcodes_distinct cfg \<longleftrightarrow> distinct (map (opcode_value cfg) all_opcodes)"

definition decode_opcode :: "vm_config \<Rightarrow> byte \<Rightarrow> mermai_opcode option" where
  "decode_opcode cfg b = find (\<lambda>oc. opcode_value cfg oc = b) all_opcodes"

record mermai_execution_context =
  caller_address :: string
  contract_address :: string
  call_value :: u64
  gas_limit :: u64
  gas_used :: u64
  program_counter :: nat
  halted :: bool
  revert_reason :: string
  stack :: "bytes list"
  memory :: bytes
  storage :: "(string, bytes) omap"

datatype vm_outcome =
    Running mermai_execution_context
  | Stopped bool mermai_execution_context
  | Crashed

section \<open>Words\<close>

definition zero_word :: bytes where
  "zero_word = replicate 32 0"

text \<open>The loops of \<^verbatim>\<open>add\<close> and \<^verbatim>\<open>sub\<close> run from the last byte to the first.\<close>

fun add_loop :: "u64 \<Rightarrow> bytes \<Rightarrow> bytes \<Rightarrow> bytes" where
  "add_loop carry (a # as) (b # bs) =
     (let sum = ucast a + ucast b + carry in ucast (sum AND 0xFF) # add_loop (drop_bit 8 sum) as bs)"
| "add_loop carry _ _ = []"

definition add_words :: "bytes \<Rightarrow> bytes \<Rightarrow> bytes" where
  "add_words a b = rev (add_loop 0 (rev a) (rev b))"

fun sub_loop :: "int \<Rightarrow> bytes \<Rightarrow> bytes \<Rightarrow> bytes" where
  "sub_loop borrow (a # as) (b # bs) =
     (let diff = uint a - uint b - borrow
      in if diff < 0 then word_of_int (diff + 256) # sub_loop 1 as bs
         else word_of_int diff # sub_loop 0 as bs)"
| "sub_loop borrow _ _ = []"

definition sub_words :: "bytes \<Rightarrow> bytes \<Rightarrow> bytes" where
  "sub_words a b = rev (sub_loop 0 (rev a) (rev b))"

definition low64 :: "bytes \<Rightarrow> u64" where
  "low64 w = foldl (\<lambda>acc b. push_bit 8 acc OR ucast b) 0 (drop 24 w)"

definition word_of_u64 :: "u64 \<Rightarrow> bytes" where
  "word_of_u64 v = replicate 24 0 @ map (\<lambda>i. ucast (drop_bit ((7 - i) * 8) v)) [0..<8]"

definition mul_words :: "bytes \<Rightarrow> bytes \<Rightarrow> bytes" where
  "mul_words a b = word_of_u64 (low64 a * low64 b)"

definition bool_word :: "bool \<Rightarrow> bytes" where
  "bool_word x = replicate 31 0 @ [if x then 1 else 0]"

text \<open>\<^verbatim>\<open>std::lexicographical_compare\<close> on two words.\<close>

fun lex_less :: "bytes \<Rightarrow> bytes \<Rightarrow> bool" where
  "lex_less (a # as) (b # bs) = (if a < b then True else if b < a then False else lex_less as bs)"
| "lex_less [] (b # bs) = True"
| "lex_less _ [] = False"

section \<open>Operations on the context\<close>

definition push_word :: "bytes \<Rightarrow> mermai_execution_context \<Rightarrow> mermai_execution_context" where
  "push_word w c = c\<lparr>stack := w # stack c\<rparr>"

text \<open>\<^verbatim>\<open>pop_word\<close> and \<^verbatim>\<open>peek_word\<close> throw on a stack that is too short. The instructions test the size before they
  pop, so only \<^verbatim>\<open>DUP1\<close> can meet the exception; the patterns on the stack below are these guarded pops (lemma
  \<open>exec_binary_pops\<close>).\<close>

definition pop_word :: "mermai_execution_context \<Rightarrow> (bytes \<times> mermai_execution_context) result" where
  "pop_word c =
     (case stack c of
        [] \<Rightarrow> Inl (Runtime_error ''Stack underflow'')
      | w # st \<Rightarrow> Inr (w, c\<lparr>stack := st\<rparr>))"

definition peek_word :: "nat \<Rightarrow> mermai_execution_context \<Rightarrow> bytes result" where
  "peek_word depth c =
     (if depth \<ge> length (stack c) then Inl (Runtime_error ''Stack underflow'') else Inr (stack c ! depth))"

definition halt :: "mermai_execution_context \<Rightarrow> mermai_execution_context" where
  "halt c = c\<lparr>halted := True\<rparr>"

definition charge :: "u64 \<Rightarrow> mermai_execution_context \<Rightarrow> mermai_execution_context" where
  "charge g c = c\<lparr>gas_used := gas_used c + g\<rparr>"

definition check_gas :: "u64 \<Rightarrow> mermai_execution_context \<Rightarrow> bool" where
  "check_gas cost c \<longleftrightarrow> \<not> gas_used c + cost > gas_limit c"

definition fail_with :: "string \<Rightarrow> mermai_execution_context \<Rightarrow> vm_outcome" where
  "fail_with reason c = Stopped False (c\<lparr>revert_reason := reason\<rparr>)"

definition load_from_storage :: "string \<Rightarrow> mermai_execution_context \<Rightarrow> bytes" where
  "load_from_storage key c = (case omap_find (storage c) key of Some v \<Rightarrow> v | None \<Rightarrow> [])"

definition store_to_storage ::
  "vm_config \<Rightarrow> string \<Rightarrow> bytes \<Rightarrow> mermai_execution_context \<Rightarrow> mermai_execution_context" where
  "store_to_storage cfg key v c =
     charge (GAS_SSTORE cfg) (c\<lparr>storage := omap_put key v (storage c)\<rparr>)"

definition jump :: "bytes \<Rightarrow> nat \<Rightarrow> mermai_execution_context \<Rightarrow> vm_outcome" where
  "jump code target c =
     (if target \<ge> length code then fail_with ''Invalid jump target'' c
      else Running (c\<lparr>program_counter := target\<rparr>))"

definition load_word :: "nat \<Rightarrow> mermai_execution_context \<Rightarrow> vm_outcome" where
  "load_word offset c =
     (if offset + 32 > length (memory c) then fail_with ''Memory access out of bounds'' c
      else Running (push_word (take 32 (drop offset (memory c))) c))"

definition store_word :: "nat \<Rightarrow> bytes \<Rightarrow> mermai_execution_context \<Rightarrow> vm_outcome" where
  "store_word offset w c =
     (if offset + 32 > length (memory c) then fail_with ''Memory access out of bounds'' c
      else Running (c\<lparr>memory := take offset (memory c) @ w @ drop (offset + length w) (memory c)\<rparr>))"

definition new_vm :: "mermai_execution_context \<Rightarrow> mermai_execution_context" where
  "new_vm ctx = ctx\<lparr>memory := take 65536 (memory ctx @ replicate (65536 - length (memory ctx)) 0)\<rparr>"

section \<open>Instructions\<close>

text \<open>
  One instruction, after the program counter was moved past its opcode. The patterns on the
  stack are the checks of the stack size: the last equation of each group is \<^verbatim>\<open>return false\<close>.
\<close>

definition exec_binary ::
  "(bytes \<Rightarrow> bytes \<Rightarrow> bytes) \<Rightarrow> u64 \<Rightarrow> mermai_execution_context \<Rightarrow> vm_outcome" where
  "exec_binary f g c =
     (case stack c of
        b # a # st \<Rightarrow> Running (charge g (push_word (f a b) (c\<lparr>stack := st\<rparr>)))
      | _ \<Rightarrow> Stopped False c)"

definition exec_divmod ::
  "vm_config \<Rightarrow> bool \<Rightarrow> mermai_execution_context \<Rightarrow> vm_outcome" where
  "exec_divmod cfg is_div c =
     (case stack c of
        divisor # dividend # st \<Rightarrow>
          if list_all (\<lambda>b. b = 0) divisor
          then Running (charge (GAS_ADD cfg) (push_word zero_word (c\<lparr>stack := st\<rparr>)))
          else if low64 divisor = 0 then Crashed
          else Running (charge (GAS_ADD cfg) (push_word (word_of_u64
                 (if is_div then low64 dividend div low64 divisor else low64 dividend mod low64 divisor))
                 (c\<lparr>stack := st\<rparr>)))
      | _ \<Rightarrow> Stopped False c)"

definition exec_compare :: "mermai_opcode \<Rightarrow> mermai_execution_context \<Rightarrow> vm_outcome" where
  "exec_compare oc c =
     (case stack c of
        right # left # st \<Rightarrow>
          let equal = (left = right); less = lex_less left right
          in Running (push_word (bool_word
               (if oc = EQ then equal else if oc = LT then less else \<not> equal \<and> \<not> less)) (c\<lparr>stack := st\<rparr>))
      | _ \<Rightarrow> Stopped False c)"

definition storage_word :: "bytes \<Rightarrow> bytes" where
  "storage_word v = (let n = min (length v) 32 in replicate (32 - n) 0 @ drop (length v - n) v)"

definition caller_word :: "string \<Rightarrow> bytes" where
  "caller_word addr = (let n = min (length addr) 32 in bytes_of_chars (take n addr) @ replicate (32 - n) 0)"

definition exec_jumpi :: "bytes \<Rightarrow> mermai_execution_context \<Rightarrow> vm_outcome" where
  "exec_jumpi code c =
     (case stack c of
        target # condition # st \<Rightarrow>
          if list_ex (\<lambda>b. b \<noteq> 0) condition then jump code (unat (target ! 31)) (c\<lparr>stack := st\<rparr>)
          else Running (c\<lparr>stack := st\<rparr>)
      | _ \<Rightarrow> Stopped False c)"

text \<open>The words that the instructions reading the environment push; the clock is an argument.\<close>

definition gas_left :: "mermai_execution_context \<Rightarrow> u64" where
  "gas_left c = (if gas_limit c > gas_used c then gas_limit c - gas_used c else 0)"

definition environment_word :: "u64 \<Rightarrow> mermai_opcode \<Rightarrow> mermai_execution_context \<Rightarrow> bytes" where
  "environment_word now oc c =
     (if oc = CALLER then caller_word (caller_address c)
      else if oc = CALLVALUE then word_of_u64 (call_value c)
      else if oc = TIMESTAMP then word_of_u64 now
      else word_of_u64 (gas_left c))"

definition exec_opcode ::
  "vm_config \<Rightarrow> bytes \<Rightarrow> u64 \<Rightarrow> mermai_opcode \<Rightarrow> mermai_execution_context \<Rightarrow> vm_outcome" where
  "exec_opcode cfg code now oc c =
     (case oc of
        PUSH0 \<Rightarrow> Running (charge (GAS_PUSH cfg) (push_word zero_word c))
      | PUSH1 \<Rightarrow>
          if program_counter c \<ge> length code then Stopped False c
          else Running (charge (GAS_PUSH cfg) (push_word (replicate 31 0 @ [code ! program_counter c])
                 (c\<lparr>program_counter := program_counter c + 1\<rparr>)))
      | PUSH32 \<Rightarrow>
          if program_counter c + 32 > length code then Stopped False c
          else Running (charge (GAS_PUSH cfg) (push_word (take 32 (drop (program_counter c) code))
                 (c\<lparr>program_counter := program_counter c + 32\<rparr>)))
      | POP \<Rightarrow> (case stack c of _ # st \<Rightarrow> Running (c\<lparr>stack := st\<rparr>) | [] \<Rightarrow> Stopped False c)
      | ADD \<Rightarrow> exec_binary add_words (GAS_ADD cfg) c
      | MUL \<Rightarrow> exec_binary mul_words (GAS_MUL cfg) c
      | SUB \<Rightarrow> exec_binary sub_words (GAS_ADD cfg) c
      | DIV \<Rightarrow> exec_divmod cfg True c
      | MOD \<Rightarrow> exec_divmod cfg False c
      | DUP1 \<Rightarrow> (case peek_word 0 c of Inr w \<Rightarrow> Running (push_word w c) | Inl e \<Rightarrow> fail_with (error_what e) c)
      | SWAP1 \<Rightarrow> (case stack c of a # b # st \<Rightarrow> Running (c\<lparr>stack := b # a # st\<rparr>) | _ \<Rightarrow> Stopped False c)
      | LT \<Rightarrow> exec_compare LT c
      | GT \<Rightarrow> exec_compare GT c
      | EQ \<Rightarrow> exec_compare EQ c
      | MLOAD \<Rightarrow>
          (case stack c of w # st \<Rightarrow> load_word (unat (w ! 31)) (c\<lparr>stack := st\<rparr>) | [] \<Rightarrow> Stopped False c)
      | MSTORE \<Rightarrow>
          (case stack c of offset # v # st \<Rightarrow> store_word (unat (offset ! 31)) v (c\<lparr>stack := st\<rparr>)
           | _ \<Rightarrow> Stopped False c)
      | SLOAD \<Rightarrow>
          (case stack c of
             key # st \<Rightarrow> Running (charge (GAS_SLOAD cfg) (push_word
               (storage_word (load_from_storage (chars_of_bytes key) c)) (c\<lparr>stack := st\<rparr>)))
           | [] \<Rightarrow> Stopped False c)
      | SSTORE \<Rightarrow>
          (case stack c of
             key # v # st \<Rightarrow> Running (store_to_storage cfg (chars_of_bytes key) v (c\<lparr>stack := st\<rparr>))
           | _ \<Rightarrow> Stopped False c)
      | JMP \<Rightarrow>
          (case stack c of w # st \<Rightarrow> jump code (unat (w ! 31)) (c\<lparr>stack := st\<rparr>) | [] \<Rightarrow> Stopped False c)
      | JMPI \<Rightarrow> exec_jumpi code c
      | CALLER \<Rightarrow> Running (push_word (environment_word now CALLER c) c)
      | CALLVALUE \<Rightarrow> Running (push_word (environment_word now CALLVALUE c) c)
      | TIMESTAMP \<Rightarrow> Running (push_word (environment_word now TIMESTAMP c) c)
      | GASLIMIT \<Rightarrow> Running (push_word (environment_word now GASLIMIT c) c)
      | RETURN \<Rightarrow> Running (halt c)
      | REVERT \<Rightarrow> Stopped False (c\<lparr>halted := True, revert_reason := ''Contract reverted''\<rparr>)
      | STOP \<Rightarrow> Running (halt c))"

lemma peek_top: "peek_word 0 c = (case stack c of [] \<Rightarrow> Inl (Runtime_error ''Stack underflow'') | w # _ \<Rightarrow> Inr w)"
  by (simp add: peek_word_def split: list.splits)

lemma exec_binary_pops:
  "exec_binary f g c =
     (if length (stack c) < 2 then Stopped False c
      else case rbind (pop_word c) (\<lambda>(b, c1). rbind (pop_word c1) (\<lambda>(a, c2). Inr (a, b, c2))) of
             Inl e \<Rightarrow> fail_with (error_what e) c
           | Inr (a, b, c2) \<Rightarrow> Running (charge g (push_word (f a b) c2)))"
  by (auto simp: exec_binary_def pop_word_def split: list.splits)

text \<open>One turn of the loop of \<^verbatim>\<open>execute\<close>.\<close>

definition vm_step :: "vm_config \<Rightarrow> bytes \<Rightarrow> u64 \<Rightarrow> mermai_execution_context \<Rightarrow> vm_outcome" where
  "vm_step cfg code now c =
     (if halted c \<or> program_counter c \<ge> length code then Stopped True c
      else if \<not> check_gas 1 c then Stopped False (c\<lparr>revert_reason := ''Out of gas''\<rparr>)
      else let c1 = c\<lparr>program_counter := program_counter c + 1\<rparr>
        in case decode_opcode cfg (code ! program_counter c) of
             None \<Rightarrow> fail_with ''Unknown opcode'' c1
           | Some oc \<Rightarrow> exec_opcode cfg code now oc c1)"

text \<open>The loop may run forever; \<open>None\<close> means that it does.\<close>

partial_function (option) exec_loop ::
  "vm_config \<Rightarrow> bytes \<Rightarrow> (nat \<Rightarrow> u64) \<Rightarrow> nat \<Rightarrow> mermai_execution_context \<Rightarrow> vm_outcome option" where
  "exec_loop cfg code clock n c =
     (case vm_step cfg code (clock n) c of
        Running c' \<Rightarrow> exec_loop cfg code clock (Suc n) c'
      | r \<Rightarrow> Some r)"

definition execute ::
  "vm_config \<Rightarrow> bytes \<Rightarrow> (nat \<Rightarrow> u64) \<Rightarrow> mermai_execution_context \<Rightarrow> vm_outcome option" where
  "execute cfg code clock ctx = exec_loop cfg code clock 0 (ctx\<lparr>program_counter := 0, halted := False\<rparr>)"

section \<open>The token stub\<close>

definition compile_to_bytecode :: "vm_config \<Rightarrow> mermai_token_contract \<Rightarrow> bytes" where
  "compile_to_bytecode cfg t = [opcode_value cfg PUSH0, opcode_value cfg STOP]"

section \<open>The assembler\<close>

definition asm_mnemonic :: "string \<Rightarrow> mermai_opcode option" where
  "asm_mnemonic token =
     (if token = ''PUSH0'' then Some PUSH0 else if token = ''STOP'' then Some STOP
      else if token = ''POP'' then Some POP else if token = ''ADD'' then Some ADD
      else if token = ''SUB'' then Some SUB else if token = ''MUL'' then Some MUL
      else if token = ''DIV'' then Some DIV else if token = ''MOD'' then Some MOD
      else if token = ''SLOAD'' then Some SLOAD else if token = ''SSTORE'' then Some SSTORE
      else None)"

definition assemble_token :: "vm_config \<Rightarrow> string \<Rightarrow> bytes result" where
  "assemble_token cfg token =
     (case asm_mnemonic token of
        Some oc \<Rightarrow> Inr [opcode_value cfg oc]
      | None \<Rightarrow>
          if take 6 token = ''PUSH1:''
          then rbind (stoull ''stoul'' 0 (drop 6 token)) (\<lambda>v. Inr [opcode_value cfg PUSH1, ucast v])
          else Inl (Invalid_argument (''Unknown assembly token: '' @ token)))"

fun assemble :: "vm_config \<Rightarrow> string list \<Rightarrow> bytes result" where
  "assemble cfg [] = Inr []"
| "assemble cfg (token # tokens) =
     rbind (assemble_token cfg token) (\<lambda>bs. rbind (assemble cfg tokens) (\<lambda>rest. Inr (bs @ rest)))"

definition compile_from_asm :: "vm_config \<Rightarrow> string \<Rightarrow> bytes result" where
  "compile_from_asm cfg asm_code = assemble cfg (words asm_code)"

definition validate_bytecode :: "bytes \<Rightarrow> bool" where
  "validate_bytecode code \<longleftrightarrow> code \<noteq> []"

section \<open>Arithmetic\<close>

fun val_le :: "bytes \<Rightarrow> nat" where
  "val_le [] = 0"
| "val_le (b # bs) = unat b + 256 * val_le bs"

definition word_val :: "bytes \<Rightarrow> nat" where
  "word_val w = val_le (rev w)"

lemma val_le_append: "val_le (as @ bs) = val_le as + 256 ^ length as * val_le bs"
  by (induction as) (simp_all add: algebra_simps)

lemma val_le_bound: "val_le bs < 256 ^ length bs"
proof (induction bs)
  case (Cons b bs)
  have "unat b < 256" using unat_byte_less [of b] by simp
  then have "unat b + 256 * val_le bs < 256 + 256 * val_le bs" by simp
  also have "\<dots> \<le> 256 * 256 ^ length bs" using Cons by linarith
  finally show ?case by simp
qed simp

lemma mod_step:
  "(x + 256 * y) mod (256 * M) = x mod 256 + 256 * ((y + x div 256) mod M)" for x y M :: nat
proof -
  have "(x + 256 * y) div 256 = y + x div 256" by simp
  then show ?thesis by (simp add: mod_mult2_eq)
qed

lemma unat_ucast_byte: "unat (ucast (b :: byte) :: u64) = unat b"
  using unat_byte_less [of b] by (simp add: unsigned_ucast_eq take_bit_nat_eq_self)

lemma unat_low_byte: "unat (ucast (s AND 0xFF) :: byte) = unat (s :: u64) mod 256"
proof -
  have "s AND 0xFF = take_bit 8 s" by (simp add: take_bit_eq_mask mask_numeral)
  moreover have "unat (ucast (take_bit 8 s) :: byte) = take_bit 8 (unat s)"
    by (simp add: unsigned_ucast_eq unsigned_take_bit_eq)
  ultimately show ?thesis by (simp add: take_bit_eq_mod)
qed

lemma add_loop_val:
  "length as = length bs \<Longrightarrow> unat c \<le> 1 \<Longrightarrow>
     val_le (add_loop c as bs) = (val_le as + val_le bs + unat c) mod 256 ^ length as"
proof (induction c as bs rule: add_loop.induct)
  case (1 c a as b bs)
  let ?s = "ucast a + ucast b + c :: u64"
  have ab: "unat a < 256" "unat b < 256" using unat_byte_less [of a] unat_byte_less [of b] by auto
  have "unat (ucast a :: u64) = unat a" "unat (ucast b :: u64) = unat b"
    by (simp_all add: unat_ucast_byte)
  with ab 1(3) have s: "unat ?s = unat a + unat b + unat c"
    by (simp add: unat_word_ariths)
  then have c': "unat (drop_bit 8 ?s) = unat ?s div 256" "unat ?s div 256 \<le> 1"
    using ab 1(3) s by (simp_all add: drop_bit_eq_div unat_div)
  have IH: "val_le (add_loop (drop_bit 8 ?s) as bs) = (val_le as + val_le bs + unat ?s div 256) mod 256 ^ length as"
    using 1(1) [OF refl] 1(2) c' by simp
  have "val_le (add_loop c (a # as) (b # bs)) =
      unat ?s mod 256 + 256 * ((val_le as + val_le bs + unat ?s div 256) mod 256 ^ length as)"
    using IH by (simp add: Let_def unat_low_byte)
  also have "\<dots> = (unat ?s + 256 * (val_le as + val_le bs)) mod (256 * 256 ^ length as)"
    by (simp only: mod_step)
  also have "unat ?s + 256 * (val_le as + val_le bs) = val_le (a # as) + val_le (b # bs) + unat c"
    by (simp add: s)
  finally show ?case by simp
qed auto

lemma unat_byte_of_int: "0 \<le> x \<Longrightarrow> x < 256 \<Longrightarrow> int (unat (word_of_int x :: byte)) = x"
  by (simp add: take_bit_int_eq_self unsigned_of_int)

lemma sub_loop_val:
  "length as = length bs \<Longrightarrow> borrow \<in> {0, 1} \<Longrightarrow>
     int (val_le (sub_loop borrow as bs)) = (int (val_le as) - int (val_le bs) - borrow) mod 256 ^ length as"
proof (induction borrow as bs rule: sub_loop.induct)
  case (1 borrow a as b bs)
  let ?d = "uint a - uint b - borrow"
  have ab: "0 \<le> uint a" "uint a < 256" "0 \<le> uint b" "uint b < 256"
    using uint_bounded [of a] uint_bounded [of b] by (auto simp: uint_ge_0)
  have step: "(d + 256 * y) mod (256 * M) = d mod 256 + 256 * ((y + d div 256) mod M)"
    if "0 < M" for d y M :: int
    using that zmod_zmult2_eq [of M "d + 256 * y" 256] by simp
  have "0 \<le> borrow" "borrow \<le> 1" using "1.prems"(2) by auto
  with ab have range: "-256 \<le> ?d" "?d < 256" by linarith+
  have "int (val_le (sub_loop borrow (a # as) (b # bs))) =
      ?d mod 256 + 256 * ((int (val_le as) - int (val_le bs) + ?d div 256) mod 256 ^ length as)"
  proof (cases "?d < 0")
    case True
    have d: "d mod 256 = d + 256 \<and> d div 256 = - 1" if "-256 \<le> d" "d < 0" for d :: int
      using that by presburger
    have w: "int (unat (word_of_int (?d + 256) :: byte)) = ?d + 256"
      using True range by (intro unat_byte_of_int) auto
    have "sub_loop borrow (a # as) (b # bs) = word_of_int (?d + 256) # sub_loop 1 as bs"
      using True by (simp only: sub_loop.simps Let_def if_True)
    then have "int (val_le (sub_loop borrow (a # as) (b # bs))) = ?d + 256 + 256 * int (val_le (sub_loop 1 as bs))"
      by (simp only: val_le.simps of_nat_add of_nat_mult of_nat_numeral w)
    with d [OF range(1) True] "1.IH"(1) [OF refl True] "1.prems"(1) show ?thesis by simp
  next
    case False
    have w: "int (unat (word_of_int ?d :: byte)) = ?d"
      using False range by (intro unat_byte_of_int) auto
    have "sub_loop borrow (a # as) (b # bs) = word_of_int ?d # sub_loop 0 as bs"
      using False by (simp only: sub_loop.simps Let_def if_False)
    then have "int (val_le (sub_loop borrow (a # as) (b # bs))) = ?d + 256 * int (val_le (sub_loop 0 as bs))"
      by (simp only: val_le.simps of_nat_add of_nat_mult of_nat_numeral w)
    moreover have "?d mod 256 = ?d" "?d div 256 = 0" using False range by auto
    ultimately show ?thesis using "1.IH"(2) [OF refl False] "1.prems"(1) by simp
  qed
  also have "\<dots> = (?d + 256 * (int (val_le as) - int (val_le bs))) mod (256 * 256 ^ length as)"
    by (simp only: step zero_less_power zero_less_numeral)
  also have "?d + 256 * (int (val_le as) - int (val_le bs)) =
      int (val_le (a # as)) - int (val_le (b # bs)) - borrow"
    by simp
  finally show ?case by (simp only: list.size power_Suc add_0_right add_Suc_right)
qed auto

lemma length_add_loop [simp]: "length (add_loop c as bs) = min (length as) (length bs)"
  by (induction c as bs rule: add_loop.induct) (simp_all add: Let_def)

lemma length_sub_loop [simp]: "length (sub_loop d as bs) = min (length as) (length bs)"
  by (induction d as bs rule: sub_loop.induct) (simp_all add: Let_def)

lemma be_step_unat: "be_step (of_nat n :: u64) b = of_nat (n * 256 + unat b)"
proof -
  have "be_step (of_nat n :: u64) b = push_bit 8 (of_nat n) + ucast b"
    unfolding be_step_def
    by (rule disjunctive_add_eq_or [symmetric]) (auto simp: bit_eq_iff bit_simps dest: bit_imp_le_length)
  also have "push_bit 8 (of_nat n :: u64) = of_nat (n * 256)" by (simp add: push_bit_eq_mult)
  also have "(ucast b :: u64) = of_nat (unat b)" by simp
  finally show ?thesis by simp
qed

lemma low64_eq: "low64 w = of_nat (val_le (rev (drop 24 w)))"
proof -
  have "foldl be_step (of_nat n) bs = (of_nat (n * 256 ^ length bs + val_le (rev bs)) :: u64)" for n bs
  proof (induction bs arbitrary: n)
    case (Cons b bs)
    then show ?case by (simp only: foldl_Cons be_step_unat) (simp add: val_le_append algebra_simps)
  qed simp
  from this [of 0 "drop 24 w"] show ?thesis by (simp add: low64_def be_step_def [abs_def])
qed

lemma unat_low64:
  assumes "length w = 32"
  shows "unat (low64 w) = word_val w mod 2 ^ 64"
proof -
  have "rev w = rev (drop 24 w) @ rev (take 24 w)" by (metis append_take_drop_id rev_append)
  then have "word_val w = val_le (rev (drop 24 w)) + 256 ^ 8 * val_le (rev (take 24 w))"
    using assms by (simp add: word_val_def val_le_append)
  then have "word_val w mod 2 ^ 64 = val_le (rev (drop 24 w)) mod 2 ^ 64" by simp
  then show ?thesis by (simp add: low64_eq unat_of_nat take_bit_eq_mod)
qed

lemma length_word_of_u64 [simp]: "length (word_of_u64 v) = 32"
  by (simp add: word_of_u64_def)

lemma low64_word_of_u64 [simp]: "low64 (word_of_u64 v) = v"
proof -
  have "drop 24 (word_of_u64 v) = map (be_byte 8 v) [0..<8]"
    by (simp add: word_of_u64_def be_byte_eq)
  then show ?thesis using foldl_be_bytes [of 8 8 v] by (simp add: low64_def be_step_def [abs_def])
qed

lemma word_val_word_of_u64 [simp]: "word_val (word_of_u64 v) = unat v"
proof -
  have "rev (word_of_u64 v) = rev (drop 24 (word_of_u64 v)) @ replicate 24 0"
    by (simp add: word_of_u64_def)
  moreover have "val_le (replicate n 0) = 0" for n by (induction n) auto
  ultimately have "word_val (word_of_u64 v) = val_le (rev (drop 24 (word_of_u64 v)))"
    by (simp add: word_val_def val_le_append)
  also have "\<dots> < 256 ^ 8" using val_le_bound [of "rev (drop 24 (word_of_u64 v))"] by simp
  finally have "word_val (word_of_u64 v) mod 2 ^ 64 = word_val (word_of_u64 v)" by simp
  with unat_low64 [of "word_of_u64 v"] show ?thesis by simp
qed

text \<open>C21: Addition and subtraction of the machine are exact modulo 2 to the power 256, carry by carry;
  multiplication is not: it multiplies the low 64 bits only and drops everything above 64 bits of
  the product.\<close>
theorem vm_arithmetic:
  assumes "length a = 32" "length b = 32"
  shows "word_val (add_words a b) = (word_val a + word_val b) mod 2 ^ 256 \<and>
    int (word_val (sub_words a b)) = (int (word_val a) - int (word_val b)) mod 2 ^ 256 \<and>
    word_val (mul_words a b) = (word_val a mod 2 ^ 64) * (word_val b mod 2 ^ 64) mod 2 ^ 64"
proof -
  have p: "(256 :: nat) ^ 32 = 2 ^ 256" "(256 :: int) ^ 32 = 2 ^ 256" by simp_all
  have "word_val (add_words a b) = (word_val a + word_val b) mod 256 ^ 32"
    using add_loop_val [of "rev a" "rev b" 0] assms by (simp add: add_words_def word_val_def)
  moreover have "int (word_val (sub_words a b)) = (int (word_val a) - int (word_val b)) mod 256 ^ 32"
    using sub_loop_val [of "rev a" "rev b" 0] assms by (simp add: sub_words_def word_val_def)
  moreover have "unat (low64 a * low64 b) = unat (low64 a) * unat (low64 b) mod 2 ^ 64"
    by (simp add: unat_word_ariths)
  ultimately show ?thesis using unat_low64 [OF assms(1)] unat_low64 [OF assms(2)]
    by (simp only: p mul_words_def word_val_word_of_u64)
qed

lemma vm_arithmetic_witness:
  "word_val (mul_words (add_words (word_of_u64 6) (word_of_u64 1)) (word_of_u64 3)) = 21"
proof -
  have "word_val (add_words (word_of_u64 6) (word_of_u64 1)) = 7"
    using vm_arithmetic [of "word_of_u64 6" "word_of_u64 1"] by simp
  moreover have "length (add_words (word_of_u64 6) (word_of_u64 1)) = 32" by (simp add: add_words_def)
  ultimately show ?thesis using vm_arithmetic [of "add_words (word_of_u64 6) (word_of_u64 1)" "word_of_u64 3"] by simp
qed

section \<open>Well-formed machines\<close>

definition vm_ok :: "mermai_execution_context \<Rightarrow> bool" where
  "vm_ok c \<longleftrightarrow> list_all (\<lambda>w. length w = 32) (stack c) \<and> length (memory c) = 65536"

lemma new_vm_ok: "stack ctx = [] \<Longrightarrow> vm_ok (new_vm ctx)"
  by (simp add: vm_ok_def new_vm_def)

lemma word_lengths [simp]:
  "length zero_word = 32" "length (bool_word x) = 32" "length (storage_word v) = 32"
  "length (caller_word addr) = 32" "length (mul_words a b) = 32"
  "length a = 32 \<Longrightarrow> length b = 32 \<Longrightarrow> length (add_words a b) = 32"
  "length a = 32 \<Longrightarrow> length b = 32 \<Longrightarrow> length (sub_words a b) = 32"
  by (simp_all add: zero_word_def bool_word_def storage_word_def caller_word_def mul_words_def
      add_words_def sub_words_def Let_def)

lemmas vm_ops = exec_opcode_def peek_top halt_def exec_jumpi_def environment_word_def exec_binary_def exec_divmod_def exec_compare_def load_word_def
  store_word_def jump_def fail_with_def store_to_storage_def push_word_def charge_def

text \<open>The result of an instruction, whatever it is, is well formed again.\<close>

lemma exec_opcode_ok:
  assumes "vm_ok c" "exec_opcode cfg code now oc c = Running c' \<or> exec_opcode cfg code now oc c = Stopped r c'"
  shows "vm_ok c'"
  using assms
  by (cases oc) (auto simp: vm_ops vm_ok_def Let_def split: list.splits if_splits)

lemma vm_step_ok:
  assumes "vm_ok c" "vm_step cfg code now c = Running c' \<or> vm_step cfg code now c = Stopped r c'"
  shows "vm_ok c'"
proof -
  let ?c1 = "c\<lparr>program_counter := program_counter c + 1\<rparr>"
  have ok1: "vm_ok ?c1" "vm_ok (c\<lparr>revert_reason := x\<rparr>)" "vm_ok (?c1\<lparr>revert_reason := x\<rparr>)" for x
    using assms(1) by (simp_all add: vm_ok_def)
  show ?thesis
  proof (cases "halted c \<or> program_counter c \<ge> length code \<or> \<not> check_gas 1 c")
    case True
    then show ?thesis using assms ok1 by (auto simp: vm_step_def split: if_splits)
  next
    case False
    then show ?thesis using assms(2) ok1 exec_opcode_ok [OF ok1(1)]
      by (auto simp: vm_step_def fail_with_def Let_def split: option.splits)
  qed
qed

section \<open>Programs without jumps\<close>

text \<open>Instruction by instruction, operands skipped, none of the opcodes of a set occurs.\<close>

definition operand_size :: "mermai_opcode \<Rightarrow> nat" where
  "operand_size oc = (case oc of PUSH1 \<Rightarrow> 1 | PUSH32 \<Rightarrow> 32 | _ \<Rightarrow> 0)"

function avoids :: "vm_config \<Rightarrow> mermai_opcode set \<Rightarrow> bytes \<Rightarrow> bool" where
  "avoids cfg X [] = True"
| "avoids cfg X (b # bs) =
     (case decode_opcode cfg b of
        None \<Rightarrow> avoids cfg X bs
      | Some oc \<Rightarrow> oc \<notin> X \<and> avoids cfg X (drop (operand_size oc) bs))"
  by pat_completeness auto
termination by (relation "measure (length \<circ> snd \<circ> snd)") auto

lemma avoids_opcode:
  assumes "avoids cfg X (drop (program_counter c) code)" "program_counter c < length code"
    and "decode_opcode cfg (code ! program_counter c) = Some oc"
  shows "oc \<notin> X" "avoids cfg X (drop (program_counter c + 1 + operand_size oc) code)"
proof -
  have "drop (program_counter c) code = code ! program_counter c # drop (Suc (program_counter c)) code"
    using assms(2) by (simp add: Cons_nth_drop_Suc)
  with assms(1,3) show "oc \<notin> X" "avoids cfg X (drop (program_counter c + 1 + operand_size oc) code)"
    by (simp_all add: add.commute)
qed

lemma straight_opcode:
  assumes "exec_opcode cfg code now oc c = Running c'" "oc \<noteq> JMP" "oc \<noteq> JMPI"
  shows "program_counter c' = program_counter c + operand_size oc"
  using assms by (cases oc) (auto simp: vm_ops operand_size_def Let_def split: list.splits if_splits)

lemma opcode_crashes: "exec_opcode cfg code now oc c = Crashed \<Longrightarrow> oc = DIV \<or> oc = MOD"
  by (cases oc) (auto simp: vm_ops Let_def split: list.splits if_splits)

text \<open>
  Without jumps every instruction moves forward, so the loop ends; it ends by returning unless a
  division crashes.
\<close>

lemma straight_program_ends:
  assumes "JMP \<in> X" "JMPI \<in> X" "avoids cfg X (drop (program_counter c) code)"
  shows "(\<exists>ok c'. exec_loop cfg code clock n c = Some (Stopped ok c')) \<or>
    exec_loop cfg code clock n c = Some Crashed \<and> \<not> {DIV, MOD} \<subseteq> X"
  using assms(3)
proof (induction "length code - program_counter c" arbitrary: n c rule: less_induct)
  case less
  let ?c1 = "c\<lparr>program_counter := program_counter c + 1\<rparr>"
  show ?case
  proof (cases "vm_step cfg code (clock n) c")
    case (Running c')
    then obtain oc where pc: "program_counter c < length code"
      and oc: "decode_opcode cfg (code ! program_counter c) = Some oc" "exec_opcode cfg code (clock n) oc ?c1 = Running c'"
      by (auto simp: vm_step_def Let_def fail_with_def split: if_splits option.splits)
    note av = avoids_opcode [OF less.prems pc oc(1)]
    from av(1) assms(1,2) have "oc \<noteq> JMP" "oc \<noteq> JMPI" by auto
    from straight_opcode [OF oc(2) this] have pc': "program_counter c' = program_counter c + 1 + operand_size oc" by simp
    with less.hyps [of c' "Suc n"] av(2) pc show ?thesis by (simp add: exec_loop.simps [of cfg code clock n c] Running)
  next
    case (Stopped ok c')
    then show ?thesis by (simp add: exec_loop.simps [of cfg code clock n c])
  next
    case Crashed
    then obtain oc where pc: "program_counter c < length code"
      and oc: "decode_opcode cfg (code ! program_counter c) = Some oc" "exec_opcode cfg code (clock n) oc ?c1 = Crashed"
      by (auto simp: vm_step_def Let_def fail_with_def split: if_splits option.splits)
    from avoids_opcode(1) [OF less.prems pc oc(1)] opcode_crashes [OF oc(2)] have "\<not> {DIV, MOD} \<subseteq> X" by auto
    with Crashed show ?thesis by (simp add: exec_loop.simps [of cfg code clock n c])
  qed
qed

lemma decode_opcode_value:
  assumes "opcodes_distinct cfg"
  shows "decode_opcode cfg (opcode_value cfg oc) = Some oc"
proof -
  have mem: "oc \<in> set all_opcodes" by (cases oc) (simp_all add: all_opcodes_def)
  have "find (\<lambda>o'. opcode_value cfg o' = opcode_value cfg oc) ocs = Some oc"
    if "distinct (map (opcode_value cfg) ocs)" "oc \<in> set ocs" for ocs
    using that by (induction ocs) auto
  from this [of all_opcodes] mem assms show ?thesis by (simp add: decode_opcode_def opcodes_distinct_def)
qed

lemma assembled_avoids:
  assumes "opcodes_distinct cfg" "PUSH1 \<notin> X" "\<And>token oc. token \<in> set tokens \<Longrightarrow> asm_mnemonic token = Some oc \<Longrightarrow> oc \<notin> X"
  shows "assemble cfg tokens = Inr code \<Longrightarrow> avoids cfg X code"
  using assms(3)
proof (induction tokens arbitrary: code)
  case (Cons token tokens)
  from Cons.prems(1) obtain bs rest where bs: "assemble_token cfg token = Inr bs"
    and rest: "assemble cfg tokens = Inr rest" "code = bs @ rest"
    by (auto elim!: rbind_InrE)
  have IH: "avoids cfg X rest" by (rule Cons.IH [OF rest(1)]) (use Cons.prems(2) in auto)
  from bs consider oc where "bs = [opcode_value cfg oc]" "asm_mnemonic token = Some oc"
    | v where "bs = [opcode_value cfg PUSH1, v]"
    by (auto simp: assemble_token_def split: option.splits if_splits elim!: rbind_InrE)
  then show ?case
  proof cases
    case 1
    then have "operand_size oc = 0" by (auto simp: asm_mnemonic_def operand_size_def split: if_splits)
    with 1 rest IH Cons.prems(2) [of token oc] show ?thesis by (simp add: decode_opcode_value [OF assms(1)])
  next
    case 2
    with rest IH assms(2) show ?thesis by (simp add: decode_opcode_value [OF assms(1)] operand_size_def)
  qed
qed simp

text \<open>C22: Every program the assembler produces ends on every input, whatever the gas limit, the storage and
  the clock (the assembler knows no jumps): \<^verbatim>\<open>execute\<close> returns true or false, except that a
  program with a token \<^verbatim>\<open>DIV\<close> or \<^verbatim>\<open>MOD\<close> may end in the division of 64-bit words by zero, which is undefined
  in C++ and ends the process (\<open>assembled_program_crashes\<close> is such a program).
\<close>

theorem assembled_programs_terminate:
  assumes "opcodes_distinct cfg" "compile_from_asm cfg asm_code = Inr code"
  shows "(\<exists>ok c. execute cfg code clock ctx = Some (Stopped ok c)) \<or>
    execute cfg code clock ctx = Some Crashed \<and> {''DIV'', ''MOD''} \<inter> set (words asm_code) \<noteq> {}"
proof -
  let ?div = "{''DIV'', ''MOD''} \<inter> set (words asm_code) \<noteq> {}"
  let ?X = "{JMP, JMPI} \<union> (if ?div then {} else {DIV, MOD})"
  have "oc \<notin> ?X" if "token \<in> set (words asm_code)" "asm_mnemonic token = Some oc" for token oc
    using that by (auto simp: asm_mnemonic_def split: if_splits)
  then have "avoids cfg ?X code"
    using assembled_avoids [OF assms(1), of ?X "words asm_code" code] assms(2) by (auto simp: compile_from_asm_def)
  with straight_program_ends [of ?X cfg "ctx\<lparr>program_counter := 0, halted := False\<rparr>" code clock 0] show ?thesis
    by (auto simp: execute_def split: if_splits)
qed

section \<open>Free loops\<close>

text \<open>Gas does not bound execution: the two-instruction program that pushes the caller and jumps to it
  is never charged. The last byte of the pushed word is 0 for every caller of less than 32 characters, so
  the program runs forever under any gas limit that allows the first instruction.\<close>

definition loop_program :: "vm_config \<Rightarrow> bytes" where
  "loop_program cfg = [opcode_value cfg CALLER, opcode_value cfg JMP]"

lemma free_loop_runs_forever:
  assumes "opcodes_distinct cfg" "check_gas 1 ctx" "length (caller_address ctx) < 32"
  shows "execute cfg (loop_program cfg) clock ctx = None"
proof -
  let ?code = "loop_program cfg"
  let ?loop = "\<lambda>c. \<not> halted c \<and> check_gas 1 c \<and> caller_address c = caller_address ctx \<and>
    (program_counter c = 0 \<or> program_counter c = 1 \<and> (\<exists>w st. stack c = w # st \<and> w ! 31 = 0))"
  have z: "caller_word (caller_address ctx) ! 31 = 0" using assms(3) by (simp add: caller_word_def nth_append Let_def)
  have step: "\<exists>c'. vm_step cfg ?code now c = Running c' \<and> ?loop c'" if "?loop c" for c now
    using that z by (auto simp: vm_step_def loop_program_def decode_opcode_value [OF assms(1)] vm_ops check_gas_def)
  let ?P = "\<lambda>cfg' code (clock' :: nat \<Rightarrow> u64) (n :: nat) c (y :: vm_outcome).
    cfg' = cfg \<longrightarrow> code = ?code \<longrightarrow> \<not> ?loop c"
  have never: "?P cfg' code clock' n c y" if "exec_loop cfg' code clock' n c = Some y"
    for cfg' code clock' n c y
  proof (rule exec_loop.raw_induct [where P = ?P, OF _ that])
    fix f cfg' code clock' n c y
    assume IH: "\<And>cfg' code clock' n c y. f cfg' code clock' n c = Some y \<Longrightarrow> ?P cfg' code clock' n c y"
      and body: "(case vm_step cfg' code (clock' n) c of Running c' \<Rightarrow> f cfg' code clock' (Suc n) c'
        | Stopped r c' \<Rightarrow> Some (Stopped r c') | Crashed \<Rightarrow> Some Crashed) = Some y"
    show "?P cfg' code clock' n c y"
    proof (intro impI notI)
      assume eqs: "cfg' = cfg" "code = ?code" and l: "?loop c"
      from step [OF l] obtain c' where c': "vm_step cfg ?code (clock' n) c = Running c'" "?loop c'" by blast
      with body eqs have "f cfg ?code clock' (Suc n) c' = Some y" by simp
      from IH [OF this] c'(2) show False by blast
    qed
  qed
  have "?loop (ctx\<lparr>program_counter := 0, halted := False\<rparr>)" using assms(2) by (simp add: check_gas_def)
  with never show ?thesis unfolding execute_def by (metis not_Some_eq)
qed

section \<open>Single steps\<close>

definition byte_word :: "byte \<Rightarrow> bytes" where
  "byte_word b = replicate 31 0 @ [b]"

lemma exec_loop_step: "vm_step cfg code (clock n) c = Running c' \<Longrightarrow> exec_loop cfg code clock n c = exec_loop cfg code clock (Suc n) c'"
  by (simp add: exec_loop.simps [of cfg code clock n c])

lemma step_PUSH1:
  assumes "opcodes_distinct cfg" "\<not> halted c" "check_gas 1 c"
    and "drop (program_counter c) code = opcode_value cfg PUSH1 # b # rest"
  shows "vm_step cfg code now c = Running (c\<lparr>program_counter := program_counter c + 2,
    gas_used := gas_used c + GAS_PUSH cfg, stack := byte_word b # stack c\<rparr>)"
proof -
  have len: "program_counter c + 1 < length code" using arg_cong [OF assms(4), of length] by simp
  have "code ! program_counter c = opcode_value cfg PUSH1" "code ! (program_counter c + 1) = b"
    using assms(4) len nth_drop [of "program_counter c" code 0] nth_drop [of "program_counter c" code 1] by simp_all
  with assms(1-3) len show ?thesis
    by (simp add: vm_step_def decode_opcode_value exec_opcode_def push_word_def charge_def byte_word_def Let_def)
qed

lemma step_opcode:
  assumes "opcodes_distinct cfg" "\<not> halted c" "check_gas 1 c"
    and "drop (program_counter c) code = opcode_value cfg oc # rest"
  shows "vm_step cfg code now c = exec_opcode cfg code now oc (c\<lparr>program_counter := program_counter c + 1\<rparr>)"
proof -
  have len: "program_counter c < length code" using arg_cong [OF assms(4), of length] by simp
  have "code ! program_counter c = opcode_value cfg oc"
    using assms(4) len nth_drop [of "program_counter c" code 0] by simp
  with assms(1-3) len show ?thesis by (simp add: vm_step_def decode_opcode_value Let_def)
qed

lemma gas_enough:
  assumes "unat (gas_used c) + unat g + 1 \<le> unat (gas_limit c)"
  shows "gas_used c + g + 1 \<le> gas_limit c"
proof -
  have lt: "unat (gas_limit c) < 2 ^ 64" by (rule unat_u64_less)
  have "unat (gas_used c + g) = unat (gas_used c) + unat g"
    by (rule unat_add_room) (use assms lt in linarith)
  moreover have "unat (gas_used c + g + 1) = unat (gas_used c + g) + unat (1 :: u64)"
    by (rule unat_add_room) (use assms lt calculation in simp)
  ultimately show ?thesis using assms by (simp add: word_le_nat_alt)
qed

text \<open>A program that divides by a word whose low 64 bits are zero: the guard looks at all 32 bytes, the
  division at the last eight. The caller, left-aligned in its word, is such a divisor when its address has
  at most 24 characters.\<close>

definition crash_program :: "vm_config \<Rightarrow> bytes" where
  "crash_program cfg = [opcode_value cfg CALLER, opcode_value cfg CALLER, opcode_value cfg DIV]"

lemma low64_zeros: "length w = 32 \<Longrightarrow> drop 24 w = replicate 8 0 \<Longrightarrow> low64 w = 0"
  by (simp add: low64_def numeral_eq_Suc)

lemma caller_divisor:
  assumes "length who \<le> 24" "who \<noteq> []" "hd who \<noteq> char_of_byte 0"
  shows "low64 (caller_word who) = 0" "\<not> list_all (\<lambda>b. b = 0) (caller_word who)"
proof -
  show "low64 (caller_word who) = 0"
    using assms(1) by (intro low64_zeros) (simp_all add: caller_word_def Let_def min_def)
  obtain c cs where "who = c # cs" using assms(2) by (cases who) auto
  moreover from this have "byte_of_char c \<noteq> 0" using assms(3) by (metis char_of_byte_of_char list.sel(1))
  ultimately show "\<not> list_all (\<lambda>b. b = 0) (caller_word who)"
    using assms(1) by (simp add: caller_word_def Let_def min_def)
qed

lemma crash_program_crashes:
  assumes "opcodes_distinct cfg" "check_gas 1 ctx" 
    and "length (caller_address ctx) \<le> 24" "caller_address ctx \<noteq> []" "hd (caller_address ctx) \<noteq> char_of_byte 0"
  shows "execute cfg (crash_program cfg) clock ctx = Some Crashed"
proof -
  let ?code = "crash_program cfg" and ?w = "caller_word (caller_address ctx)"
  define c0 where "c0 = ctx\<lparr>program_counter := 0, halted := False\<rparr>"
  define c1 where "c1 = c0\<lparr>program_counter := 1, stack := ?w # stack ctx\<rparr>"
  define c2 where "c2 = c1\<lparr>program_counter := 2, stack := ?w # stack c1\<rparr>"
  note defs = c0_def c1_def c2_def vm_step_def crash_program_def decode_opcode_value [OF assms(1)] check_gas_def vm_ops
  have "vm_step cfg ?code now c0 = Running c1" "vm_step cfg ?code now c1 = Running c2" for now
    using assms(2) by (simp_all add: defs)
  moreover have "vm_step cfg ?code now c2 = Crashed" for now
    using assms(2) caller_divisor [OF assms(3-5)] by (simp add: defs)
  ultimately show ?thesis
    by (simp add: execute_def c0_def [symmetric] exec_loop.simps [of cfg ?code clock "Suc (Suc 0)"] exec_loop_step)
qed

section \<open>Examples\<close>

definition demo_config :: vm_config where
  "demo_config = \<lparr>opcode_value = (\<lambda>oc. of_nat (length (takeWhile (\<lambda>x. x \<noteq> oc) all_opcodes))),
     GAS_PUSH = 3, GAS_ADD = 3, GAS_MUL = 5, GAS_SLOAD = 200, GAS_SSTORE = 5000\<rparr>"

definition demo_context :: mermai_execution_context where
  "demo_context = \<lparr>caller_address = ''a'', contract_address = [], call_value = 0, gas_limit = 1000, gas_used = 0,
     program_counter = 0, halted = False, revert_reason = [], stack = [], memory = [], storage = []\<rparr>"

lemma demo_config_distinct: "opcodes_distinct demo_config"
  by (simp add: opcodes_distinct_def demo_config_def all_opcodes_def)

text \<open>
  An assembled program that crashes: the sum of 2 to the power 64 minus 1 and 1, both the result of
  64-bit multiplications or pushes, is a divisor that is not zero and whose low 64 bits are.
\<close>

lemma crash_words:
  "sub_words zero_word (byte_word 1) = replicate 32 255"
  "mul_words (replicate 32 255) (byte_word 1) = replicate 24 0 @ replicate 8 255"
  "add_words (replicate 24 0 @ replicate 8 255) (byte_word 1) = replicate 23 0 @ 1 # replicate 8 0"
  "low64 (replicate 23 0 @ 1 # replicate 8 0) = 0"
  by code_simp+

lemma assembled_program_crashes:
  "\<exists>code. compile_from_asm demo_config ''PUSH1:7 PUSH0 PUSH1:1 SUB PUSH1:1 MUL PUSH1:1 ADD DIV'' = Inr code \<and>
     execute demo_config code (\<lambda>n. 0) demo_context = Some Crashed"
proof -
  let ?op = "opcode_value demo_config"
  let ?code = "[?op PUSH1, 7, ?op PUSH0, ?op PUSH1, 1, ?op SUB, ?op PUSH1, 1, ?op MUL, ?op PUSH1, 1, ?op ADD, ?op DIV]"
  have w: "words ''PUSH1:7 PUSH0 PUSH1:1 SUB PUSH1:1 MUL PUSH1:1 ADD DIV'' =
    [''PUSH1:7'', ''PUSH0'', ''PUSH1:1'', ''SUB'', ''PUSH1:1'', ''MUL'', ''PUSH1:1'', ''ADD'', ''DIV'']"
    by code_simp
  have "compile_from_asm demo_config ''PUSH1:7 PUSH0 PUSH1:1 SUB PUSH1:1 MUL PUSH1:1 ADD DIV'' = Inr ?code"
    by (simp add: compile_from_asm_def w assemble_token_def asm_mnemonic_def stoull_def is_space_def unsigned_literal_def hex_prefixed_def starts_digit_def
        digit_in_def Let_def)
  moreover have g: "GAS_PUSH demo_config = 3" "GAS_ADD demo_config = 3" "GAS_MUL demo_config = 5" by (simp_all add: demo_config_def)
  have "execute demo_config ?code (\<lambda>n. 0) demo_context = Some Crashed"
    by (simp add: execute_def demo_context_def exec_loop.simps vm_step_def exec_opcode_def exec_binary_def exec_divmod_def
        check_gas_def push_word_def charge_def Let_def g decode_opcode_value [OF demo_config_distinct] crash_words
        byte_word_def [symmetric])
  ultimately show ?thesis by blast
qed
lemma assembled_programs_terminate_witness:
  "\<exists>code. compile_from_asm demo_config ''PUSH1:0x2A PUSH0 ADD STOP'' = Inr code \<and>
     (\<exists>ok c. execute demo_config code (\<lambda>n. 0) demo_context = Some (Stopped ok c))"
proof -
  have w: "words ''PUSH1:0x2A PUSH0 ADD STOP'' = [''PUSH1:0x2A'', ''PUSH0'', ''ADD'', ''STOP'']"
    by code_simp
  moreover have "\<exists>code. assemble demo_config [''PUSH1:0x2A'', ''PUSH0'', ''ADD'', ''STOP''] = Inr code"
    by (simp add: assemble_token_def asm_mnemonic_def stoull_def is_space_def unsigned_literal_def hex_prefixed_def starts_digit_def
        digit_in_def Let_def)
  ultimately obtain code where "compile_from_asm demo_config ''PUSH1:0x2A PUSH0 ADD STOP'' = Inr code"
    by (auto simp: compile_from_asm_def)
  with assembled_programs_terminate [OF demo_config_distinct this, of "\<lambda>n. 0" demo_context] w show ?thesis by auto
qed

text \<open>
  The zero test of DIV and MOD looks at all 256 bits but the division uses the low 64: a divisor
  whose low 64 bits are zero divides by zero.
\<close>

lemma division_crashes:
  assumes "stack c = divisor # dividend # st" "list_ex (\<lambda>b. b \<noteq> 0) divisor" "low64 divisor = 0"
  shows "exec_opcode cfg code now DIV c = Crashed" "exec_opcode cfg code now MOD c = Crashed"
  using assms by (auto simp: exec_opcode_def exec_divmod_def list_all_iff list_ex_iff)

end
