(* ===== verification/Merlite_Compiler.thy ===== *)
theory Merlite_Compiler
  imports Mermai_VM
begin

text \<open>
  The compiler of the contract language (\<^verbatim>\<open>src/src/vm/merlite_compiler.cpp\<close>): the tokenizer, the
  single-pass compiler and the disassembler. The tokenizer works on the rest of the source, with
  line and column as 32-bit counters; the compiler on the rest of the tokens, where reading past
  the end gives the last token, which is always \<^verbatim>\<open>TOKEN_EOF\<close>. The opcode numbers are those of
  the missing VM header, so they come from the same parameter as in the theory of the machine.
\<close>

section \<open>Tokens\<close>

datatype merlite_token_type =
    TOKEN_CONTRACT | TOKEN_STATE | TOKEN_PUB | TOKEN_FN | TOKEN_REQUIRE | TOKEN_REVERT | TOKEN_RETURN
  | TOKEN_IF | TOKEN_ELSE | TOKEN_CALLER | TOKEN_TIMESTAMP | TOKEN_UINT256 | TOKEN_ADDRESS | TOKEN_BOOL
  | TOKEN_MAPPING | TOKEN_IDENTIFIER | TOKEN_NUMBER | TOKEN_STRING | TOKEN_ASSIGN | TOKEN_PLUS | TOKEN_MINUS
  | TOKEN_STAR | TOKEN_SLASH | TOKEN_EQ | TOKEN_NEQ | TOKEN_LT | TOKEN_GT | TOKEN_LTE | TOKEN_GTE
  | TOKEN_LBRACE | TOKEN_RBRACE | TOKEN_LPAREN | TOKEN_RPAREN | TOKEN_LBRACKET | TOKEN_RBRACKET
  | TOKEN_SEMICOLON | TOKEN_COMMA | TOKEN_ARROW | TOKEN_FAT_ARROW | TOKEN_EOF

record merlite_token =
  tok_type :: merlite_token_type
  tok_text :: string
  tok_line :: u32
  tok_column :: u32

definition token :: "merlite_token_type \<Rightarrow> string \<Rightarrow> u32 \<Rightarrow> u32 \<Rightarrow> merlite_token" where
  "token ty s line col = \<lparr>tok_type = ty, tok_text = s, tok_line = line, tok_column = col\<rparr>"

definition is_digit :: "char \<Rightarrow> bool" where
  "is_digit c \<longleftrightarrow> (let n = of_char c :: nat in 48 \<le> n \<and> n \<le> 57)"

definition is_alpha :: "char \<Rightarrow> bool" where
  "is_alpha c \<longleftrightarrow> (let n = of_char c :: nat in 65 \<le> n \<and> n \<le> 90 \<or> 97 \<le> n \<and> n \<le> 122)"

definition is_xdigit :: "char \<Rightarrow> bool" where
  "is_xdigit c \<longleftrightarrow> is_digit c \<or> (let n = of_char c :: nat in 65 \<le> n \<and> n \<le> 70 \<or> 97 \<le> n \<and> n \<le> 102)"

definition is_word_char :: "char \<Rightarrow> bool" where
  "is_word_char c \<longleftrightarrow> is_alpha c \<or> is_digit c \<or> c = CHR ''_''"

definition keywords_table :: "(string \<times> merlite_token_type) list" where
  "keywords_table =
     [(''contract'', TOKEN_CONTRACT), (''state'', TOKEN_STATE), (''pub'', TOKEN_PUB), (''fn'', TOKEN_FN),
      (''require'', TOKEN_REQUIRE), (''revert'', TOKEN_REVERT), (''return'', TOKEN_RETURN), (''if'', TOKEN_IF),
      (''else'', TOKEN_ELSE), (''caller'', TOKEN_CALLER), (''timestamp'', TOKEN_TIMESTAMP), (''uint256'', TOKEN_UINT256),
      (''address'', TOKEN_ADDRESS), (''bool'', TOKEN_BOOL), (''mapping'', TOKEN_MAPPING)]"

definition word_type :: "string \<Rightarrow> merlite_token_type" where
  "word_type w = (case map_of keywords_table w of Some t \<Rightarrow> t | None \<Rightarrow> TOKEN_IDENTIFIER)"

definition double_type :: "string \<Rightarrow> merlite_token_type option" where
  "double_type s = map_of [(''=='', TOKEN_EQ), (''!='', TOKEN_NEQ), (''<='', TOKEN_LTE), (''>='', TOKEN_GTE),
     (''->'', TOKEN_ARROW), (''=>'', TOKEN_FAT_ARROW)] s"

definition single_type :: "char \<Rightarrow> merlite_token_type option" where
  "single_type c = map_of [(CHR ''='', TOKEN_ASSIGN), (CHR ''+'', TOKEN_PLUS), (CHR ''-'', TOKEN_MINUS),
     (CHR ''*'', TOKEN_STAR), (CHR ''/'', TOKEN_SLASH), (CHR ''<'', TOKEN_LT), (CHR ''>'', TOKEN_GT),
     (CHR ''{'', TOKEN_LBRACE), (CHR ''}'', TOKEN_RBRACE), (CHR ''('', TOKEN_LPAREN), (CHR '')'', TOKEN_RPAREN),
     (CHR ''['', TOKEN_LBRACKET), (CHR '']'', TOKEN_RBRACKET), (CHR '';'', TOKEN_SEMICOLON), (CHR '','', TOKEN_COMMA)] c"

text \<open>The text of the number at the front: decimal digits, or hexadecimal ones after \<^verbatim>\<open>0x\<close>.\<close>

definition number_text :: "string \<Rightarrow> string" where
  "number_text s =
     (if take 2 s = ''0x'' \<or> take 2 s = ''0X'' then take 2 s @ takeWhile is_xdigit (drop 2 s)
      else takeWhile is_digit s)"

lemma number_text_shrinks: "is_digit c \<Longrightarrow> Suc (length cs) - length (number_text (c # cs)) \<le> length cs"
  by (simp add: number_text_def)

function (sequential) tokenize_from :: "u32 \<Rightarrow> u32 \<Rightarrow> string \<Rightarrow> merlite_token list" where
  "tokenize_from line col [] = [token TOKEN_EOF [] line col]"
| "tokenize_from line col (c # cs) =
     (if is_space c then
        (if c = CHR 0x0A then tokenize_from (line + 1) 1 cs else tokenize_from line (col + 1) cs)
      else if c = CHR ''/'' \<and> take 1 cs = ''/'' \<or> c = CHR '';'' then
        tokenize_from line col (dropWhile (\<lambda>x. x \<noteq> CHR 0x0A) cs)
      else if is_alpha c \<or> c = CHR ''_'' then
        (let w = c # takeWhile is_word_char cs
         in token (word_type w) w line col # tokenize_from line (col + of_nat (length w)) (dropWhile is_word_char cs))
      else if is_digit c then
        (let w = number_text (c # cs)
         in token TOKEN_NUMBER w line col # tokenize_from line (col + of_nat (length w)) (drop (length w) (c # cs)))
      else if c = CHR 0x22 then
        (let s = takeWhile (\<lambda>x. x \<noteq> CHR 0x22) cs; rest = dropWhile (\<lambda>x. x \<noteq> CHR 0x22) cs;
             line1 = line + of_nat (length (filter (\<lambda>x. x = CHR 0x0A) s));
             col1 = col + 1 + of_nat (length s) + (if rest = [] then 0 else 1)
         in token TOKEN_STRING s line1 col1 # tokenize_from line1 col1 (drop 1 rest))
      else case double_type (c # take 1 cs) of
             Some ty \<Rightarrow> token ty (c # take 1 cs) line col # tokenize_from line (col + 2) (drop 1 cs)
           | None \<Rightarrow>
               (case single_type c of
                  Some ty \<Rightarrow> token ty [c] line col # tokenize_from line (col + 1) cs
                | None \<Rightarrow> tokenize_from line (col + 1) cs))"
  by pat_completeness auto
termination
  by (relation "measure (\<lambda>(line, col, s). length s)")
    (auto simp: less_Suc_eq_le length_dropWhile_le number_text_shrinks
      intro: le_trans [OF diff_le_self length_dropWhile_le])

declare tokenize_from.simps [simp del]

definition tokenize :: "string \<Rightarrow> merlite_token list" where
  "tokenize source = tokenize_from 1 1 source"

section \<open>The compiler\<close>

record merlite_compilation_result =
  success :: bool
  res_bytecode :: bytes
  hex_bytecode :: string
  errors :: "string list"
  storage_layout :: "(string, u32) omap"
  res_functions :: "string list"
  estimated_deployment_gas :: u64

text \<open>The local variables of \<^verbatim>\<open>compile\<close>, with the part of the result it fills on the way.\<close>

record compiler_state =
  next_slot :: u32
  storage_map :: "(string, u32) omap"
  code_out :: bytes
  est_gas :: u64
  fn_names :: "string list"

type_synonym tokens = "merlite_token list"

definition peek_type :: "tokens \<Rightarrow> nat \<Rightarrow> merlite_token_type" where
  "peek_type ts k = (if k < length ts then tok_type (ts ! k) else TOKEN_EOF)"

definition consume_text :: "tokens \<Rightarrow> string" where
  "consume_text ts = (case ts of [] \<Rightarrow> [] | t # _ \<Rightarrow> tok_text t)"

definition skip_if :: "merlite_token_type \<Rightarrow> tokens \<Rightarrow> tokens" where
  "skip_if ty ts = (if peek_type ts 0 = ty then drop 1 ts else ts)"

definition skip_past_rparen :: "tokens \<Rightarrow> tokens" where
  "skip_past_rparen ts = skip_if TOKEN_RPAREN (dropWhile (\<lambda>t. tok_type t \<noteq> TOKEN_RPAREN) ts)"

definition emit :: "bytes \<Rightarrow> compiler_state \<Rightarrow> compiler_state" where
  "emit bs st = st\<lparr>code_out := code_out st @ bs\<rparr>"

definition parse_header :: "tokens \<Rightarrow> tokens" where
  "parse_header ts =
     (if peek_type ts 0 = TOKEN_CONTRACT then skip_if TOKEN_LBRACE (skip_if TOKEN_IDENTIFIER (drop 1 ts)) else ts)"

definition parse_state :: "tokens \<Rightarrow> compiler_state \<Rightarrow> tokens \<times> compiler_state" where
  "parse_state ts st =
     (let ts1 = drop 1 ts;
          ts2 = (if peek_type ts1 0 = TOKEN_MAPPING then skip_past_rparen (skip_if TOKEN_LPAREN (drop 1 ts1)) else drop 1 ts1);
          (ts3, st3) =
            (if peek_type ts2 0 = TOKEN_IDENTIFIER
             then (drop 1 ts2, st\<lparr>next_slot := next_slot st + 1,
                     storage_map := omap_put (consume_text ts2) (next_slot st) (storage_map st)\<rparr>)
             else (ts2, st))
      in (skip_if TOKEN_SEMICOLON ts3, st3))"

definition skip_require :: "tokens \<Rightarrow> tokens" where
  "skip_require ts = skip_if TOKEN_SEMICOLON (skip_past_rparen (skip_if TOKEN_LPAREN (drop 1 ts)))"

definition emit_require :: "vm_config \<Rightarrow> compiler_state \<Rightarrow> compiler_state" where
  "emit_require cfg st =
     (let st1 = emit [opcode_value cfg PUSH1, 0x01, opcode_value cfg JMPI] st
      in (emit [of_nat (length (code_out st1) + 2), opcode_value cfg REVERT] st1)\<lparr>est_gas := est_gas st + 20\<rparr>)"

text \<open>The right-hand side of an assignment, after the \<^verbatim>\<open>=\<close>.\<close>

definition assigned_value :: "vm_config \<Rightarrow> tokens \<Rightarrow> (bytes \<times> u64) result" where
  "assigned_value cfg ts =
     (if peek_type ts 0 = TOKEN_NUMBER then rbind (stoull ''stoull'' 0 (consume_text ts)) (\<lambda>v. Inr ([], v))
      else if peek_type ts 0 = TOKEN_CALLER then Inr ([opcode_value cfg CALLER], 1)
      else Inr ([], 100))"

definition emit_assignment :: "vm_config \<Rightarrow> string \<Rightarrow> bytes \<Rightarrow> u64 \<Rightarrow> compiler_state \<Rightarrow> compiler_state" where
  "emit_assignment cfg target pre val st =
     (let slot = omap_at 0 target (storage_map st)
      in (emit (pre @ [opcode_value cfg PUSH1, ucast slot, opcode_value cfg PUSH1, ucast (val AND 0xFF), opcode_value cfg SSTORE]) st)
           \<lparr>est_gas := est_gas st + 20000\<rparr>)"

definition parse_assignment :: "vm_config \<Rightarrow> tokens \<Rightarrow> compiler_state \<Rightarrow> (tokens \<times> compiler_state) result" where
  "parse_assignment cfg ts st =
     rbind (assigned_value cfg (drop 2 ts)) (\<lambda>(pre, val).
       Inr (skip_if TOKEN_SEMICOLON (drop 3 ts), emit_assignment cfg (consume_text ts) pre val st))"

lemma skip_lengths:
  "length (skip_if ty ts) \<le> length ts" "length (skip_past_rparen ts) \<le> length ts"
  using length_dropWhile_le [of "\<lambda>t. tok_type t \<noteq> TOKEN_RPAREN" ts] by (auto simp: skip_if_def skip_past_rparen_def)

lemma skip_require_length: "ts \<noteq> [] \<Longrightarrow> length (skip_require ts) < length ts"
proof -
  assume "ts \<noteq> []"
  have "length (skip_require ts) \<le> length (drop 1 ts)"
    unfolding skip_require_def by (meson skip_lengths le_trans)
  then show ?thesis using \<open>ts \<noteq> []\<close> by (cases ts) auto
qed

lemma parse_assignment_length:
  "parse_assignment cfg ts st = Inr (ts', st') \<Longrightarrow> ts \<noteq> [] \<Longrightarrow> length ts' < length ts"
proof -
  assume "parse_assignment cfg ts st = Inr (ts', st')" "ts \<noteq> []"
  then have "ts' = skip_if TOKEN_SEMICOLON (drop 3 ts)" by (auto simp: parse_assignment_def elim!: rbind_InrE)
  moreover have "length (drop 3 ts) < length ts" using \<open>ts \<noteq> []\<close> by (cases ts) auto
  ultimately show ?thesis using skip_lengths(1) [of TOKEN_SEMICOLON "drop 3 ts"] by simp
qed

text \<open>The loop over a function body; an exception carries the state reached.\<close>

definition next_depth :: "nat \<Rightarrow> tokens \<Rightarrow> nat" where
  "next_depth depth ts =
     (if peek_type ts 0 = TOKEN_LBRACE then depth + 1 else if peek_type ts 0 = TOKEN_RBRACE then depth - 1 else depth)"

function compile_body ::
  "vm_config \<Rightarrow> nat \<Rightarrow> tokens \<Rightarrow> compiler_state \<Rightarrow> (cpp_error \<times> compiler_state) + (tokens \<times> compiler_state)" where
  "compile_body cfg depth ts st =
     (if ts = [] \<or> depth = 0 then Inr (ts, st)
      else let d = next_depth depth ts
        in if d = 1 \<and> peek_type ts 0 = TOKEN_REQUIRE
           then compile_body cfg d (skip_require ts) (emit_require cfg st)
           else if d = 1 \<and> peek_type ts 0 = TOKEN_IDENTIFIER \<and> peek_type ts 1 = TOKEN_ASSIGN
           then (case parse_assignment cfg ts st of
                   Inl e \<Rightarrow> Inl (e, st)
                 | Inr (ts', st') \<Rightarrow> compile_body cfg d ts' st')
           else if d > 0 then compile_body cfg d (drop 1 ts) st else Inr (ts, st))"
  by pat_completeness auto
termination
  by (relation "measure (\<lambda>(cfg, depth, ts, st). length ts)")
    (auto simp: skip_require_length parse_assignment_length)

declare compile_body.simps [simp del]

lemma compile_body_length: "compile_body cfg depth ts st = Inr (ts', st') \<Longrightarrow> length ts' \<le> length ts"
proof (induction cfg depth ts st arbitrary: ts' st' rule: compile_body.induct)
  case (1 cfg depth ts st)
  note IH = "1.IH" and pr = "1.prems"
  show ?case
  proof (cases "ts = [] \<or> depth = 0")
    case True
    with pr show ?thesis by (simp add: compile_body.simps [of cfg depth ts])
  next
    case False
    then show ?thesis
      using pr IH(1) [OF False refl] IH(2) [OF False refl] IH(3) [OF False refl] skip_require_length [of ts] parse_assignment_length [of cfg ts st]
      by (subst (asm) compile_body.simps)
        (fastforce simp: Let_def split: if_splits sum.splits prod.splits dest: less_imp_le_nat)
  qed
qed

definition skip_signature :: "tokens \<Rightarrow> tokens" where
  "skip_signature ts =
     (let ts1 = (if peek_type ts 0 = TOKEN_LPAREN then skip_past_rparen (drop 1 ts) else ts)
      in if peek_type ts1 0 = TOKEN_ARROW then drop 2 ts1 else ts1)"

definition compile_function ::
  "vm_config \<Rightarrow> tokens \<Rightarrow> compiler_state \<Rightarrow> (cpp_error \<times> compiler_state) + (tokens \<times> compiler_state)" where
  "compile_function cfg ts st =
     (let ts1 = drop 1 (skip_if TOKEN_PUB ts);
          (ts2, st2) = (if peek_type ts1 0 = TOKEN_IDENTIFIER
                        then (drop 1 ts1, st\<lparr>fn_names := fn_names st @ [consume_text ts1]\<rparr>) else (ts1, st));
          ts3 = skip_signature ts2
      in if peek_type ts3 0 = TOKEN_LBRACE then compile_body cfg 1 (drop 1 ts3) st2 else Inr (ts3, st2))"

lemma compile_function_length:
  assumes "compile_function cfg ts st = Inr (ts', st')" "ts \<noteq> []"
  shows "length ts' < length ts"
proof -
  define ts1 where "ts1 = drop 1 (skip_if TOKEN_PUB ts)"
  define ts2 where "ts2 = (if peek_type ts1 0 = TOKEN_IDENTIFIER then drop 1 ts1 else ts1)"
  define st2 where "st2 = (if peek_type ts1 0 = TOKEN_IDENTIFIER then st\<lparr>fn_names := fn_names st @ [consume_text ts1]\<rparr> else st)"
  have 1: "length ts1 < length ts"
    using assms(2) skip_lengths(1) [of TOKEN_PUB ts] by (cases ts) (auto simp: ts1_def)
  have "length (skip_signature ts2) \<le> length ts2"
    using skip_lengths(2) [of "drop 1 ts2"] by (auto simp: skip_signature_def Let_def)
  moreover have "length ts2 \<le> length ts1" by (simp add: ts2_def)
  moreover from assms(1) have "compile_body cfg 1 (drop 1 (skip_signature ts2)) st2 = Inr (ts', st') \<or> ts' = skip_signature ts2"
    by (auto simp: compile_function_def ts1_def ts2_def st2_def Let_def split: if_splits)
  then have "length ts' \<le> length (skip_signature ts2)"
    using compile_body_length [of cfg 1 "drop 1 (skip_signature ts2)" st2 ts' st'] by auto
  ultimately show ?thesis using 1 by simp
qed

lemma parse_state_length: "ts \<noteq> [] \<Longrightarrow> length (fst (parse_state ts st)) < length ts"
proof -
  assume ne: "ts \<noteq> []"
  let ?ts1 = "drop 1 ts"
  define ts2 where "ts2 = (if peek_type ?ts1 0 = TOKEN_MAPPING then skip_past_rparen (skip_if TOKEN_LPAREN (drop 1 ?ts1)) else drop 1 ?ts1)"
  have "length (skip_past_rparen (skip_if TOKEN_LPAREN (drop 1 ?ts1))) \<le> length (drop 1 ?ts1)"
    by (meson skip_lengths le_trans)
  then have "length ts2 \<le> length ?ts1" by (auto simp: ts2_def)
  moreover have "length (fst (parse_state ts st)) \<le> length ts2"
    unfolding parse_state_def Let_def ts2_def [symmetric]
    using skip_lengths(1) [of TOKEN_SEMICOLON ts2] skip_lengths(1) [of TOKEN_SEMICOLON "drop 1 ts2"] by auto
  ultimately show ?thesis using ne by (cases ts) auto
qed

function compile_items ::
  "vm_config \<Rightarrow> tokens \<Rightarrow> compiler_state \<Rightarrow> (cpp_error \<times> compiler_state) + compiler_state" where
  "compile_items cfg ts st =
     (if ts = [] \<or> peek_type ts 0 = TOKEN_EOF \<or> peek_type ts 0 = TOKEN_RBRACE then Inr st
      else if peek_type ts 0 = TOKEN_STATE
      then compile_items cfg (fst (parse_state ts st)) (snd (parse_state ts st))
      else if peek_type ts 0 = TOKEN_PUB \<or> peek_type ts 0 = TOKEN_FN
      then (case compile_function cfg ts st of
              Inl e \<Rightarrow> Inl e
            | Inr (ts', st') \<Rightarrow> compile_items cfg ts' st')
      else compile_items cfg (drop 1 ts) st)"
  by pat_completeness auto
termination
  by (relation "measure (\<lambda>p. length (fst (snd p)))") (auto simp: parse_state_length compile_function_length)

declare compile_items.simps [simp del]

definition start_state :: compiler_state where
  "start_state = \<lparr>next_slot = 0, storage_map = [], code_out = [], est_gas = 21000, fn_names = []\<rparr>"

definition empty_result :: merlite_compilation_result where
  "empty_result = \<lparr>success = False, res_bytecode = [], hex_bytecode = [], errors = [], storage_layout = [],
     res_functions = [], estimated_deployment_gas = 0\<rparr>"

text \<open>What follows the loop over the tokens: the final opcode and the result; or the handler of an exception.\<close>

definition finish_compile :: "vm_config \<Rightarrow> compiler_state \<Rightarrow> merlite_compilation_result" where
  "finish_compile cfg st =
     (let code = code_out st @ [opcode_value cfg STOP]
      in empty_result\<lparr>success := True, res_bytecode := code, storage_layout := storage_map st,
           estimated_deployment_gas := est_gas st, hex_bytecode := ''0x'' @ hex_encode code,
           res_functions := fn_names st\<rparr>)"

definition failed_compile :: "cpp_error \<Rightarrow> compiler_state \<Rightarrow> merlite_compilation_result" where
  "failed_compile e st =
     empty_result\<lparr>errors := [''Compilation error: '' @ error_what e], res_functions := fn_names st\<rparr>"

definition compile :: "vm_config \<Rightarrow> string \<Rightarrow> merlite_compilation_result" where
  "compile cfg source =
     (let ts = tokenize source
      in if length ts = 1 \<and> tok_type (hd ts) = TOKEN_EOF
         then empty_result\<lparr>errors := [''Empty Merlite source file.'']\<rparr>
         else case compile_items cfg (parse_header ts) start_state of
                Inl (e, st) \<Rightarrow> failed_compile e st
              | Inr st \<Rightarrow> finish_compile cfg st)"

section \<open>The disassembler\<close>

text \<open>
  \<^verbatim>\<open>std::hex\<close> is sticky: once an operand or an unknown opcode was printed, the positions that follow
  are hexadecimal too. The flag is the state of the stream.
\<close>

definition pad4 :: "string \<Rightarrow> string" where
  "pad4 s = replicate (4 - length s) CHR ''0'' @ s"

definition position_text :: "bool \<Rightarrow> nat \<Rightarrow> string" where
  "position_text hex n = pad4 (if hex then hex_string n else dec_string n) @ '': ''"

definition plain_mnemonic :: "mermai_opcode \<Rightarrow> string option" where
  "plain_mnemonic oc =
     (case oc of
        PUSH0 \<Rightarrow> Some ''PUSH0'' | ADD \<Rightarrow> Some ''ADD'' | SUB \<Rightarrow> Some ''SUB'' | MUL \<Rightarrow> Some ''MUL''
      | SLOAD \<Rightarrow> Some ''SLOAD'' | SSTORE \<Rightarrow> Some ''SSTORE'' | CALLER \<Rightarrow> Some ''CALLER''
      | TIMESTAMP \<Rightarrow> Some ''TIMESTAMP'' | REVERT \<Rightarrow> Some ''REVERT'' | STOP \<Rightarrow> Some ''STOP'' | _ \<Rightarrow> None)"

definition operand_mnemonic :: "mermai_opcode \<Rightarrow> string option" where
  "operand_mnemonic oc = (case oc of PUSH1 \<Rightarrow> Some ''PUSH1'' | JMPI \<Rightarrow> Some ''JMPI'' | _ \<Rightarrow> None)"

text \<open>One instruction: its line, whether an operand was read, and the state of the stream.\<close>

definition disassemble_one :: "vm_config \<Rightarrow> byte \<Rightarrow> bytes \<Rightarrow> bool \<Rightarrow> string \<times> bool \<times> bool" where
  "disassemble_one cfg b bs hex =
     (case decode_opcode cfg b of
        None \<Rightarrow> (''UNKNOWN_OP (0x'' @ hex_string (unat b) @ '')'', False, True)
      | Some oc \<Rightarrow>
          (case (operand_mnemonic oc, plain_mnemonic oc) of
             (Some m, _) \<Rightarrow>
               (case bs of [] \<Rightarrow> (m @ '' <truncated>'', False, hex)
                | x # _ \<Rightarrow> (m @ '' 0x'' @ hex_string (unat x), True, True))
           | (None, Some m) \<Rightarrow> (m, False, hex)
           | (None, None) \<Rightarrow> (''UNKNOWN_OP (0x'' @ hex_string (unat b) @ '')'', False, True)))"

function (sequential) disassemble_from :: "vm_config \<Rightarrow> nat \<Rightarrow> bool \<Rightarrow> bytes \<Rightarrow> string" where
  "disassemble_from cfg pos hex [] = []"
| "disassemble_from cfg pos hex (b # bs) =
     (case disassemble_one cfg b bs hex of
        (line, operand, hex') \<Rightarrow> position_text hex pos @ line @ [CHR 0x0A] @
          disassemble_from cfg (if operand then pos + 2 else pos + 1) hex' (if operand then drop 1 bs else bs))"
  by pat_completeness auto
termination by (relation "measure (\<lambda>(cfg, pos, hex, bs). length bs)") auto

declare disassemble_from.simps [simp del]

definition disassemble :: "vm_config \<Rightarrow> bytes \<Rightarrow> string" where
  "disassemble cfg code = disassemble_from cfg 0 False code"

section \<open>Printing and reading tokens\<close>

text \<open>Texts that are a token on their own, with its type.\<close>

definition plain_token :: "string \<Rightarrow> merlite_token_type \<Rightarrow> bool" where
  "plain_token w ty \<longleftrightarrow>
     (w \<noteq> [] \<and> (is_alpha (hd w) \<or> hd w = CHR ''_'') \<and> list_all is_word_char w \<and> ty = word_type w) \<or>
     (w \<noteq> [] \<and> list_all is_digit w \<and> ty = TOKEN_NUMBER) \<or>
     double_type w = Some ty \<or>
     (\<exists>c. w = [c] \<and> c \<noteq> CHR '';'' \<and> single_type c = Some ty)"

definition print_tokens :: "(string \<times> merlite_token_type) list \<Rightarrow> string" where
  "print_tokens ps = concat (map (\<lambda>p. fst p @ '' '') ps)"

lemma char_classes:
  "\<not> is_space CHR ''_''" "is_space CHR '' ''" "\<not> is_word_char CHR '' ''" "\<not> is_digit CHR '' ''" "\<not> is_xdigit CHR '' ''"
  by (simp_all add: is_space_def is_word_char_def is_alpha_def is_digit_def is_xdigit_def)

lemma alpha_facts: "is_alpha c \<Longrightarrow> \<not> is_space c \<and> c \<noteq> CHR ''/'' \<and> c \<noteq> CHR '';'' \<and> \<not> is_digit c"
  by (auto simp: is_alpha_def is_space_def is_digit_def Let_def)

lemma digit_facts: "is_digit c \<Longrightarrow> \<not> is_space c \<and> c \<noteq> CHR ''/'' \<and> c \<noteq> CHR '';'' \<and> \<not> is_alpha c \<and> c \<noteq> CHR ''_''"
  by (auto simp: is_alpha_def is_space_def is_digit_def Let_def)

lemma takeWhile_spaced:
  "list_all P w \<Longrightarrow> \<not> P x \<Longrightarrow> takeWhile P (w @ x # rest) = w \<and> dropWhile P (w @ x # rest) = x # rest"
  by (induction w) auto

lemma tokenize_space: "tokenize_from line col (CHR '' '' # rest) = tokenize_from line (col + 1) rest"
  by (simp add: tokenize_from.simps char_classes)

lemma tokenize_word:
  assumes "w \<noteq> []" "is_alpha (hd w) \<or> hd w = CHR ''_''" "list_all is_word_char w"
  shows "tokenize_from line col (w @ CHR '' '' # rest) =
    token (word_type w) w line col # tokenize_from line (col + of_nat (length w)) (CHR '' '' # rest)"
proof -
  obtain c cs where w: "w = c # cs" using assms(1) by (cases w) auto
  have c: "\<not> is_space c" "c \<noteq> CHR ''/''" "c \<noteq> CHR '';''"
    using assms(2) alpha_facts [of c] char_classes(1) by (auto simp: w)
  show ?thesis using assms(2,3) takeWhile_spaced [of is_word_char cs "CHR '' ''" rest] c
    by (simp add: w tokenize_from.simps(2) [of line col c] char_classes Let_def)
qed

lemma tokenize_number:
  assumes "w \<noteq> []" "list_all is_digit w"
  shows "tokenize_from line col (w @ CHR '' '' # rest) =
    token TOKEN_NUMBER w line col # tokenize_from line (col + of_nat (length w)) (CHR '' '' # rest)"
proof -
  obtain c cs where w: "w = c # cs" using assms(1) by (cases w) auto
  note c = digit_facts [of c]
  have "take 2 (w @ CHR '' '' # rest) \<noteq> ''0x'' \<and> take 2 (w @ CHR '' '' # rest) \<noteq> ''0X''"
    using assms(2) by (cases cs) (auto simp: w is_digit_def Let_def)
  then have n: "number_text (w @ CHR '' '' # rest) = w"
    using takeWhile_spaced [OF assms(2) char_classes(4)] by (simp add: number_text_def)
  show ?thesis using n assms(2) c
    by (simp add: w tokenize_from.simps(2) [of line col c] Let_def)
qed

lemma tokenize_symbol:
  assumes "double_type w = Some ty \<or> (\<exists>c. w = [c] \<and> c \<noteq> CHR '';'' \<and> single_type c = Some ty)"
  shows "tokenize_from line col (w @ CHR '' '' # rest) =
    token ty w line col # tokenize_from line (col + of_nat (length w)) (CHR '' '' # rest)"
  using assms
  by (auto simp: double_type_def single_type_def tokenize_from.simps(2) [of line col] is_space_def is_alpha_def
      is_digit_def Let_def split: if_splits)

lemma tokenize_plain:
  assumes "plain_token w ty"
  shows "tokenize_from line col (w @ CHR '' '' # rest) =
    token ty w line col # tokenize_from line (col + of_nat (length w)) (CHR '' '' # rest)"
  using assms tokenize_word [of w line col rest] tokenize_number [of w line col rest] tokenize_symbol [of w ty line col rest]
  unfolding plain_token_def by blast

text \<open>C40: Reading inverts printing: tokens that are words, decimal numbers or operators (other than the
  semicolon, which starts a comment), printed with a blank after each, are read back as the same
  texts with the same types, followed by the end marker.
\<close>

theorem tokenize_print:
  assumes "list_all (\<lambda>(w, ty). plain_token w ty) ps"
  shows "map (\<lambda>t. (tok_text t, tok_type t)) (tokenize (print_tokens ps)) = ps @ [([], TOKEN_EOF)]"
proof -
  have "map (\<lambda>t. (tok_text t, tok_type t)) (tokenize_from line col (print_tokens ps)) = ps @ [([], TOKEN_EOF)]" for line col
    using assms
  proof (induction ps arbitrary: line col)
    case Nil
    then show ?case by (simp add: print_tokens_def tokenize_from.simps token_def)
  next
    case (Cons p ps)
    obtain w ty where p: "p = (w, ty)" by (cases p)
    with Cons.prems tokenize_plain [of w ty line col "print_tokens ps"] Cons.IH show ?case
      by (simp add: print_tokens_def tokenize_space token_def)
  qed
  then show ?thesis by (simp add: tokenize_def)
qed

theorem tokenize_print_witness:
  "map (\<lambda>t. (tok_text t, tok_type t)) (tokenize (print_tokens [(''x'', TOKEN_IDENTIFIER), (''=='', TOKEN_EQ), (''42'', TOKEN_NUMBER)]))
     = [(''x'', TOKEN_IDENTIFIER), (''=='', TOKEN_EQ), (''42'', TOKEN_NUMBER), ([], TOKEN_EOF)]"
proof -
  have "list_all (\<lambda>(w, ty). plain_token w ty) [(''x'', TOKEN_IDENTIFIER), (''=='', TOKEN_EQ), (''42'', TOKEN_NUMBER)]"
    by (simp add: plain_token_def is_alpha_def is_word_char_def word_type_def keywords_table_def is_digit_def double_type_def)
  from tokenize_print [OF this] show ?thesis by simp
qed

text \<open>A semicolon is always a comment, so the token the compiler skips after statements never occurs.\<close>

lemma tokenize_no_semicolon: "t \<in> set (tokenize_from line col s) \<Longrightarrow> tok_type t \<noteq> TOKEN_SEMICOLON"
proof (induction line col s rule: tokenize_from.induct)
  case (1 line col)
  then show ?case by (simp add: tokenize_from.simps token_def)
next
  case (2 line col c cs)
  have w: "word_type w \<noteq> TOKEN_SEMICOLON" for w
    by (auto simp: word_type_def keywords_table_def split: option.splits if_splits)
  have d: "double_type w \<noteq> Some TOKEN_SEMICOLON" for w
    by (auto simp: double_type_def split: if_splits)
  have s: "single_type c = Some TOKEN_SEMICOLON \<Longrightarrow> c = CHR '';''"
    by (auto simp: single_type_def split: if_splits)
  from 2 w d s show ?case
    by (subst (asm) tokenize_from.simps(2)) (auto simp: token_def Let_def split: if_splits option.splits)
qed

section \<open>Compiled statements on the machine\<close>

lemma code_out_assignment:
  "code_out (emit_assignment cfg target pre val st) = code_out st @ pre @
     [opcode_value cfg PUSH1, ucast (omap_at 0 target (storage_map st)), opcode_value cfg PUSH1, ucast (val AND 0xFF),
      opcode_value cfg SSTORE]"
  by (simp add: emit_assignment_def emit_def Let_def)

lemma code_out_require:
  "code_out (emit_require cfg st) = code_out st @
     [opcode_value cfg PUSH1, 0x01, opcode_value cfg JMPI, of_nat (length (code_out st) + 5), opcode_value cfg REVERT]"
  by (simp add: emit_require_def emit_def Let_def)

text \<open>What a compiled assignment does. The code emitted for \<^verbatim>\<open>target = value\<close> runs in three
  instructions and stores the slot number of the target under the key of the value: the machine
  takes the key from the top of the stack, where the value is.
\<close>

theorem compiled_assignment_effect:
  assumes "opcodes_distinct cfg" "\<not> halted c"
    and "program_counter c = length (code_out st)"
    and "unat (gas_used c) + unat (GAS_PUSH cfg) + unat (GAS_PUSH cfg) + 1 \<le> unat (gas_limit c)"
  shows "exec_loop cfg (code_out (emit_assignment cfg target [] val st) @ rest) clock n c =
    exec_loop cfg (code_out (emit_assignment cfg target [] val st) @ rest) clock (n + 3)
      (c\<lparr>program_counter := program_counter c + 5,
         gas_used := gas_used c + GAS_PUSH cfg + GAS_PUSH cfg + GAS_SSTORE cfg,
         storage := omap_put (chars_of_bytes (byte_word (ucast (val AND 0xFF))))
           (byte_word (ucast (omap_at 0 target (storage_map st)))) (storage c)\<rparr>)"
proof -
  let ?slot = "ucast (omap_at 0 target (storage_map st)) :: byte" and ?v = "ucast (val AND 0xFF) :: byte"
  let ?code = "code_out (emit_assignment cfg target [] val st) @ rest" and ?g = "GAS_PUSH cfg"
  define c1 where "c1 = c\<lparr>program_counter := program_counter c + 2, gas_used := gas_used c + ?g, stack := byte_word ?slot # stack c\<rparr>"
  define c2 where "c2 = c\<lparr>program_counter := program_counter c + 4, gas_used := gas_used c + ?g + ?g,
    stack := byte_word ?v # byte_word ?slot # stack c\<rparr>"
  have d: "drop (length (code_out st) + k) ?code = drop k ([opcode_value cfg PUSH1, ?slot, opcode_value cfg PUSH1, ?v,
      opcode_value cfg SSTORE] @ rest)" for k
    by (simp add: code_out_assignment)
  have gas: "check_gas 1 c" "check_gas 1 c1" "check_gas 1 c2"
    using gas_enough [of c 0] gas_enough [of c ?g] gas_enough [of "c\<lparr>gas_used := gas_used c + ?g\<rparr>" ?g] assms(4)
      unat_add_room [of "gas_used c" ?g] unat_u64_less [of "gas_limit c"]
    by (simp_all add: check_gas_def c1_def c2_def not_less)
  have "vm_step cfg ?code now c = Running c1" for now
    unfolding c1_def using d [of 0] by (intro step_PUSH1 [OF assms(1,2) gas(1)]) (simp add: assms(3))
  moreover have "vm_step cfg ?code now c1 = Running c2" for now
    using d [of 2] step_PUSH1 [OF assms(1) _ gas(2), of ?code ?v "opcode_value cfg SSTORE # rest" now] assms(2,3)
    by (simp add: c1_def c2_def add.commute)
  moreover have "vm_step cfg ?code now c2 = Running (c\<lparr>program_counter := program_counter c + 5,
      gas_used := gas_used c + ?g + ?g + GAS_SSTORE cfg,
      storage := omap_put (chars_of_bytes (byte_word ?v)) (byte_word ?slot) (storage c)\<rparr>)" for now
    using d [of 4] step_opcode [OF assms(1) _ gas(3), of ?code SSTORE rest now] assms(2,3)
    by (simp add: c2_def exec_opcode_def store_to_storage_def charge_def add.commute)
  ultimately show ?thesis by (simp add: exec_loop_step numeral_3_eq_3)
qed

theorem compiled_assignment_effect_witness:
  "exec_loop demo_config (code_out (emit_assignment demo_config ''x'' [] 5 start_state) @ [opcode_value demo_config STOP])
      (\<lambda>n. 0) 0 demo_context =
    exec_loop demo_config (code_out (emit_assignment demo_config ''x'' [] 5 start_state) @ [opcode_value demo_config STOP])
      (\<lambda>n. 0) 3 (demo_context\<lparr>program_counter := 5, gas_used := 5006,
        storage := omap_put (chars_of_bytes (byte_word 5)) (byte_word 0) []\<rparr>)"
  using compiled_assignment_effect [OF demo_config_distinct, of demo_context start_state "''x''" 5
      "[opcode_value demo_config STOP]" "\<lambda>n. 0" 0]
  by (simp add: demo_context_def start_state_def demo_config_def omap_at_def)

text \<open>What a compiled requirement does. The code emitted for \<^verbatim>\<open>require(...)\<close> does not depend on the
  condition, and reached with an empty stack it makes the execution fail whatever follows:
  \<^verbatim>\<open>JMPI\<close> finds only one of its two operands.
\<close>

theorem compiled_require_fails:
  assumes "opcodes_distinct cfg" "\<not> halted c" "stack c = []"
    and "program_counter c = length (code_out st)"
    and "unat (gas_used c) + unat (GAS_PUSH cfg) + 1 \<le> unat (gas_limit c)"
  shows "\<exists>c'. exec_loop cfg (code_out (emit_require cfg st) @ rest) clock n c = Some (Stopped False c')"
proof -
  let ?code = "code_out (emit_require cfg st) @ rest" and ?g = "GAS_PUSH cfg"
  define c1 where "c1 = c\<lparr>program_counter := program_counter c + 2, gas_used := gas_used c + ?g, stack := [byte_word 1]\<rparr>"
  let ?t = "of_nat (length (code_out st) + 5) :: byte"
  have d: "drop (length (code_out st) + k) ?code = drop k ([opcode_value cfg PUSH1, 1, opcode_value cfg JMPI, ?t,
      opcode_value cfg REVERT] @ rest)" for k
    by (simp add: code_out_require)
  have gas: "check_gas 1 c" "check_gas 1 c1"
    using gas_enough [of c 0] gas_enough [of c ?g] assms(5) by (simp_all add: check_gas_def c1_def not_less)
  have "vm_step cfg ?code now c = Running c1" for now
    using d [of 0] step_PUSH1 [OF assms(1,2) gas(1), of ?code 1 _ now] assms(3,4) by (simp add: c1_def)
  moreover have "\<exists>c'. vm_step cfg ?code now c1 = Stopped False c'" for now
    using d [of 2] step_opcode [OF assms(1) _ gas(2), of ?code JMPI "[?t, opcode_value cfg REVERT] @ rest" now] assms(2,4)
    by (simp add: c1_def exec_opcode_def exec_jumpi_def add.commute)
  ultimately have "exec_loop cfg ?code clock n c = exec_loop cfg ?code clock (Suc n) c1"
    and s: "\<exists>c'. vm_step cfg ?code (clock (Suc n)) c1 = Stopped False c'" by (simp_all add: exec_loop_step)
  with s show ?thesis by (auto simp: exec_loop.simps [of cfg ?code clock "Suc n"])
qed

theorem compiled_require_fails_witness:
  "\<exists>c'. exec_loop demo_config (code_out (emit_require demo_config start_state) @ [opcode_value demo_config STOP])
      (\<lambda>n. 0) 0 demo_context = Some (Stopped False c')"
  by (rule compiled_require_fails [OF demo_config_distinct])
    (simp_all add: demo_context_def start_state_def demo_config_def)

section \<open>One function per contract\<close>

lemma compile_body_stops:
  "compile_body cfg depth ts st = Inr (ts', st') \<Longrightarrow> 0 < depth \<Longrightarrow> ts' = [] \<or> peek_type ts' 0 = TOKEN_RBRACE"
proof (induction cfg depth ts st arbitrary: ts' st' rule: compile_body.induct)
  case (1 cfg depth ts st)
  show ?case
  proof (cases "ts = []")
    case True
    with "1.prems" show ?thesis by (simp add: compile_body.simps [of cfg depth "[]"])
  next
    case False
    then have nd: "\<not> (ts = [] \<or> depth = 0)" using "1.prems"(2) by simp
    show ?thesis
      using "1.prems" "1.IH"(1) [OF nd refl] "1.IH"(2) [OF nd refl] "1.IH"(3) [OF nd refl] nd
      by (subst (asm) compile_body.simps)
        (fastforce simp: Let_def next_depth_def split: if_splits sum.splits prod.splits)
  qed
qed

definition function_has_body :: "tokens \<Rightarrow> bool" where
  "function_has_body ts \<longleftrightarrow> peek_type (skip_signature (skip_if TOKEN_IDENTIFIER (drop 1 (skip_if TOKEN_PUB ts)))) 0 = TOKEN_LBRACE"

text \<open>Compilation ends with the first function that has a body: its closing brace is left in the
  stream and taken for the end of the contract, so whatever follows, further functions included,
  has no influence on the code.
\<close>

theorem only_first_function:
  assumes "peek_type ts 0 = TOKEN_PUB \<or> peek_type ts 0 = TOKEN_FN" "function_has_body ts"
  shows "compile_items cfg ts st =
    (case compile_function cfg ts st of Inl e \<Rightarrow> Inl e | Inr (ts', st') \<Rightarrow> Inr st')"
proof -
  have go: "\<not> (ts = [] \<or> peek_type ts 0 = TOKEN_EOF \<or> peek_type ts 0 = TOKEN_RBRACE)" "peek_type ts 0 \<noteq> TOKEN_STATE"
    using assms(1) by (auto simp: peek_type_def)
  have stop: "ts' = [] \<or> peek_type ts' 0 = TOKEN_RBRACE" if "compile_function cfg ts st = Inr (ts', st')" for ts' st'
    using that assms(2) compile_body_stops
    by (auto simp: compile_function_def function_has_body_def skip_if_def Let_def split: if_splits)
  have "compile_items cfg ts' st' = Inr st'" if "compile_function cfg ts st = Inr (ts', st')" for ts' st'
    using stop [OF that] by (subst compile_items.simps) auto
  with go assms(1) show ?thesis
    by (subst compile_items.simps) (auto split: sum.splits)
qed

theorem only_first_function_witness:
  "compile_items demo_config
     (map (\<lambda>(s, ty). token ty s 1 1) [(''fn'', TOKEN_FN), (''f'', TOKEN_IDENTIFIER), (''{'', TOKEN_LBRACE),
        (''}'', TOKEN_RBRACE), (''fn'', TOKEN_FN), (''g'', TOKEN_IDENTIFIER), (''{'', TOKEN_LBRACE), (''}'', TOKEN_RBRACE)]) start_state =
   Inr (start_state\<lparr>fn_names := [''f'']\<rparr>)"
  by (subst only_first_function)
    (simp_all add: peek_type_def function_has_body_def skip_if_def skip_signature_def token_def compile_function_def
      compile_body.simps next_depth_def consume_text_def start_state_def Let_def)

end
