(* ===== verification/Mermai_Consensus.thy ===== *)
theory Mermai_Consensus
  imports Mermai_Signing Mermai_Float Std_Map
begin

text \<open>
  The time-weighted proof-of-stake engine: the validator registry
  (\<^verbatim>\<open>mermai_consensus_state\<close> in \<^verbatim>\<open>src/src/core/mermai_blockchain.cpp\<close>), the engine around it
  and the reward calculator (\<^verbatim>\<open>src/src/consensus/mermai_consensus.cpp\<close>). Weights are
  \<^verbatim>\<open>float\<close> values and every arithmetic operation on them rounds; stakes and rewards are 64-bit
  words. The clock is an argument where the code calls \<^verbatim>\<open>std::time\<close>.
\<close>

section \<open>State\<close>

record mermai_validator_stake =
  v_address :: string
  v_amount :: u64
  lock_time :: u64
  last_proposal :: u64
  v_weight :: rat
  v_public_key :: bytes

record mermai_consensus_state =
  active_validators :: "mermai_validator_stake list"

record mermai_time_weighted_pos =
  consensus_state :: mermai_consensus_state
  pending_rewards :: "(string, u64) omap"
  min_stake :: u64
  min_lockup_blocks :: u32

definition new_pos :: mermai_time_weighted_pos where
  "new_pos = \<lparr>consensus_state = \<lparr>active_validators = []\<rparr>, pending_rewards = [],
     min_stake = 1000000, min_lockup_blocks = 1000\<rparr>"

abbreviation validators :: "mermai_time_weighted_pos \<Rightarrow> mermai_validator_stake list" where
  "validators c \<equiv> active_validators (consensus_state c)"

definition set_validators ::
  "mermai_validator_stake list \<Rightarrow> mermai_time_weighted_pos \<Rightarrow> mermai_time_weighted_pos" where
  "set_validators vs c = c\<lparr>consensus_state := (consensus_state c)\<lparr>active_validators := vs\<rparr>\<rparr>"

text \<open>The loops that look for one validator stop at the first with the address.\<close>

fun update_first :: "('a \<Rightarrow> bool) \<Rightarrow> ('a \<Rightarrow> 'a) \<Rightarrow> 'a list \<Rightarrow> 'a list" where
  "update_first P f [] = []"
| "update_first P f (x # xs) = (if P x then f x # xs else x # update_first P f xs)"

section \<open>The registry\<close>

definition calculate_validator_weight :: "mermai_validator_stake \<Rightarrow> rat" where
  "calculate_validator_weight stake = v_weight stake"

definition select_proposer :: "mermai_consensus_state \<Rightarrow> string" where
  "select_proposer s = (case active_validators s of [] \<Rightarrow> [] | v # _ \<Rightarrow> v_address v)"

definition state_slash_validator ::
  "string \<Rightarrow> rat \<Rightarrow> mermai_consensus_state \<Rightarrow> mermai_consensus_state" where
  "state_slash_validator addr percentage s =
     s\<lparr>active_validators := update_first (\<lambda>v. v_address v = addr)
         (\<lambda>v. v\<lparr>v_amount := u64_of_float (float_mul (float_of_u64 (v_amount v)) (float_sub 1 percentage))\<rparr>)
         (active_validators s)\<rparr>"

definition add_validator ::
  "u64 \<Rightarrow> string \<Rightarrow> u64 \<Rightarrow> mermai_consensus_state \<Rightarrow> mermai_consensus_state" where
  "add_validator now addr amt s =
     s\<lparr>active_validators := active_validators s @
         [\<lparr>v_address = addr, v_amount = amt, lock_time = now, last_proposal = 0,
           v_weight = float_of_u64 amt, v_public_key = []\<rparr>]\<rparr>"

definition remove_validator :: "string \<Rightarrow> mermai_consensus_state \<Rightarrow> mermai_consensus_state" where
  "remove_validator addr s =
     s\<lparr>active_validators := filter (\<lambda>v. v_address v \<noteq> addr) (active_validators s)\<rparr>"

section \<open>Validator operations of the engine\<close>

definition register_validator ::
  "'k openssl \<Rightarrow> u64 \<Rightarrow> string \<Rightarrow> u64 \<Rightarrow> string \<Rightarrow> bytes \<Rightarrow> mermai_time_weighted_pos \<Rightarrow>
     bool \<times> mermai_time_weighted_pos" where
  "register_validator ossl now addr stake_amount validator_name public_key c =
     (if stake_amount < min_stake c \<or> addr = [] then (False, c)
      else if public_key \<noteq> [] \<and> d2i_PUBKEY ossl public_key = None then (False, c)
      else if list_ex (\<lambda>v. v_address v = addr) (validators c) then (False, c)
      else let vs = active_validators (add_validator now addr stake_amount (consensus_state c))
        in (True, set_validators (butlast vs @ [(last vs)\<lparr>v_public_key := public_key\<rparr>]) c))"

definition unregister_validator ::
  "string \<Rightarrow> mermai_time_weighted_pos \<Rightarrow> bool \<times> mermai_time_weighted_pos" where
  "unregister_validator addr c =
     (if \<not> list_ex (\<lambda>v. v_address v = addr) (validators c) then (False, c)
      else (True, c\<lparr>consensus_state := remove_validator addr (consensus_state c)\<rparr>))"

definition restore_validator ::
  "mermai_validator_stake \<Rightarrow> mermai_time_weighted_pos \<Rightarrow> bool \<times> mermai_time_weighted_pos" where
  "restore_validator stake c =
     (if v_address stake = [] \<or> v_amount stake < min_stake c \<or> lock_time stake = 0 then (False, c)
      else if list_ex (\<lambda>v. v_address v = v_address stake) (validators c) then (False, c)
      else (True, set_validators (validators c @ [stake]) c))"

section \<open>Weights and the proposer of a slot\<close>

definition calculate_time_multiplier :: "u64 \<Rightarrow> rat" where
  "calculate_time_multiplier stake_age_seconds =
     (let days = stake_age_seconds div 86400
      in if days < 1 then 1
         else if days < 30 then float_add 1 (float_mul (float_of_u64 days) (f32 (1 / 1000)))
         else if days < 365
         then float_add (f32 (103 / 100)) (float_mul (float_of_u64 (days - 30)) (f32 (1 / 1000)))
         else float_add (f32 (1365 / 1000))
                (min (f32 (1 / 10)) (float_mul (float_of_u64 (days - 365)) (f32 (1 / 10000)))))"

definition calculate_performance_multiplier :: "mermai_validator_stake \<Rightarrow> rat" where
  "calculate_performance_multiplier stake = 1"

definition calculate_weight :: "mermai_validator_stake \<Rightarrow> u64 \<Rightarrow> rat" where
  "calculate_weight stake current_time =
     (let time_mult = calculate_time_multiplier
            (if current_time \<ge> lock_time stake then current_time - lock_time stake else 0);
          perf_mult = calculate_performance_multiplier stake
      in float_mul (float_mul (float_of_u64 (v_amount stake)) time_mult) perf_mult)"

type_synonym weighted = "(string \<times> rat) list"

definition weigh :: "mermai_time_weighted_pos \<Rightarrow> u64 \<Rightarrow> weighted" where
  "weigh c current_time = map (\<lambda>v. (v_address v, calculate_weight v current_time)) (validators c)"

definition total_weight :: "weighted \<Rightarrow> rat" where
  "total_weight ws = foldl (\<lambda>total p. float_add total (snd p)) 0 ws"

definition proposer_seed :: "u64 \<Rightarrow> weighted \<Rightarrow> string" where
  "proposer_seed current_time ws =
     dec_string (unat current_time) @ concat (map (\<lambda>(addr, weight). addr @ format_g weight) ws)"

text \<open>\<^verbatim>\<open>memcpy\<close> of the first eight digest bytes into a 64-bit integer, on a little-endian machine.\<close>

definition le_u64 :: "bytes \<Rightarrow> u64" where
  "le_u64 bs = foldr (\<lambda>b acc. push_bit 8 acc OR ucast b) (take 8 bs) 0"

definition random_value :: "'k openssl \<Rightarrow> u64 \<Rightarrow> weighted \<Rightarrow> rat" where
  "random_value ossl current_time ws =
     f32 (fmod (double_of_u64 (le_u64 (SHA256 ossl (bytes_of_chars (proposer_seed current_time ws)))))
       (total_weight ws))"

fun pick_proposer :: "rat \<Rightarrow> rat \<Rightarrow> weighted \<Rightarrow> string option" where
  "pick_proposer r cumulative [] = None"
| "pick_proposer r cumulative ((addr, weight) # ws) =
     (let cumulative' = float_add cumulative weight
      in if r \<le> cumulative' then Some addr else pick_proposer r cumulative' ws)"

definition select_block_proposer :: "'k openssl \<Rightarrow> mermai_time_weighted_pos \<Rightarrow> u64 \<Rightarrow> string" where
  "select_block_proposer ossl c current_time =
     (if validators c = [] then []
      else let ws = weigh c current_time
        in if total_weight ws \<le> 0 then v_address (hd (validators c))
           else case pick_proposer (random_value ossl current_time ws) 0 ws of
                  Some addr \<Rightarrow> addr
                | None \<Rightarrow> fst (last ws))"

definition get_validator_weight :: "mermai_time_weighted_pos \<Rightarrow> string \<Rightarrow> u64 \<Rightarrow> rat" where
  "get_validator_weight c addr current_time =
     (case find (\<lambda>v. v_address v = addr) (validators c) of
        Some v \<Rightarrow> calculate_weight v current_time
      | None \<Rightarrow> 0)"

definition get_active_validator_count :: "mermai_time_weighted_pos \<Rightarrow> u32" where
  "get_active_validator_count c = of_nat (length (validators c))"

definition get_total_active_stake :: "mermai_time_weighted_pos \<Rightarrow> u64" where
  "get_total_active_stake c = foldl (\<lambda>total v. total + v_amount v) 0 (validators c)"

section \<open>Penalties\<close>

definition slash_validator :: "string \<Rightarrow> rat \<Rightarrow> mermai_time_weighted_pos \<Rightarrow> mermai_time_weighted_pos" where
  "slash_validator addr penalty_percentage c =
     c\<lparr>consensus_state := state_slash_validator addr (min 1 (max 0 penalty_percentage)) (consensus_state c)\<rparr>"

text \<open>The overload without a reason takes the penalty in percent.\<close>

definition slash_validator_percent ::
  "string \<Rightarrow> rat \<Rightarrow> mermai_time_weighted_pos \<Rightarrow> mermai_time_weighted_pos" where
  "slash_validator_percent addr penalty_percentage c =
     slash_validator addr (float_div penalty_percentage 100) c"

definition apply_inactivity_penalty ::
  "string \<Rightarrow> rat \<Rightarrow> mermai_time_weighted_pos \<Rightarrow> mermai_time_weighted_pos" where
  "apply_inactivity_penalty addr penalty_percentage c =
     (let p = min 1 (max 0 (float_div penalty_percentage 100))
      in set_validators (update_first (\<lambda>v. v_address v = addr)
           (\<lambda>v. let reduction = u64_of_float (float_mul (float_of_u64 (v_amount v)) p)
                in v\<lparr>v_amount := (if reduction \<ge> v_amount v then 0 else v_amount v - reduction)\<rparr>)
           (validators c)) c)"

section \<open>Rewards\<close>

record mermai_block_reward =
  recipient :: string
  reward_amount :: u64
  reward_reason :: string

fun halve_loop :: "nat \<Rightarrow> u64 \<Rightarrow> u64" where
  "halve_loop 0 reward = reward"
| "halve_loop (Suc n) reward = (if reward > 0 then halve_loop n (reward div 2) else reward)"

definition get_base_reward :: "u32 \<Rightarrow> u64" where
  "get_base_reward block_height = halve_loop (unat (block_height div 210000)) 50000000"

definition add_fee :: "u64 \<Rightarrow> mermai_transaction \<Rightarrow> u64" where
  "add_fee total_fees tx = (if - 1 - total_fees < fee tx then - 1 else total_fees + fee tx)"

definition distribute_fees :: "mermai_transaction list \<Rightarrow> string \<Rightarrow> mermai_block_reward list" where
  "distribute_fees txs proposer =
     (let total_fees = foldl add_fee 0 txs
      in if total_fees > 0
         then [\<lparr>recipient = proposer, reward_amount = total_fees, reward_reason = ''transaction_fees''\<rparr>]
         else [])"

definition calculate_block_rewards :: "mermai_block \<Rightarrow> u32 \<Rightarrow> mermai_block_reward list" where
  "calculate_block_rewards b block_height =
     \<lparr>recipient = validator_address b, reward_amount = get_base_reward block_height,
      reward_reason = ''block_proposal''\<rparr> #
     distribute_fees (transactions b) (validator_address b)"

definition add_reward :: "(string, u64) omap \<Rightarrow> mermai_block_reward \<Rightarrow> (string, u64) omap" where
  "add_reward m r = omap_put (recipient r) (omap_at 0 (recipient r) m + reward_amount r) m"

definition finalize_block ::
  "mermai_block option \<Rightarrow> string \<Rightarrow> mermai_time_weighted_pos \<Rightarrow> mermai_time_weighted_pos" where
  "finalize_block block proposer_address c =
     (case block of
        None \<Rightarrow> c
      | Some b \<Rightarrow>
          set_validators (update_first (\<lambda>v. v_address v = proposer_address)
              (\<lambda>v. v\<lparr>last_proposal := blk_timestamp b\<rparr>) (validators c))
            (c\<lparr>pending_rewards :=
                 foldl add_reward (pending_rewards c) (calculate_block_rewards b (height b))\<rparr>))"

definition claim_rewards :: "string \<Rightarrow> mermai_time_weighted_pos \<Rightarrow> bool \<times> mermai_time_weighted_pos" where
  "claim_rewards addr c =
     (case omap_find (pending_rewards c) addr of
        None \<Rightarrow> (False, c)
      | Some r \<Rightarrow> if r = 0 then (False, c)
          else (True, c\<lparr>pending_rewards := omap_put addr 0 (pending_rewards c)\<rparr>))"

definition get_pending_rewards :: "mermai_time_weighted_pos \<Rightarrow> string \<Rightarrow> u64" where
  "get_pending_rewards c addr =
     (case omap_find (pending_rewards c) addr of Some r \<Rightarrow> r | None \<Rightarrow> 0)"

section \<open>The registry invariant\<close>

inductive pos_step :: "'k openssl \<Rightarrow> mermai_time_weighted_pos \<Rightarrow> mermai_time_weighted_pos \<Rightarrow> bool" for ossl where
  "pos_step ossl c (snd (register_validator ossl now addr amt nm key c))"
| "pos_step ossl c (snd (unregister_validator addr c))"
| "pos_step ossl c (snd (restore_validator stake c))"
| "pos_step ossl c (finalize_block block proposer c)"
| "pos_step ossl c (slash_validator addr p c)"
| "pos_step ossl c (slash_validator_percent addr p c)"
| "pos_step ossl c (apply_inactivity_penalty addr p c)"
| "pos_step ossl c (snd (claim_rewards addr c))"

inductive_cases pos_stepE: "pos_step ossl c c'"

definition registry_inv :: "mermai_time_weighted_pos \<Rightarrow> bool" where
  "registry_inv c \<longleftrightarrow>
     distinct (map v_address (validators c)) \<and> [] \<notin> set (map v_address (validators c)) \<and>
     min_stake c = 1000000 \<and> omap_ok (pending_rewards c)"

lemma set_validators_simps [simp]:
  "validators (set_validators vs c) = vs" "min_stake (set_validators vs c) = min_stake c"
  "pending_rewards (set_validators vs c) = pending_rewards c"
  by (simp_all add: set_validators_def)

lemma map_update_first: "(\<And>x. g (f x) = g x) \<Longrightarrow> map g (update_first P f xs) = map g xs"
  by (induction xs) auto

lemma update_first_id: "\<not> list_ex P xs \<Longrightarrow> update_first P f xs = xs"
  by (induction xs) auto

lemma length_update_first [simp]: "length (update_first P f xs) = length xs"
  by (induction xs) auto

lemma validators_slash [simp]:
  "validators (slash_validator addr p c) =
     update_first (\<lambda>v. v_address v = addr)
       (\<lambda>v. v\<lparr>v_amount := u64_of_float (float_mul (float_of_u64 (v_amount v)) (float_sub 1 (min 1 (max 0 p))))\<rparr>)
       (validators c)"
  "min_stake (slash_validator addr p c) = min_stake c"
  "pending_rewards (slash_validator addr p c) = pending_rewards c"
  by (simp_all add: slash_validator_def state_slash_validator_def)

lemma addresses_kept:
  "map v_address (validators (slash_validator addr p c)) = map v_address (validators c)"
  "map v_address (validators (slash_validator_percent addr p c)) = map v_address (validators c)"
  "map v_address (validators (apply_inactivity_penalty addr p c)) = map v_address (validators c)"
  "map v_address (validators (finalize_block b prop c)) = map v_address (validators c)"
  by (simp_all add: slash_validator_percent_def apply_inactivity_penalty_def finalize_block_def
      map_update_first Let_def split: option.splits)

lemma omap_ok_add_rewards: "omap_ok m \<Longrightarrow> omap_ok (foldl add_reward m rs)"
  by (induction rs arbitrary: m) (simp_all add: add_reward_def)

lemma register_validator_validators:
  "validators (snd (register_validator ossl now addr amt nm key c)) =
     (if fst (register_validator ossl now addr amt nm key c)
      then validators c @ [\<lparr>v_address = addr, v_amount = amt, lock_time = now, last_proposal = 0,
        v_weight = float_of_u64 amt, v_public_key = key\<rparr>]
      else validators c)"
  by (simp add: register_validator_def add_validator_def Let_def)

lemma register_validator_accepts:
  "fst (register_validator ossl now addr amt nm key c) \<longleftrightarrow>
     min_stake c \<le> amt \<and> addr \<noteq> [] \<and> (key = [] \<or> d2i_PUBKEY ossl key \<noteq> None) \<and>
     addr \<notin> v_address ` set (validators c)"
  by (auto simp: register_validator_def Let_def list_ex_iff not_less)

lemma registry_inv_validators:
  "registry_inv c \<Longrightarrow> map v_address (validators c') = map v_address (validators c) \<Longrightarrow>
     min_stake c' = min_stake c \<Longrightarrow> omap_ok (pending_rewards c') \<Longrightarrow> registry_inv c'"
  by (simp add: registry_inv_def)

lemma register_validator_inv:
  assumes "registry_inv c"
  shows "registry_inv (snd (register_validator ossl now addr amt nm key c))"
proof -
  have "min_stake (snd (register_validator ossl now addr amt nm key c)) = min_stake c"
    "pending_rewards (snd (register_validator ossl now addr amt nm key c)) = pending_rewards c"
    by (simp_all add: register_validator_def Let_def)
  with assms register_validator_accepts [of ossl now addr amt nm key c] show ?thesis
    unfolding registry_inv_def register_validator_validators by auto
qed

lemma restore_validator_inv: "registry_inv c \<Longrightarrow> registry_inv (snd (restore_validator stake c))"
  by (auto simp: restore_validator_def registry_inv_def list_ex_iff)

lemma unregister_validator_inv: "registry_inv c \<Longrightarrow> registry_inv (snd (unregister_validator addr c))"
  by (auto simp: unregister_validator_def remove_validator_def registry_inv_def distinct_map
      intro: inj_on_subset)

lemma claim_rewards_inv: "registry_inv c \<Longrightarrow> registry_inv (snd (claim_rewards addr c))"
  by (auto simp: claim_rewards_def registry_inv_def split: option.splits)

lemma penalties_inv:
  assumes "registry_inv c"
  shows "registry_inv (slash_validator addr p c)" "registry_inv (slash_validator_percent addr p c)"
    "registry_inv (apply_inactivity_penalty addr p c)" "registry_inv (finalize_block b prop c)"
  using assms addresses_kept
  by (auto intro!: registry_inv_validators [OF assms] omap_ok_add_rewards
      simp: slash_validator_percent_def apply_inactivity_penalty_def finalize_block_def Let_def
        registry_inv_def split: option.splits)

interpretation registry: safe_system "\<lambda>c. c = new_pos" "pos_step ossl" registry_inv
proof
  show "s = new_pos \<Longrightarrow> registry_inv s" for s by (simp add: new_pos_def registry_inv_def)
  show "registry_inv s \<Longrightarrow> pos_step ossl s t \<Longrightarrow> registry_inv t" for s t
    by (elim pos_stepE)
      (simp_all add: register_validator_inv unregister_validator_inv restore_validator_inv
        claim_rewards_inv penalties_inv)
qed

section \<open>Weights\<close>

lemma float_mul_mono: "0 \<le> x \<Longrightarrow> x \<le> x' \<Longrightarrow> 0 \<le> y \<Longrightarrow> y \<le> y' \<Longrightarrow> float_mul x y \<le> float_mul x' y'"
  unfolding float_mul_def by (intro f32_mono mult_mono) auto

lemma float_add_mono: "0 \<le> x \<Longrightarrow> x \<le> x' \<Longrightarrow> 0 \<le> y \<Longrightarrow> y \<le> y' \<Longrightarrow> float_add x y \<le> float_add x' y'"
  unfolding float_add_def by (intro f32_mono add_mono) auto

lemma float_ops_nonneg [simp]:
  "0 \<le> x \<Longrightarrow> 0 \<le> y \<Longrightarrow> 0 \<le> float_mul x y" "0 \<le> x \<Longrightarrow> 0 \<le> y \<Longrightarrow> 0 \<le> float_add x y"
  by (simp_all add: float_mul_def float_add_def f32_nonneg)

lemma float_literals:
  "f32 (1 / 1000) = 8589935 / 8589934592" "f32 (1 / 10000) = 13743895 / 137438953472"
  "f32 (103 / 100) = 4320133 / 4194304" "f32 (1365 / 1000) = 5725225 / 4194304"
  "f32 (1 / 10) = 13421773 / 134217728"
  by code_simp+

lemma multiplier_corners:
  "float_add 1 (float_mul (float_of_u64 29) (f32 (1 / 1000))) = 4315939 / 4194304"
  "float_add (f32 (103 / 100)) (float_mul (float_of_u64 334) (f32 (1 / 1000))) = 11442061 / 8388608"
  "float_add (f32 (1365 / 1000)) (f32 (1 / 10)) = 12289311 / 8388608"
  "float_add (f32 (103 / 100)) 0 = 4320133 / 4194304"
  "float_add (f32 (1365 / 1000)) 0 = 5725225 / 4194304"
  by code_simp+

definition day_multiplier :: "u64 \<Rightarrow> rat" where
  "day_multiplier days =
     (if days < 1 then 1
      else if days < 30 then float_add 1 (float_mul (float_of_u64 days) (f32 (1 / 1000)))
      else if days < 365
      then float_add (f32 (103 / 100)) (float_mul (float_of_u64 (days - 30)) (f32 (1 / 1000)))
      else float_add (f32 (1365 / 1000))
             (min (f32 (1 / 10)) (float_mul (float_of_u64 (days - 365)) (f32 (1 / 10000)))))"

lemma time_multiplier_days: "calculate_time_multiplier t = day_multiplier (t div 86400)"
  by (simp add: calculate_time_multiplier_def day_multiplier_def Let_def)

text \<open>The value ranges of the four branches do not overlap.\<close>

lemma day_multiplier_ranges:
  "days < 1 \<Longrightarrow> day_multiplier days = 1"
  "1 \<le> days \<Longrightarrow> days < 30 \<Longrightarrow> 1 \<le> day_multiplier days \<and> day_multiplier days \<le> 4315939 / 4194304"
  "30 \<le> days \<Longrightarrow> days < 365 \<Longrightarrow>
     4320133 / 4194304 \<le> day_multiplier days \<and> day_multiplier days \<le> 11442061 / 8388608"
  "365 \<le> days \<Longrightarrow> 5725225 / 4194304 \<le> day_multiplier days \<and> day_multiplier days \<le> 12289311 / 8388608"
proof -
  show "days < 1 \<Longrightarrow> day_multiplier days = 1" by (simp add: day_multiplier_def)
next
  assume d: "1 \<le> days" "days < 30"
  have "days \<le> 29" using d(2) by unat_arith
  then have "float_of_u64 days \<le> float_of_u64 29" by (rule float_of_u64_mono)
  then have "day_multiplier days \<le> float_add 1 (float_mul (float_of_u64 29) (f32 (1 / 1000)))"
    using d by (auto simp: day_multiplier_def f32_nonneg intro!: float_add_mono float_mul_mono)
  moreover have "float_add 1 0 \<le> day_multiplier days"
    using d by (auto simp: day_multiplier_def f32_nonneg intro!: float_add_mono)
  ultimately show "1 \<le> day_multiplier days \<and> day_multiplier days \<le> 4315939 / 4194304"
    by (simp add: multiplier_corners(1)) (simp add: float_add_def)
next
  assume d: "30 \<le> days" "days < 365"
  have "days - 30 \<le> 334" using d by unat_arith
  then have "float_of_u64 (days - 30) \<le> float_of_u64 334" by (rule float_of_u64_mono)
  moreover have "\<not> days < 1" "\<not> days < 30" using d by unat_arith+
  ultimately have "day_multiplier days \<le>
      float_add (f32 (103 / 100)) (float_mul (float_of_u64 334) (f32 (1 / 1000)))"
    and "float_add (f32 (103 / 100)) 0 \<le> day_multiplier days"
    using d by (auto simp: day_multiplier_def f32_nonneg intro!: float_add_mono float_mul_mono)
  then show "4320133 / 4194304 \<le> day_multiplier days \<and> day_multiplier days \<le> 11442061 / 8388608"
    by (simp add: multiplier_corners)
next
  assume d: "365 \<le> days"
  then have "\<not> days < 1" "\<not> days < 30" "\<not> days < 365" by unat_arith+
  then have "day_multiplier days \<le> float_add (f32 (1365 / 1000)) (f32 (1 / 10))"
    and "float_add (f32 (1365 / 1000)) 0 \<le> day_multiplier days"
    by (auto simp: day_multiplier_def f32_nonneg intro!: float_add_mono)
  then show "5725225 / 4194304 \<le> day_multiplier days \<and> day_multiplier days \<le> 12289311 / 8388608"
    unfolding multiplier_corners by blast
qed

lemma day_cases:
  obtains "d < (1 :: u64)" | "1 \<le> d" "d < 30" | "30 \<le> d" "d < 365" | "365 \<le> d"
  by (meson linorder_not_le)

lemma day_multiplier_bounds: "1 \<le> day_multiplier d" "day_multiplier d \<le> 12289311 / 8388608"
  by (cases d rule: day_cases; use day_multiplier_ranges [of d] in simp)+

lemma day_multiplier_mono:
  assumes "d \<le> e"
  shows "day_multiplier d \<le> day_multiplier e"
proof -
  show ?thesis
  proof (cases d rule: day_cases)
    case 1
    then show ?thesis using day_multiplier_bounds(1) [of e] day_multiplier_ranges(1) [of d] by simp
  next
    case 2
    then show ?thesis
    proof (cases "e < 30")
      case True
      then have "float_of_u64 d \<le> float_of_u64 e" using assms by (intro float_of_u64_mono)
      with 2 True assms show ?thesis
        by (auto simp: day_multiplier_def f32_nonneg intro!: float_add_mono float_mul_mono)
    next
      case False
      with 2 day_multiplier_ranges(2) [of d] day_multiplier_ranges(3,4) [of e] show ?thesis
        by (cases "e < 365") (simp_all add: not_less)
    qed
  next
    case 3
    then show ?thesis
    proof (cases "e < 365")
      case True
      have "d - 30 \<le> e - 30" using 3 assms by unat_arith
      then have "float_of_u64 (d - 30) \<le> float_of_u64 (e - 30)" by (rule float_of_u64_mono)
      moreover have "\<not> d < 1" "\<not> d < 30" "\<not> e < 1" "\<not> e < 30" using 3 assms by unat_arith+
      ultimately show ?thesis using 3 True
        by (auto simp: day_multiplier_def f32_nonneg intro!: float_add_mono float_mul_mono)
    next
      case False
      with 3 day_multiplier_ranges(3) [of d] day_multiplier_ranges(4) [of e] show ?thesis by (simp add: not_less)
    qed
  next
    case 4
    have "d - 365 \<le> e - 365" using 4 assms by unat_arith
    then have "float_of_u64 (d - 365) \<le> float_of_u64 (e - 365)" by (rule float_of_u64_mono)
    then have "float_mul (float_of_u64 (d - 365)) (f32 (1 / 10000)) \<le>
        float_mul (float_of_u64 (e - 365)) (f32 (1 / 10000))"
      by (intro float_mul_mono) (auto simp: f32_nonneg)
    moreover have "\<not> d < 1" "\<not> d < 30" "\<not> d < 365" "\<not> e < 1" "\<not> e < 30" "\<not> e < 365"
      using 4 assms by unat_arith+
    ultimately show ?thesis
      by (auto simp: day_multiplier_def f32_nonneg intro!: float_add_mono min.mono)
  qed
qed

lemma time_multiplier_bounds:
  "1 \<le> calculate_time_multiplier t" "calculate_time_multiplier t \<le> 12289311 / 8388608"
  using day_multiplier_bounds unfolding time_multiplier_days by blast+

lemma time_multiplier_mono: "s \<le> t \<Longrightarrow> calculate_time_multiplier s \<le> calculate_time_multiplier t"
  unfolding time_multiplier_days
  by (intro day_multiplier_mono) (simp add: word_le_nat_alt unat_div div_le_mono)

lemma calculate_weight_eq:
  "calculate_weight v t = float_mul (float_of_u64 (v_amount v))
     (calculate_time_multiplier (if t \<ge> lock_time v then t - lock_time v else 0))"
  using time_multiplier_bounds(1) [of "if t \<ge> lock_time v then t - lock_time v else 0"]
  by (simp add: calculate_weight_def calculate_performance_multiplier_def Let_def float_mul_def f32_idem)

lemma calculate_weight_nonneg [simp]: "0 \<le> calculate_weight v t"
  using time_multiplier_bounds(1) [of "if t \<ge> lock_time v then t - lock_time v else 0"]
  by (simp add: calculate_weight_eq)

lemma calculate_weight_ge: "float_of_u64 (v_amount v) \<le> calculate_weight v t"
proof -
  let ?m = "calculate_time_multiplier (if t \<ge> lock_time v then t - lock_time v else 0)"
  have "float_of_u64 (v_amount v) * 1 \<le> float_of_u64 (v_amount v) * ?m"
    by (intro mult_left_mono time_multiplier_bounds) simp
  then show ?thesis unfolding calculate_weight_eq float_mul_def
    by (intro f32_ge_of_is_f32) simp_all
qed


section \<open>Selecting the proposer\<close>

abbreviation cumulative_weight :: "rat \<Rightarrow> weighted \<Rightarrow> rat" where
  "cumulative_weight \<equiv> foldl (\<lambda>total p. float_add total (snd p))"

lemma pick_proposer_roulette:
  assumes "ws \<noteq> []" and "r \<le> cumulative_weight c ws"
  shows "\<exists>i<length ws. pick_proposer r c ws = Some (fst (ws ! i)) \<and>
    r \<le> cumulative_weight c (take (Suc i) ws) \<and> (\<forall>j<i. cumulative_weight c (take (Suc j) ws) < r)"
  using assms
proof (induction ws arbitrary: c)
  case (Cons p ws)
  obtain a w where p: "p = (a, w)" by (cases p)
  show ?case
  proof (cases "r \<le> float_add c w")
    case True
    then show ?thesis by (intro exI [of _ 0]) (simp add: p)
  next
    case False
    with Cons.prems have "ws \<noteq> []" "r \<le> cumulative_weight (float_add c w) ws" by (auto simp: p)
    from Cons.IH [OF this] obtain i where i: "i < length ws"
      "pick_proposer r (float_add c w) ws = Some (fst (ws ! i))"
      "r \<le> cumulative_weight (float_add c w) (take (Suc i) ws)"
      "\<forall>j<i. cumulative_weight (float_add c w) (take (Suc j) ws) < r" by blast
    have "cumulative_weight c (take (Suc j) (p # ws)) < r" if "j < Suc i" for j
      using that False i(4) by (cases j) (auto simp: p not_le)
    with i(1-3) False show ?thesis by (intro exI [of _ "Suc i"]) (simp add: p)
  qed
qed simp

lemma cumulative_is_f32: "is_f32 c \<Longrightarrow> list_all (\<lambda>p. 0 \<le> snd p) ws \<Longrightarrow> is_f32 (cumulative_weight c ws)"
proof (induction ws arbitrary: c)
  case (Cons p ws)
  then have "is_f32 (float_add c (snd p))" by (simp add: float_add_def is_f32_def f32_idem f32_nonneg)
  with Cons show ?case by simp
qed simp

lemma weigh_nonneg: "list_all (\<lambda>p. 0 \<le> snd p) (weigh c t)"
  by (simp add: weigh_def list_all_iff)

lemma is_f32_0 [simp]: "is_f32 0"
  by (simp add: is_f32_def)

lemma random_value_le:
  assumes "list_all (\<lambda>p. 0 \<le> snd p) ws" and "0 < total_weight ws"
  shows "random_value ossl t ws \<le> total_weight ws"
  unfolding random_value_def using fmod_bounds [OF assms(2)] cumulative_is_f32 [OF is_f32_0 assms(1)]
  by (intro f32_le_of_is_f32) (auto simp: total_weight_def less_imp_le)

lemma weight_positive_step:
  assumes "list_all (\<lambda>p. 0 \<le> snd p) ws" "i < length ws"
    and "cumulative_weight 0 (take i ws) < cumulative_weight 0 (take (Suc i) ws)"
  shows "0 < snd (ws ! i)"
proof -
  let ?c = "cumulative_weight 0 (take i ws)"
  have "is_f32 ?c"
    by (rule cumulative_is_f32) (use assms(1) in \<open>auto simp: list_all_iff dest: in_set_takeD\<close>)
  moreover have "cumulative_weight 0 (take (Suc i) ws) = float_add ?c (snd (ws ! i))"
    using assms(2) by (simp add: take_Suc_conv_app_nth)
  moreover have "0 \<le> snd (ws ! i)" using assms(1,2) by (simp add: list_all_length)
  ultimately show ?thesis using assms(3) by (auto simp: float_add_def is_f32_def order_less_le)
qed

section \<open>Penalties and rewards\<close>

lemma u64_of_float_unat:
  assumes "0 \<le> x" "x < 18446744073709551616"
  shows "int (unat (u64_of_float x)) = \<lfloor>x\<rfloor>"
proof -
  have "0 \<le> \<lfloor>x\<rfloor>" "\<lfloor>x\<rfloor> < 2 ^ 64" using assms by (simp_all add: floor_less_iff)
  then have "uint (word_of_int \<lfloor>x\<rfloor> :: u64) = \<lfloor>x\<rfloor>" by (simp add: uint_word_of_int_eq take_bit_int_eq_self)
  with assms(1) show ?thesis by (simp add: u64_of_float_def flip: uint_nat)
qed

lemma get_base_reward_loop: "unat (halve_loop n r) = unat r div 2 ^ n"
proof (induction n arbitrary: r)
  case (Suc n)
  show ?case
  proof (cases "r = 0")
    case False
    then have "unat (halve_loop (Suc n) r) = unat (r div 2) div 2 ^ n" using Suc by (simp add: word_neq_0_conv)
    then show ?thesis by (simp add: unat_div div_mult2_eq)
  qed simp
qed simp

lemma add_fee_saturates:
  "unat (add_fee t tx) = min (unat t + unat (fee tx)) (2 ^ 64 - 1)"
proof (cases "unat t + unat (fee tx) < 2 ^ 64")
  case True
  then have "\<not> - 1 - t < fee tx" by (simp add: u64_room not_less)
  with True show ?thesis by (simp add: add_fee_def unat_add_room)
next
  case False
  then have "- 1 - t < fee tx" by (simp add: u64_room not_le [symmetric])
  with False show ?thesis by (simp add: add_fee_def unsigned_minus_1_eq_mask mask_eq_exp_minus_1)
qed

lemma total_fees_saturates:
  "unat (foldl add_fee t txs) = min (unat t + (\<Sum>tx\<leftarrow>txs. unat (fee tx))) (2 ^ 64 - 1)"
proof (induction txs arbitrary: t)
  case Nil
  then show ?case using unat_u64_less [of t] by simp
qed (simp add: add_fee_saturates min_def)

lemma age_mono:
  "lock_time w \<le> lock_time v \<Longrightarrow>
     (if t \<ge> lock_time v then t - lock_time v else 0) \<le> (if t \<ge> lock_time w then t - lock_time w else 0)"
  by (auto simp: word_le_nat_alt unat_sub_if_size split: if_splits)

lemma update_first_key:
  "distinct (map k xs) \<Longrightarrow> x \<in> set xs \<Longrightarrow> f x \<in> set (update_first (\<lambda>y. k y = k x) f xs)"
  by (induction xs) (auto simp: image_iff)

lemma filter_update_first:
  "(\<And>x. P x \<Longrightarrow> P (f x)) \<Longrightarrow> filter (\<lambda>x. \<not> P x) (update_first P f xs) = filter (\<lambda>x. \<not> P x) xs"
  by (induction xs) auto

lemma half_stake_error:
  "\<bar>2 * rat_of_word (u64_of_float (float_mul (float_of_u64 a) (1 / 2))) - rat_of_word a\<bar>
     \<le> rat_of_word a / 16777216 + 2"
proof (cases "a = 0")
  case True
  then show ?thesis by (simp add: float_of_u64_def float_mul_def u64_of_float_def)
next
  case False
  let ?F = "float_of_u64 a"
  have "1 \<le> ?F" using False by (simp add: float_of_u64_pos word_neq_0_conv)
  then have half: "float_mul ?F (1 / 2) = ?F / 2" by (simp add: float_mul_def f32_half)
  have err: "\<bar>?F - rat_of_word a\<bar> \<le> rat_of_word a / 16777216" by (rule float_of_u64_error)
  have "?F / 2 < 18446744073709551616" using err rat_of_word_less [of a] by linarith
  from u64_of_float_unat [OF _ this] have "int (unat (u64_of_float (?F / 2))) = \<lfloor>?F / 2\<rfloor>" by simp
  then have "rat_of_word (u64_of_float (?F / 2)) = of_int \<lfloor>?F / 2\<rfloor>"
    unfolding rat_of_word_def by (metis of_int_of_nat_eq)
  moreover have "of_int \<lfloor>?F / 2\<rfloor> \<le> ?F / 2" "?F / 2 < of_int \<lfloor>?F / 2\<rfloor> + 1" by linarith+
  ultimately show ?thesis using err unfolding half by linarith
qed

section \<open>What the engine guarantees\<close>

text \<open>Whatever sequence of registrations, restorations, removals, penalties, reward claims and
  finalisations runs, no two active validators share an address and none has an empty one, so the
  loops that stop at the first validator with an address act on the only one.\<close>
theorem validator_addresses_unique:
  assumes "reach (\<lambda>c. c = new_pos) (pos_step ossl) c"
  shows "distinct (map v_address (validators c)) \<and> [] \<notin> set (map v_address (validators c))"
  using registry.reach_inv [OF assms] by (simp add: registry_inv_def)

definition two_validators :: mermai_time_weighted_pos where
  "two_validators = snd (register_validator toy_ossl 20 ''bob'' 3000000 '''' []
     (snd (register_validator toy_ossl 10 ''alice'' 2000000 '''' [7] new_pos)))"

lemma two_validators_reach: "reach (\<lambda>c. c = new_pos) (pos_step toy_ossl) two_validators"
proof -
  have "reach (\<lambda>c. c = new_pos) (pos_step toy_ossl) new_pos" by (rule reach_start) simp
  then show ?thesis unfolding two_validators_def by (blast intro: reach_step pos_step.intros(1))
qed

lemma two_validators_eq:
  "validators two_validators =
     [\<lparr>v_address = ''alice'', v_amount = 2000000, lock_time = 10, last_proposal = 0,
       v_weight = float_of_u64 2000000, v_public_key = [7]\<rparr>,
      \<lparr>v_address = ''bob'', v_amount = 3000000, lock_time = 20, last_proposal = 0,
       v_weight = float_of_u64 3000000, v_public_key = []\<rparr>]"
  by (simp add: two_validators_def register_validator_def add_validator_def new_pos_def Let_def
      set_validators_def toy_ossl_def)

lemma validator_addresses_unique_witness:
  "distinct (map v_address (validators two_validators)) \<and> length (validators two_validators) = 2"
  using validator_addresses_unique [OF two_validators_reach] by (simp add: two_validators_eq)

text \<open>C39: The weight of a validator grows with its stake and with the age of its stake, float
  rounding included: a validator with at least the stake and at least the age of another never
  weighs less. Weights lie between the stake (as a float) and 1.46501 times the stake.\<close>
theorem weight_monotone:
  assumes "v_amount v \<le> v_amount w" and "lock_time w \<le> lock_time v"
  shows "calculate_weight v t \<le> calculate_weight w t \<and>
    float_of_u64 (v_amount v) \<le> calculate_weight v t \<and>
    calculate_weight v t \<le> f32 (float_of_u64 (v_amount v) * (12289311 / 8388608))"
proof -
  let ?age = "\<lambda>v. if t \<ge> lock_time v then t - lock_time v else 0"
  have "?age v \<le> ?age w" using assms(2) by (rule age_mono)
  then have "calculate_time_multiplier (?age v) \<le> calculate_time_multiplier (?age w)"
    by (rule time_multiplier_mono)
  moreover have "0 \<le> calculate_time_multiplier (?age v)" using time_multiplier_bounds(1) [of "?age v"] by simp
  ultimately have "calculate_weight v t \<le> calculate_weight w t"
    unfolding calculate_weight_eq using float_of_u64_mono [OF assms(1)] by (intro float_mul_mono) auto
  moreover have "calculate_weight v t \<le> float_mul (float_of_u64 (v_amount v)) (12289311 / 8388608)"
    unfolding calculate_weight_eq using time_multiplier_bounds [of "?age v"] by (intro float_mul_mono) auto
  ultimately show ?thesis using calculate_weight_ge [of v t] by (simp add: float_mul_def)
qed

lemma weight_monotone_witness:
  "calculate_weight (hd (validators two_validators)) 86410 \<le>
   calculate_weight ((hd (validators two_validators))\<lparr>v_amount := 4000000\<rparr>) 86410"
  using weight_monotone [of "hd (validators two_validators)"
      "(hd (validators two_validators))\<lparr>v_amount := 4000000\<rparr>" 86410]
  by (simp add: two_validators_eq)

text \<open>C17: The proposer of a slot is the validator on whose segment of the cumulative weights the
  random value falls: the search always ends inside the list (its fallback is never taken), and a
  validator after the first that is chosen has positive weight. In particular the proposer is an
  active validator.\<close>
theorem proposer_on_its_segment:
  fixes ossl :: "'k openssl" and c :: mermai_time_weighted_pos
  assumes "0 < total_weight (weigh c t)"
  defines "ws \<equiv> weigh c t" and "r \<equiv> random_value ossl t (weigh c t)"
  shows "\<exists>i<length (validators c).
    select_block_proposer ossl c t = v_address (validators c ! i) \<and>
    r \<le> total_weight (take (Suc i) ws) \<and>
    (\<forall>j<i. total_weight (take (Suc j) ws) < r) \<and>
    (i = 0 \<or> 0 < calculate_weight (validators c ! i) t)"
proof -
  have ne: "ws \<noteq> []" using assms(1) by (auto simp: ws_def total_weight_def)
  have le: "r \<le> cumulative_weight 0 ws"
    using random_value_le [OF weigh_nonneg assms(1)] by (simp add: r_def ws_def total_weight_def)
  from pick_proposer_roulette [OF ne le] obtain i where i: "i < length ws"
    "pick_proposer r 0 ws = Some (fst (ws ! i))" "r \<le> cumulative_weight 0 (take (Suc i) ws)"
    "\<forall>j<i. cumulative_weight 0 (take (Suc j) ws) < r" by blast
  have nth: "ws ! i = (v_address (validators c ! i), calculate_weight (validators c ! i) t)"
    and len: "i < length (validators c)" using i(1) by (simp_all add: ws_def weigh_def)
  have "select_block_proposer ossl c t = v_address (validators c ! i)"
    using i(2) nth assms(1) len by (auto simp: select_block_proposer_def Let_def ws_def r_def)
  moreover have "0 < calculate_weight (validators c ! i) t" if "i \<noteq> 0"
  proof -
    from that i(4) have "cumulative_weight 0 (take i ws) < r" by (metis Suc_pred' lessI not_gr_zero)
    with i(3) weight_positive_step [OF _ i(1)] weigh_nonneg [of c t] nth show ?thesis
      by (simp add: ws_def)
  qed
  ultimately show ?thesis using len i(3,4) by (auto simp: total_weight_def)
qed

lemma proposer_on_its_segment_witness:
  "\<exists>i<2. select_block_proposer toy_ossl two_validators 100 = v_address (validators two_validators ! i)"
proof -
  have "float_of_u64 3000000 \<le> calculate_weight (validators two_validators ! 1) 100"
    using calculate_weight_ge [of "validators two_validators ! 1" 100] by (simp add: two_validators_eq)
  then have "1 \<le> calculate_weight (validators two_validators ! 1) 100"
    using float_of_u64_pos [of 3000000] by simp
  then have "float_add 0 1 \<le> total_weight (weigh two_validators 100)"
    by (auto simp: total_weight_def weigh_def two_validators_eq intro!: float_add_mono)
  then have "0 < total_weight (weigh two_validators 100)" by (simp add: float_add_def)
  moreover have "length (validators two_validators) = 2" by (simp add: two_validators_eq)
  ultimately show ?thesis using proposer_on_its_segment [of two_validators 100 toy_ossl] by auto
qed

text \<open>The slashing applied for a double proposal halves the stake of the validator up to float
  rounding (relative error at most 2 to the power -24, and truncation), and touches nobody else.\<close>
theorem equivocation_slash_halves:
  assumes "registry_inv c" and "v \<in> set (validators c)"
  shows "\<exists>v'. v' \<in> set (validators (slash_validator (v_address v) (1 / 2) c)) \<and>
      v' = v\<lparr>v_amount := v_amount v'\<rparr> \<and>
      \<bar>2 * rat_of_word (v_amount v') - rat_of_word (v_amount v)\<bar> \<le> rat_of_word (v_amount v) / 16777216 + 2 \<and>
    filter (\<lambda>u. v_address u \<noteq> v_address v) (validators (slash_validator (v_address v) (1 / 2) c)) =
    filter (\<lambda>u. v_address u \<noteq> v_address v) (validators c)"
proof -
  let ?f = "\<lambda>v. v\<lparr>v_amount := u64_of_float (float_mul (float_of_u64 (v_amount v)) (1 / 2))\<rparr>"
  have half: "float_sub 1 (min 1 (max 0 (1 / 2))) = 1 / 2" by code_simp
  have sl: "validators (slash_validator (v_address v) (1 / 2) c) =
      update_first (\<lambda>u. v_address u = v_address v) ?f (validators c)"
    by (simp only: validators_slash half)
  have "?f v \<in> set (update_first (\<lambda>u. v_address u = v_address v) ?f (validators c))"
    using assms by (intro update_first_key) (auto simp: registry_inv_def)
  moreover have "\<bar>2 * rat_of_word (u64_of_float (float_mul (float_of_u64 (v_amount v)) (1 / 2))) -
      rat_of_word (v_amount v)\<bar> \<le> rat_of_word (v_amount v) / 16777216 + 2"
    by (rule half_stake_error)
  ultimately show ?thesis unfolding sl
    by (intro exI [of _ "?f v"]) (simp add: filter_update_first)
qed

lemma equivocation_slash_halves_witness:
  "\<exists>v'. v' \<in> set (validators (slash_validator ''bob'' (1 / 2) two_validators)) \<and> v_address v' = ''bob'' \<and>
     \<bar>2 * rat_of_word (v_amount v') - 3000000\<bar> \<le> 3000000 / 16777216 + 2"
proof -
  have "registry_inv two_validators" by (rule registry.reach_inv [OF two_validators_reach])
  moreover have "validators two_validators ! 1 \<in> set (validators two_validators)"
    "v_address (validators two_validators ! 1) = ''bob''"
    "rat_of_word (v_amount (validators two_validators ! 1)) = 3000000"
    by (simp_all add: two_validators_eq rat_of_word_def)
  ultimately obtain v' where
    "v' \<in> set (validators (slash_validator ''bob'' (1 / 2) two_validators))"
    "v' = (validators two_validators ! 1)\<lparr>v_amount := v_amount v'\<rparr>"
    "\<bar>2 * rat_of_word (v_amount v') - 3000000\<bar> \<le> 3000000 / 16777216 + 2"
    using equivocation_slash_halves [of two_validators "validators two_validators ! 1"] by metis
  moreover from this(2) have "v_address v' = ''bob''" by (metis mermai_validator_stake.select_convs(1)
        mermai_validator_stake.surjective mermai_validator_stake.update_convs(2)
        \<open>v_address (validators two_validators ! 1) = ''bob''\<close>)
  ultimately show ?thesis by blast
qed

text \<open>
  A slash by zero percent is not neutral: the product with 1 goes through a float with 24
  significant bits and may come out above the stake.
\<close>

lemma zero_slash_can_add_stake:
  "map v_amount (validators (slash_validator ''v'' 0 (set_validators
     [\<lparr>v_address = ''v'', v_amount = 16777219, lock_time = 1, last_proposal = 0, v_weight = 0,
       v_public_key = []\<rparr>] new_pos))) = [16777220]"
proof -
  have "f32 16777219 = 16777220" "float_mul 16777220 1 = 16777220" by code_simp+
  then have "float_of_u64 16777219 = 16777220" "u64_of_float (float_mul 16777220 1) = 16777220"
    by (simp_all add: float_of_u64_def rat_of_word_def u64_of_float_def)
  moreover have "float_sub 1 (min 1 (max 0 0)) = 1" by code_simp
  ultimately show ?thesis
    by (simp only: validators_slash set_validators_simps update_first.simps list.map if_True
        mermai_validator_stake.simps simp_thms)
qed

text \<open>An inactivity penalty never adds stake.\<close>

lemma inactivity_penalty_le:
  "list_all2 (\<lambda>v' v. v_amount v' \<le> v_amount v)
     (validators (apply_inactivity_penalty addr p c)) (validators c)"
proof -
  have "list_all2 (\<lambda>v' v. v_amount v' \<le> v_amount v) (update_first P f xs) xs"
    if "\<And>v. v_amount (f v) \<le> v_amount v" for P f and xs :: "mermai_validator_stake list"
    by (induction xs) (auto simp: that list.rel_refl)
  then show ?thesis
    by (auto simp: apply_inactivity_penalty_def Let_def word_le_nat_alt word_less_nat_alt unat_sub_if_size)
qed

text \<open>The block subsidy halves every 210000 blocks and the fees of a block are their exact sum,
  capped at the largest 64-bit value; finalising a block credits the sum of both (modulo 2 to the
  power 64) to the validator named in the block and to nobody else, and changes no stake.\<close>
theorem finalize_block_credits:
  fixes b :: mermai_block and c :: mermai_time_weighted_pos and proposer :: string
  defines "c' \<equiv> finalize_block (Some b) proposer c"
    and "fees \<equiv> min (\<Sum>tx\<leftarrow>transactions b. unat (fee tx)) (2 ^ 64 - 1)"
    and "subsidy \<equiv> 50000000 div 2 ^ (unat (height b) div 210000)"
  shows "get_pending_rewards c' a =
      get_pending_rewards c a + (if a = validator_address b then of_nat (subsidy + fees) else 0) \<and>
    map v_amount (validators c') = map v_amount (validators c)"
proof -
  let ?v = "validator_address b" and ?m = "pending_rewards c" and ?fees = "foldl add_fee 0 (transactions b)"
  have "unat (get_base_reward (height b)) = subsidy"
    by (simp add: get_base_reward_def subsidy_def get_base_reward_loop unat_div)
  then have base: "get_base_reward (height b) = of_nat subsidy" by auto
  have "unat ?fees = fees" using total_fees_saturates [of 0 "transactions b"] by (simp add: fees_def)
  then have fees: "?fees = of_nat fees" by auto
  have m: "pending_rewards c' = foldl add_reward ?m (calculate_block_rewards b (height b))"
    by (simp add: c'_def finalize_block_def)
  have at: "get_pending_rewards x a = omap_at 0 a (pending_rewards x)" for x
    by (simp add: get_pending_rewards_def omap_at_def)
  have "omap_at 0 a (pending_rewards c') =
      omap_at 0 a ?m + (if a = ?v then get_base_reward (height b) + ?fees else 0)"
    unfolding m by (auto simp: calculate_block_rewards_def distribute_fees_def Let_def add_reward_def
        word_neq_0_conv not_less algebra_simps)
  moreover have "map v_amount (validators c') = map v_amount (validators c)"
    by (simp add: c'_def finalize_block_def map_update_first)
  ultimately show ?thesis unfolding at base fees by simp
qed

lemma finalize_block_credits_witness:
  "get_pending_rewards (finalize_block (Some ((new_block 0 210000)\<lparr>validator_address := ''bob''\<rparr>)) ''bob''
     new_pos) ''bob'' = 25000000"
  using finalize_block_credits [of "(new_block 0 210000)\<lparr>validator_address := ''bob''\<rparr>" "''bob''" new_pos "''bob''"]
  by (simp add: new_block_def new_pos_def get_pending_rewards_def)

end
