(* ===== verification/Mermai_Proposal.thy ===== *)
theory Mermai_Proposal
  imports Mermai_Consensus "HOL-Library.Product_Lexorder"
begin

text \<open>
  The proposal validator (\<^verbatim>\<open>mermai_proposal_validator\<close> in
  \<^verbatim>\<open>src/src/consensus/mermai_consensus.cpp\<close>): a block must come from the validator selected for
  its slot, state that validator's exact stake and age, and carry a signature under the key the
  validator registered; a second block for the same height and slot is equivocation and slashes
  the proposer. The static map of seen proposals is part of the state.
\<close>

section \<open>Operations\<close>

type_synonym seen_proposals = "(u32 \<times> u64, string) omap"

definition slot_of :: "u64 \<Rightarrow> u64" where
  "slot_of current_time = current_time - current_time mod 10"

definition verify_proposer_is_authorized :: "string \<Rightarrow> rat \<Rightarrow> bool" where
  "verify_proposer_is_authorized proposer validator_weight \<longleftrightarrow> validator_weight > 0 \<and> proposer \<noteq> []"

text \<open>The loop over the validators, which decides at the first one with the expected address.\<close>

definition proposal_matches ::
  "'k openssl \<Rightarrow> mermai_block \<Rightarrow> mermai_time_weighted_pos \<Rightarrow> string \<Rightarrow> u64 \<Rightarrow> bool" where
  "proposal_matches ossl b c expected_proposer slot_time =
     (case find (\<lambda>v. v_address v = expected_proposer) (validators c) of
        None \<Rightarrow> False
      | Some v \<Rightarrow>
          let age = (if slot_time \<ge> lock_time v then slot_time - lock_time v else 0);
              signature_valid = (v_public_key v = [] \<or>
                (validator_public_key b = v_public_key v \<and> verify_validator_signature ossl b))
          in validator_stake b = v_amount v \<and> validator_age b = age \<and> signature_valid \<and>
             verify_proposer_is_authorized expected_proposer (calculate_weight v slot_time))"

definition validate_proposal ::
  "'k openssl \<Rightarrow> mermai_block option \<Rightarrow> u64 \<Rightarrow> mermai_time_weighted_pos \<times> seen_proposals \<Rightarrow>
     bool \<times> mermai_time_weighted_pos \<times> seen_proposals" where
  "validate_proposal ossl block current_time s =
     (case (block, s) of
        (None, _) \<Rightarrow> (False, s)
      | (Some b, (c, seen)) \<Rightarrow>
          let slot_time = slot_of current_time;
              expected_proposer = select_block_proposer ossl c slot_time
          in if expected_proposer = [] \<or> validator_address b \<noteq> expected_proposer then (False, c, seen)
             else case omap_find seen (height b, slot_time) of
                 Some h \<Rightarrow>
                   if h \<noteq> block_hash_hex ossl b
                   then (False, slash_validator expected_proposer (1 / 2) c, seen)
                   else (proposal_matches ossl b c expected_proposer slot_time, c, seen)
               | None \<Rightarrow>
                   (proposal_matches ossl b c expected_proposer slot_time, c,
                    omap_put (height b, slot_time) (block_hash_hex ossl b) seen))"

definition reset_proposals ::
  "mermai_time_weighted_pos \<times> seen_proposals \<Rightarrow> mermai_time_weighted_pos \<times> seen_proposals" where
  "reset_proposals s = (fst s, [])"

definition validate_signature :: "'k openssl \<Rightarrow> u64 \<Rightarrow> mermai_transaction \<Rightarrow> bool" where
  "validate_signature ossl now tx = tx_verify ossl now tx"

text \<open>The engine and the validator side by side, between two resets.\<close>

inductive proposal_step ::
  "'k openssl \<Rightarrow> mermai_time_weighted_pos \<times> seen_proposals \<Rightarrow>
     mermai_time_weighted_pos \<times> seen_proposals \<Rightarrow> bool" for ossl where
  proposal_validate: "proposal_step ossl s (snd (validate_proposal ossl block t s))"
| proposal_engine: "pos_step ossl c c' \<Longrightarrow> proposal_step ossl (c, seen) (c', seen)"

section \<open>What an accepted proposal is\<close>

lemma validate_proposal_Some:
  "validate_proposal ossl (Some b) t (c, seen) =
     (let p = select_block_proposer ossl c (slot_of t)
      in if p = [] \<or> validator_address b \<noteq> p then (False, c, seen)
         else case omap_find seen (height b, slot_of t) of
             Some h \<Rightarrow> if h \<noteq> block_hash_hex ossl b then (False, slash_validator p (1 / 2) c, seen)
               else (proposal_matches ossl b c p (slot_of t), c, seen)
           | None \<Rightarrow> (proposal_matches ossl b c p (slot_of t), c,
               omap_put (height b, slot_of t) (block_hash_hex ossl b) seen))"
  by (simp add: validate_proposal_def Let_def)

lemma accepted_iff:
  "fst (validate_proposal ossl (Some b) t (c, seen)) \<longleftrightarrow>
     validator_address b \<noteq> [] \<and> validator_address b = select_block_proposer ossl c (slot_of t) \<and>
     omap_find seen (height b, slot_of t) \<in> {None, Some (block_hash_hex ossl b)} \<and>
     (\<exists>v. find (\<lambda>v. v_address v = validator_address b) (validators c) = Some v \<and>
        validator_stake b = v_amount v \<and>
        validator_age b = (if slot_of t \<ge> lock_time v then slot_of t - lock_time v else 0) \<and>
        0 < calculate_weight v (slot_of t) \<and>
        (v_public_key v = [] \<or>
         validator_public_key b = v_public_key v \<and> verify_validator_signature ossl b))"
  by (auto simp: validate_proposal_Some proposal_matches_def verify_proposer_is_authorized_def Let_def
      split: option.splits if_splits)

text \<open>A proposal is accepted exactly when it names the proposer selected for its slot, no other
  block was proposed for the same height and slot, it states the current stake and the age of
  that validator, the validator has positive weight, and it is signed under the registered key
  (if one is registered).\<close>
theorem validate_proposal_accepts:
  "fst (validate_proposal ossl (Some b) t (c, seen)) \<longleftrightarrow>
     validator_address b \<noteq> [] \<and> validator_address b = select_block_proposer ossl c (slot_of t) \<and>
     omap_find seen (height b, slot_of t) \<in> {None, Some (block_hash_hex ossl b)} \<and>
     (\<exists>v. find (\<lambda>v. v_address v = validator_address b) (validators c) = Some v \<and>
        validator_stake b = v_amount v \<and>
        validator_age b = (if slot_of t \<ge> lock_time v then slot_of t - lock_time v else 0) \<and>
        0 < calculate_weight v (slot_of t) \<and>
        (v_public_key v = [] \<or>
         validator_public_key b = v_public_key v \<and> verify_validator_signature ossl b))"
  by (rule accepted_iff)

text \<open>Seen proposals are never forgotten or overwritten.\<close>

lemma proposal_step_seen:
  assumes "proposal_step ossl s s'" and "omap_find (snd s) k = Some h"
  shows "omap_find (snd s') k = Some h"
  using assms(1)
proof (cases rule: proposal_step.cases)
  case (proposal_validate block t)
  obtain c seen where s: "s = (c, seen)" by (cases s)
  from assms(2) show ?thesis
    unfolding proposal_validate s
    by (cases block) (auto simp: validate_proposal_def Let_def split: option.splits if_splits)
next
  case (proposal_engine c c' seen)
  with assms(2) show ?thesis by simp
qed

interpretation seen_once: safe_system
  "\<lambda>s. omap_find (snd s) k = Some h" "proposal_step ossl" "\<lambda>s. omap_find (snd s) k = Some h" for k h ossl
  by unfold_locales (auto intro: proposal_step_seen)

lemma accepted_recorded:
  assumes "validate_proposal ossl (Some b) t s = (True, s')"
  shows "omap_find (snd s') (height b, slot_of t) = Some (block_hash_hex ossl b)"
proof (cases s)
  case (Pair c seen)
  from assms have "s' = snd (validate_proposal ossl (Some b) t (c, seen))"
    and acc: "fst (validate_proposal ossl (Some b) t (c, seen))" by (simp_all add: Pair)
  then show ?thesis
    by (auto simp: validate_proposal_Some Let_def split: option.splits if_splits)
qed

text \<open>C13: For one height and one slot at most one block is ever accepted: if a block was accepted and
  later, after any number of further validations and changes to the validators, another block for
  the same height and slot is accepted, both have the same hash.\<close>
theorem one_proposal_per_slot:
  assumes "validate_proposal ossl (Some b) t s = (True, s1)"
    and "reach (\<lambda>s. s = s1) (proposal_step ossl) s2"
    and "validate_proposal ossl (Some b') t' s2 = (True, s3)"
    and "height b' = height b" "slot_of t' = slot_of t"
  shows "block_hash_hex ossl b' = block_hash_hex ossl b"
proof -
  have "reach (\<lambda>s. omap_find (snd s) (height b, slot_of t) = Some (block_hash_hex ossl b)) (proposal_step ossl) s2"
    using assms(2) by (induction) (use accepted_recorded [OF assms(1)] in \<open>auto intro: reach.intros\<close>)
  from seen_once.reach_inv [OF this]
  have seen: "omap_find (snd s2) (height b', slot_of t') = Some (block_hash_hex ossl b)"
    by (simp add: assms(4,5))
  obtain c seen where s2: "s2 = (c, seen)" by (cases s2)
  from assms(3) have "fst (validate_proposal ossl (Some b') t' (c, seen))" by (simp add: s2)
  with accepted_iff [of ossl b' t' c seen] seen show ?thesis by (simp add: s2)
qed

text \<open>Equivocation is recorded before the signature is looked at: after any block that merely
  names the selected proposer was checked (signed or not, accepted or not), the proposer's own
  block for the same height and slot is rejected and its stake is halved.\<close>
theorem forged_proposal_frames_proposer:
  assumes "validator_address forged = select_block_proposer ossl c (slot_of t)"
    and "validator_address b = validator_address forged" "validator_address b \<noteq> []"
    and "height b = height forged" and "block_hash_hex ossl b \<noteq> block_hash_hex ossl forged"
    and "omap_find seen (height forged, slot_of t) = None"
  shows "case validate_proposal ossl (Some forged) t (c, seen) of (_, s1) \<Rightarrow>
    fst (validate_proposal ossl (Some b) t s1) = False \<and>
    fst (snd (validate_proposal ossl (Some b) t s1)) = slash_validator (validator_address b) (1 / 2) c"
  using assms by (auto simp: validate_proposal_Some Let_def)

section \<open>Examples\<close>

definition solo :: mermai_time_weighted_pos where
  "solo = snd (register_validator toy_ossl 10 ''alice'' 2000000 '''' [7] new_pos)"

lemma solo_validators:
  "validators solo = [\<lparr>v_address = ''alice'', v_amount = 2000000, lock_time = 10, last_proposal = 0,
     v_weight = float_of_u64 2000000, v_public_key = [7]\<rparr>]"
  by (simp add: solo_def register_validator_def add_validator_def new_pos_def Let_def
      set_validators_def toy_ossl_def)

lemma solo_proposer: "select_block_proposer toy_ossl solo t = ''alice''"
proof (cases "total_weight (weigh solo t) \<le> 0")
  case True
  then show ?thesis by (simp add: select_block_proposer_def solo_validators)
next
  case False
  then show ?thesis
    by (auto simp: select_block_proposer_def solo_validators weigh_def Let_def split: option.splits)
qed

definition alice_block :: "u32 \<Rightarrow> mermai_block" where
  "alice_block n = snd (block_sign toy_ossl (Some 7) ((new_block 55 1)\<lparr>nonce := n,
     validator_address := ''alice'', validator_stake := 2000000, validator_age := 40\<rparr>))"

lemma alice_block_simps [simp]:
  "validator_address (alice_block n) = ''alice''" "height (alice_block n) = 1"
  "validator_stake (alice_block n) = 2000000" "validator_age (alice_block n) = 40"
  "validator_public_key (alice_block n) = [7]"
  by (simp_all add: alice_block_def block_sign_def new_block_def exported_key_def Let_def split: prod.splits)

lemma alice_block_signed: "verify_validator_signature toy_ossl (alice_block n)"
  unfolding alice_block_def using block_sign_accepted [of toy_ossl 7] by (simp add: new_block_def)

lemma alice_block_accepted:
  assumes "omap_find seen (1, 50) \<in> {None, Some (block_hash_hex toy_ossl (alice_block n))}"
  shows "fst (validate_proposal toy_ossl (Some (alice_block n)) 55 (solo, seen))"
proof -
  have "1 \<le> calculate_weight (hd (validators solo)) 50"
    using calculate_weight_ge [of "hd (validators solo)" 50] float_of_u64_pos [of 2000000]
    by (simp add: solo_validators)
  then have "0 < calculate_weight (hd (validators solo)) 50" by linarith
  then show ?thesis using assms
    by (auto simp: validate_proposal_Some slot_of_def solo_proposer proposal_matches_def
        verify_proposer_is_authorized_def alice_block_signed Let_def solo_validators)
qed

lemma toy_hash_prefix:
  assumes "take 31 (serialize_block a) \<noteq> take 31 (serialize_block b)" "length (serialize_block a) \<ge> 31" "length (serialize_block b) \<ge> 31"
  shows "block_hash_hex toy_ossl a \<noteq> block_hash_hex toy_ossl b"
  using assms by (auto simp: block_hash_hex_def calculate_hash_def toy_ossl_def take_map)

lemma alice_blocks_differ: "block_hash_hex toy_ossl (alice_block 3) \<noteq> block_hash_hex toy_ossl (alice_block 4)"
proof (rule toy_hash_prefix)
  show "take 31 (serialize_block (alice_block 3)) \<noteq> take 31 (serialize_block (alice_block 4))" by code_simp
qed (code_simp, code_simp)

lemma one_proposal_per_slot_witness:
  "let s1 = snd (validate_proposal toy_ossl (Some (alice_block 3)) 55 (solo, []))
   in fst (validate_proposal toy_ossl (Some (alice_block 3)) 55 (solo, [])) \<and>
      \<not> fst (validate_proposal toy_ossl (Some (alice_block 4)) 55 s1)"
proof -
  let ?v = "\<lambda>n. validate_proposal toy_ossl (Some (alice_block n)) 55"
  let ?s1 = "snd (?v 3 (solo, []))"
  have a: "fst (?v 3 (solo, []))" by (rule alice_block_accepted) simp
  then have v: "?v 3 (solo, []) = (True, ?s1)" by (simp add: prod_eq_iff)
  have "reach (\<lambda>s. s = ?s1) (proposal_step toy_ossl) ?s1" by (rule reach_start) simp
  note one = one_proposal_per_slot [OF v this]
  have "\<not> fst (?v 4 ?s1)"
  proof
    assume "fst (?v 4 ?s1)"
    then have "?v 4 ?s1 = (True, snd (?v 4 ?s1))" by (simp add: prod_eq_iff)
    from one [OF this] alice_blocks_differ show False by simp
  qed
  with a show ?thesis unfolding Let_def by blast
qed
text \<open>A block nobody signed makes the signed block of the validator an equivocation.\<close>

lemma forged_proposal_frames_proposer_witness:
  "let forged = (new_block 0 1)\<lparr>validator_address := ''alice''\<rparr>;
       s1 = snd (validate_proposal toy_ossl (Some forged) 55 (solo, []))
   in \<not> verify_validator_signature toy_ossl forged \<and>
      verify_validator_signature toy_ossl (alice_block 0) \<and>
      \<not> fst (validate_proposal toy_ossl (Some (alice_block 0)) 55 s1) \<and>
      fst (snd (validate_proposal toy_ossl (Some (alice_block 0)) 55 s1)) =
        slash_validator ''alice'' (1 / 2) solo"
proof -
  let ?forged = "(new_block 0 1)\<lparr>validator_address := ''alice''\<rparr>"
  have "length (serialize_block (alice_block 0)) = 133" "length (serialize_block ?forged) = 65"
    by (simp_all add: alice_block_def block_sign_def new_block_def serialize_block_def exported_key_def
        block_signing_payload_def sign_payload_def toy_ossl_def write_string_def write_bytes_def
        write_counted_def write_value_def)
  then have "block_hash_hex toy_ossl (alice_block 0) \<noteq> block_hash_hex toy_ossl ?forged"
    by (simp add: block_hash_hex_def calculate_hash_def toy_ossl_def)
  moreover have "\<not> verify_validator_signature toy_ossl ?forged"
    by (simp add: verify_validator_signature_def new_block_def)
  ultimately show ?thesis
    using forged_proposal_frames_proposer [of ?forged toy_ossl solo 55 "alice_block 0" "[]"]
      alice_block_signed [of 0]
    by (simp add: solo_proposer new_block_def Let_def split: prod.splits)
qed

end
