(* ===== verification/Mermai_Blockchain.thy ===== *)
theory Mermai_Blockchain
  imports Mermai_Merkle Mermai_Proposal
begin

text \<open>
  The chain of blocks (\<^verbatim>\<open>mermai_blockchain\<close> in \<^verbatim>\<open>src/src/core/mermai_blockchain.cpp\<close>): the
  genesis block, the checks before a block is appended, and the replacement of the whole chain by
  a longer one. Checking a block consults the proposal validator, which may record a proposal or
  slash a validator even when the block is refused; that environment (the consensus engine, if
  one is set, and the seen proposals) is threaded through every operation. The clock is an
  argument.
\<close>

section \<open>Operations\<close>

record chain_env =
  consensus_engine :: "mermai_time_weighted_pos option"
  seen_props :: seen_proposals

record mermai_blockchain =
  chain :: "mermai_block list"
  difficulty :: u32

definition genesis_block :: "u64 \<Rightarrow> mermai_block" where
  "genesis_block now = (new_block now 0)\<lparr>prev_block_hash := zero_hash, blk_timestamp := 1640000000\<rparr>"

definition new_blockchain :: "u64 \<Rightarrow> mermai_blockchain" where
  "new_blockchain now = \<lparr>chain = [genesis_block now], difficulty = 4\<rparr>"

definition consult_validator :: "'k openssl \<Rightarrow> mermai_block \<Rightarrow> chain_env \<Rightarrow> bool \<times> chain_env" where
  "consult_validator ossl b env =
     (case consensus_engine env of
        None \<Rightarrow> (True, env)
      | Some c \<Rightarrow>
          (case validate_proposal ossl (Some b) (blk_timestamp b) (c, seen_props env) of
             (r, c', seen') \<Rightarrow> (r, env\<lparr>consensus_engine := Some c', seen_props := seen'\<rparr>)))"

definition check_merkle_root :: "'k openssl \<Rightarrow> mermai_block \<Rightarrow> bool" where
  "check_merkle_root ossl b \<longleftrightarrow>
     \<not> ((transactions b \<noteq> [] \<and> merkle_root b \<noteq> calculate_tree_hash ossl (transactions b)) \<or>
        (transactions b = [] \<and> merkle_root b \<noteq> []))"

fun check_transactions :: "'k openssl \<Rightarrow> u64 \<Rightarrow> string set \<Rightarrow> mermai_transaction list \<Rightarrow> bool" where
  "check_transactions ossl now transaction_ids [] = True"
| "check_transactions ossl now transaction_ids (tx # txs) =
     (if \<not> tx_verify ossl now tx then False
      else if tx_id tx \<in> transaction_ids then False
      else check_transactions ossl now (insert (tx_id tx) transaction_ids) txs)"

definition can_add_block ::
  "'k openssl \<Rightarrow> u64 \<Rightarrow> mermai_block option \<Rightarrow> mermai_blockchain \<Rightarrow> chain_env \<Rightarrow> bool \<times> chain_env" where
  "can_add_block ossl now block bc env =
     (case block of
        None \<Rightarrow> (False, env)
      | Some b \<Rightarrow>
          let prev = last (chain bc)
          in if unat (height b) \<noteq> length (chain bc) then (False, env)
             else if prev_block_hash b = [] \<or> prev_block_hash b \<noteq> block_hash_hex ossl prev then (False, env)
             else if blk_timestamp b < blk_timestamp prev \<or> blk_timestamp b > now + 120 then (False, env)
             else if \<not> verify_time_weight_pos b then (False, env)
             else
               let (valid, env') = consult_validator ossl b env
               in if \<not> valid then (False, env')
                  else if length (transactions b) > MAX_BLOCK_TRANSACTIONS then (False, env')
                  else if \<not> check_merkle_root ossl b then (False, env')
                  else (check_transactions ossl now {} (transactions b), env'))"

definition add_block ::
  "'k openssl \<Rightarrow> u64 \<Rightarrow> mermai_block option \<Rightarrow> mermai_blockchain \<times> chain_env \<Rightarrow>
     bool \<times> mermai_blockchain \<times> chain_env" where
  "add_block ossl now block s =
     (let (bc, env) = s; (ok, env') = can_add_block ossl now block bc env
      in case (ok, block) of
           (True, Some b) \<Rightarrow> (True, bc\<lparr>chain := chain bc @ [b]\<rparr>, env')
         | _ \<Rightarrow> (False, bc, env'))"

text \<open>
  The loop of \<^verbatim>\<open>replace_chain_if_longer\<close>: \<open>validated\<close> is the chain validated so far, and the
  result is \<open>None\<close> where the loop returns false.
\<close>

fun validate_chain ::
  "'k openssl \<Rightarrow> u64 \<Rightarrow> mermai_block list \<Rightarrow> mermai_block option list \<Rightarrow> chain_env \<Rightarrow>
     mermai_block list option \<times> chain_env" where
  "validate_chain ossl now validated [] env = (Some validated, env)"
| "validate_chain ossl now validated (None # blocks) env = (None, env)"
| "validate_chain ossl now validated (Some b # blocks) env =
     (let index = length validated
      in if height b \<noteq> of_nat index then (None, env)
         else if (if index = 0 then height b \<noteq> 0 \<or> prev_block_hash b \<noteq> zero_hash
                  else prev_block_hash b \<noteq> block_hash_hex ossl (last validated) \<or>
                       blk_timestamp b < blk_timestamp (last validated)) then (None, env)
         else if (index \<noteq> 0 \<and> \<not> verify_time_weight_pos b) \<or>
                 length (transactions b) > MAX_BLOCK_TRANSACTIONS then (None, env)
         else
           let (valid, env') = (if index \<noteq> 0 then consult_validator ossl b env else (True, env))
           in if \<not> valid then (None, env')
              else if \<not> check_merkle_root ossl b then (None, env')
              else if \<not> check_transactions ossl now {} (transactions b) then (None, env')
              else validate_chain ossl now (validated @ [b]) blocks env')"

definition replace_chain_if_longer ::
  "'k openssl \<Rightarrow> u64 \<Rightarrow> mermai_block option list \<Rightarrow> mermai_blockchain \<times> chain_env \<Rightarrow>
     bool \<times> mermai_blockchain \<times> chain_env" where
  "replace_chain_if_longer ossl now candidate_chain s =
     (let (bc, env) = s
      in if candidate_chain = [] then (False, bc, env)
         else if length candidate_chain \<le> length (chain bc) then (False, bc, env)
         else case validate_chain ossl now [] candidate_chain env of
                (None, env') \<Rightarrow> (False, bc, env')
              | (Some validated, env') \<Rightarrow> (True, bc\<lparr>chain := validated\<rparr>, env'))"

definition get_block :: "mermai_blockchain \<Rightarrow> u32 \<Rightarrow> mermai_block option" where
  "get_block bc h = (if unat h \<ge> length (chain bc) then None else Some (chain bc ! unat h))"

definition get_latest_block :: "mermai_blockchain \<Rightarrow> mermai_block option" where
  "get_latest_block bc = (if chain bc = [] then None else Some (last (chain bc)))"

definition get_height :: "mermai_blockchain \<Rightarrow> u32" where
  "get_height bc = (if chain bc = [] then 0 else of_nat (length (chain bc) - 1))"

fun chain_links :: "'k openssl \<Rightarrow> mermai_block list \<Rightarrow> bool" where
  "chain_links ossl (previous # current # rest) =
     (if prev_block_hash current \<noteq> block_hash_hex ossl previous then False
      else if \<not> verify_time_weight_pos current then False
      else chain_links ossl (current # rest))"
| "chain_links ossl _ = True"

definition is_chain_valid :: "'k openssl \<Rightarrow> mermai_blockchain \<Rightarrow> bool" where
  "is_chain_valid ossl bc = chain_links ossl (chain bc)"

definition is_valid :: "'k openssl \<Rightarrow> mermai_blockchain \<Rightarrow> bool" where
  "is_valid ossl bc = is_chain_valid ossl bc"

definition calculate_difficulty :: "mermai_blockchain \<Rightarrow> u32" where
  "calculate_difficulty bc = difficulty bc"

text \<open>Everything that happens to a chain: blocks arrive, longer chains arrive, and the engine
  evolves; the clock is whatever it is at each step.\<close>

inductive chain_step ::
  "'k openssl \<Rightarrow> mermai_blockchain \<times> chain_env \<Rightarrow> mermai_blockchain \<times> chain_env \<Rightarrow> bool" for ossl where
  chain_add: "chain_step ossl s (snd (add_block ossl now block s))"
| chain_replace: "chain_step ossl s (snd (replace_chain_if_longer ossl now candidate s))"
| chain_engine: "chain_step ossl (bc, env) (bc, env')"

section \<open>Well-formed chains\<close>

lemma check_transactions_iff:
  "check_transactions ossl now ids txs \<longleftrightarrow>
     list_all (tx_verify ossl now) txs \<and> distinct (map tx_id txs) \<and> ids \<inter> tx_id ` set txs = {}"
  by (induction txs arbitrary: ids) auto

definition body_ok :: "'k openssl \<Rightarrow> mermai_block \<Rightarrow> bool" where
  "body_ok ossl b \<longleftrightarrow> length (transactions b) \<le> MAX_BLOCK_TRANSACTIONS \<and> check_merkle_root ossl b \<and>
     distinct (map tx_id (transactions b)) \<and> (\<exists>now. list_all (tx_verify ossl now) (transactions b))"

definition extends :: "'k openssl \<Rightarrow> mermai_block \<Rightarrow> mermai_block \<Rightarrow> bool" where
  "extends ossl prev b \<longleftrightarrow> prev_block_hash b = block_hash_hex ossl prev \<and>
     blk_timestamp prev \<le> blk_timestamp b \<and> verify_time_weight_pos b"

definition chain_ok :: "'k openssl \<Rightarrow> mermai_block list \<Rightarrow> bool" where
  "chain_ok ossl bs \<longleftrightarrow>
     bs \<noteq> [] \<and> prev_block_hash (hd bs) = zero_hash \<and> list_all (body_ok ossl) bs \<and>
     (\<forall>i<length bs. height (bs ! i) = of_nat i) \<and>
     (\<forall>i<length bs - 1. extends ossl (bs ! i) (bs ! Suc i))"

lemma chain_ok_snoc:
  "bs \<noteq> [] \<Longrightarrow> chain_ok ossl (bs @ [b]) \<longleftrightarrow>
     chain_ok ossl bs \<and> height b = of_nat (length bs) \<and> body_ok ossl b \<and> extends ossl (last bs) b"
proof -
  assume ne: "bs \<noteq> []"
  then obtain n where n: "length bs = Suc n" by (cases bs) auto
  with ne have last: "last bs = bs ! n" by (simp add: last_conv_nth)
  have "(\<forall>i<length bs. extends ossl ((bs @ [b]) ! i) ((bs @ [b]) ! Suc i)) \<longleftrightarrow>
      (\<forall>i<n. extends ossl (bs ! i) (bs ! Suc i)) \<and> extends ossl (last bs) b"
    by (auto simp: n last All_less_Suc nth_append)
  then show ?thesis using ne n
    by (auto simp: chain_ok_def All_less_Suc nth_append)
qed

lemma chain_ok_single:
  "chain_ok ossl [b] \<longleftrightarrow> prev_block_hash b = zero_hash \<and> body_ok ossl b \<and> height b = 0"
  by (auto simp: chain_ok_def)

lemma chain_ok_links: "chain_ok ossl bs \<Longrightarrow> chain_links ossl bs"
proof -
  have "chain_links ossl bs \<longleftrightarrow> (\<forall>i<length bs - 1. prev_block_hash (bs ! Suc i) = block_hash_hex ossl (bs ! i) \<and>
      verify_time_weight_pos (bs ! Suc i))"
  proof (induction ossl bs rule: chain_links.induct)
    case (1 ossl p c rest)
    then show ?case by (auto simp: All_less_Suc2)
  qed auto
  then show "chain_ok ossl bs \<Longrightarrow> chain_links ossl bs" by (auto simp: chain_ok_def extends_def)
qed

lemma body_okI:
  "length (transactions b) \<le> MAX_BLOCK_TRANSACTIONS \<Longrightarrow> check_merkle_root ossl b \<Longrightarrow>
     check_transactions ossl now {} (transactions b) \<Longrightarrow> body_ok ossl b"
  by (auto simp: body_ok_def check_transactions_iff)

text \<open>What \<^verbatim>\<open>can_add_block\<close> lets through.\<close>

lemma can_add_block_accepts:
  assumes "can_add_block ossl now (Some b) bc env = (True, env')"
  shows "unat (height b) = length (chain bc) \<and> extends ossl (last (chain bc)) b \<and>
    blk_timestamp b \<le> now + 120 \<and> body_ok ossl b \<and> list_all (tx_verify ossl now) (transactions b) \<and>
    consult_validator ossl b env = (True, env')"
  using assms body_okI [of b ossl now]
  by (auto simp: can_add_block_def Let_def extends_def check_transactions_iff not_less
      split: if_splits prod.splits)

lemma add_block_result:
  "add_block ossl now block (bc, env) = (r, bc', env') \<Longrightarrow>
     (if r then \<exists>b. block = Some b \<and> can_add_block ossl now block bc env = (True, env') \<and>
        bc' = bc\<lparr>chain := chain bc @ [b]\<rparr>
      else bc' = bc)"
  by (auto simp: add_block_def Let_def split: prod.splits bool.splits option.splits)

lemma add_block_chain_ok:
  assumes "chain_ok ossl (chain bc)" and "add_block ossl now block (bc, env) = (r, bc', env')"
  shows "chain_ok ossl (chain bc')"
proof (cases r)
  case True
  with add_block_result [OF assms(2)] obtain b where b: "block = Some b"
    "can_add_block ossl now (Some b) bc env = (True, env')" "bc' = bc\<lparr>chain := chain bc @ [b]\<rparr>" by auto
  have "height b = of_nat (unat (height b))" by simp
  with can_add_block_accepts [OF b(2)] have "height b = of_nat (length (chain bc))"
    and "extends ossl (last (chain bc)) b" "body_ok ossl b" by auto
  moreover have "chain bc \<noteq> []" using assms(1) by (simp add: chain_ok_def)
  ultimately show ?thesis using assms(1) b(3) by (simp add: chain_ok_snoc)
next
  case False
  with add_block_result [OF assms(2)] assms(1) show ?thesis by simp
qed

lemma validate_chain_ok:
  assumes "validate_chain ossl now validated blocks env = (Some bs, env')"
    and "validated = [] \<or> chain_ok ossl validated"
  shows "(bs = [] \<or> chain_ok ossl bs) \<and> map Some bs = map Some validated @ blocks"
  using assms
proof (induction blocks arbitrary: validated env)
  case (Cons block blocks)
  then obtain b where block: "block = Some b" by (cases block) auto
  let ?cv = "if validated \<noteq> [] then consult_validator ossl b env else (True, env)"
  obtain valid env1 where cv: "?cv = (valid, env1)" by (cases ?cv)
  from Cons.prems(1) cv have rec: "validate_chain ossl now (validated @ [b]) blocks env1 = (Some bs, env')"
    and checks: "height b = of_nat (length validated)"
      "length (transactions b) \<le> MAX_BLOCK_TRANSACTIONS" "check_merkle_root ossl b"
      "check_transactions ossl now {} (transactions b)"
      "validated = [] \<Longrightarrow> prev_block_hash b = zero_hash"
      "validated \<noteq> [] \<Longrightarrow> extends ossl (last validated) b"
    by (auto simp: block Let_def extends_def not_less split: if_splits prod.splits)
  have "chain_ok ossl (validated @ [b])"
    using Cons.prems(2) checks body_okI [OF checks(2-4)]
    by (cases "validated = []") (auto simp: chain_ok_single chain_ok_snoc)
  with Cons.IH [OF rec] show ?case by (simp add: block)
qed simp

lemma replace_chain_result:
  assumes "replace_chain_if_longer ossl now candidate (bc, env) = (r, bc', env')"
  shows "if r then length (chain bc) < length (chain bc') \<and> chain_ok ossl (chain bc') \<and>
      map Some (chain bc') = candidate
    else bc' = bc"
proof (cases r)
  case True
  with assms obtain bs where v: "validate_chain ossl now [] candidate env = (Some bs, env')"
    and bs: "bc' = bc\<lparr>chain := bs\<rparr>" and len: "length (chain bc) < length candidate" "candidate \<noteq> []"
    by (auto simp: replace_chain_if_longer_def Let_def not_le split: if_splits prod.splits option.splits)
  from validate_chain_ok [OF v] have "bs = [] \<or> chain_ok ossl bs" "map Some bs = candidate" by auto
  with True bs len show ?thesis by (metis (no_types, lifting) length_map list.map_disc_iff
        mermai_blockchain.select_convs(1) mermai_blockchain.surjective mermai_blockchain.update_convs(1))
next
  case False
  with assms show ?thesis
    by (auto simp: replace_chain_if_longer_def Let_def split: if_splits prod.splits option.splits)
qed

interpretation chain_system: safe_system
  "\<lambda>s. \<exists>now. fst s = new_blockchain now" "chain_step ossl" "\<lambda>s. chain_ok ossl (chain (fst s))"
proof
  show "\<exists>now. fst s = new_blockchain now \<Longrightarrow> chain_ok ossl (chain (fst s))" for s :: "mermai_blockchain \<times> chain_env"
    by (auto simp: new_blockchain_def genesis_block_def new_block_def chain_ok_single body_ok_def
        check_merkle_root_def)
next
  fix s t :: "mermai_blockchain \<times> chain_env"
  assume ok: "chain_ok ossl (chain (fst s))" and "chain_step ossl s t"
  from this(2) show "chain_ok ossl (chain (fst t))"
  proof (cases rule: chain_step.cases)
    case (chain_add now block)
    then show ?thesis using ok add_block_chain_ok [of ossl "fst s" now block "snd s"]
      by (metis prod.collapse)
  next
    case (chain_replace now candidate)
    then show ?thesis using ok replace_chain_result [of ossl now candidate "fst s" "snd s"]
      by (metis prod.collapse)
  qed (use ok in auto)
qed

section \<open>What the chain guarantees\<close>

text \<open>C6: Whatever blocks and candidate chains arrive, at whatever times, the node's chain is never
  empty, starts from a block with the all-zero predecessor, every block is linked to the hash of
  the block before it with a timestamp that does not go back, heights are positions, every block
  names a staked validator, carries the Merkle root of its transactions, and holds at most 10000
  transactions with pairwise different ids, each of which was valid when it was accepted. So
  \<^verbatim>\<open>is_chain_valid\<close> always returns true.\<close>
theorem reachable_chain_well_formed:
  assumes "reach (\<lambda>s. \<exists>now. fst s = new_blockchain now) (chain_step ossl) s"
  shows "chain_ok ossl (chain (fst s)) \<and> is_chain_valid ossl (fst s)"
  using chain_system.reach_inv [OF assms] chain_ok_links by (auto simp: is_chain_valid_def)

text \<open>Adding a block appends exactly that block or changes nothing, and replacing the chain
  installs exactly the candidate, which is strictly longer, or changes nothing.\<close>
theorem chain_updates:
  "(case add_block ossl now block (bc, env) of (r, bc', _) \<Rightarrow>
      if r then \<exists>b. block = Some b \<and> chain bc' = chain bc @ [b] else bc' = bc) \<and>
   (case replace_chain_if_longer ossl now candidate (bc, env) of (r, bc', _) \<Rightarrow>
      if r then map Some (chain bc') = candidate \<and> length (chain bc) < length (chain bc') else bc' = bc)"
proof -
  obtain r bc' env' where a: "add_block ossl now block (bc, env) = (r, bc', env')"
    using prod_cases3 by blast
  obtain r2 bc2 env2 where p: "replace_chain_if_longer ossl now candidate (bc, env) = (r2, bc2, env2)"
    using prod_cases3 by blast
  show ?thesis unfolding a p using add_block_result [OF a] replace_chain_result [OF p]
    by (auto split: if_splits)
qed

text \<open>The byte strings hashed for the blocks of a chain.\<close>

definition chain_inputs :: "mermai_block list \<Rightarrow> bytes set" where
  "chain_inputs xs = (\<lambda>b. bytes_of_chars (serialize_block b)) ` set xs"

lemma block_hash_inject:
  assumes "block_ok a" "block_ok b" "block_hash_hex ossl a = block_hash_hex ossl b"
    and "a \<in> set xs" "b \<in> set ys" "chain_inputs xs \<union> chain_inputs ys \<subseteq> S"
  shows "a = b \<or> sha_clash ossl S"
proof -
  have "bytes_of_chars (serialize_block a) \<in> S" "bytes_of_chars (serialize_block b) \<in> S"
    using assms(4-6) by (auto simp: chain_inputs_def)
  moreover have "SHA256 ossl (bytes_of_chars (serialize_block a)) = SHA256 ossl (bytes_of_chars (serialize_block b))"
    using assms(3) by (simp add: block_hash_hex_def calculate_hash_def)
  ultimately have "serialize_block a = serialize_block b \<or> sha_clash ossl S"
    using sha_clashI bytes_of_chars_inject by metis
  with assms(1,2) deserialize_block_iff show ?thesis by (metis Inr_inject)
qed

lemma same_tip_same_chain:
  assumes "chain_ok ossl xs" "chain_ok ossl ys" "length xs = length ys"
    and "list_all block_ok xs" "list_all block_ok ys" "last xs = last ys"
    and "chain_inputs xs \<union> chain_inputs ys \<subseteq> S" "\<not> sha_clash ossl S"
  shows "xs = ys"
  using assms
proof (induction xs arbitrary: ys rule: rev_induct)
  case (snoc x xs)
  then obtain y ys' where ys: "ys = ys' @ [y]" by (cases ys rule: rev_cases) auto
  show ?case
  proof (cases "xs = []")
    case True
    with snoc.prems ys show ?thesis by simp
  next
    case False
    with snoc.prems(3) ys have ne: "ys' \<noteq> []" by auto
    with False snoc.prems ys have ok: "chain_ok ossl xs" "chain_ok ossl ys'" "x = y" "length xs = length ys'"
      "list_all block_ok xs" "list_all block_ok ys'" "chain_inputs xs \<union> chain_inputs ys' \<subseteq> S"
      and h: "block_hash_hex ossl (last xs) = block_hash_hex ossl (last ys')"
      by (auto simp: chain_ok_snoc extends_def chain_inputs_def)
    have "last xs \<in> set xs" "last ys' \<in> set ys'" using ne False by auto
    moreover from this have "block_ok (last xs)" "block_ok (last ys')" using ok(5,6) by (auto simp: list_all_iff)
    ultimately have "last xs = last ys'" using block_hash_inject [OF _ _ h _ _ ok(7)] snoc.prems(8) by blast
    with snoc.IH [OF ok(1,2,4,5,6) _ ok(7) snoc.prems(8)] ok(3) show ?thesis by (simp add: ys)
  qed
qed (simp add: chain_ok_def)

text \<open>C11: The hash of the tip commits to the whole history: two well-formed chains of blocks within
  the wire limits whose last blocks have the same hash are the same chain, or the serialized forms of
  two of their blocks are a SHA-256 collision.\<close>
theorem tip_hash_commits_history:
  assumes "chain_ok ossl xs" "chain_ok ossl ys"
    and "list_all block_ok xs" "list_all block_ok ys" "length xs < 2 ^ 32" "length ys < 2 ^ 32"
    and "block_hash_hex ossl (last xs) = block_hash_hex ossl (last ys)"
  shows "xs = ys \<or> sha_clash ossl (chain_inputs xs \<union> chain_inputs ys)"
proof (cases "sha_clash ossl (chain_inputs xs \<union> chain_inputs ys)")
  case False
  have ne: "xs \<noteq> []" "ys \<noteq> []" using assms(1,2) by (auto simp: chain_ok_def)
  then have mem: "last xs \<in> set xs" "last ys \<in> set ys" by auto
  then have "block_ok (last xs)" "block_ok (last ys)" using assms(3,4) by (auto simp: list_all_iff)
  from block_hash_inject [OF this assms(7) mem order_refl] False have tip: "last xs = last ys" by simp
  have "height (last xs) = of_nat (length xs - 1)" "height (last ys) = of_nat (length ys - 1)"
    using assms(1,2) ne by (auto simp: chain_ok_def last_conv_nth)
  moreover have "unat (of_nat n :: u32) = n" if "n < 2 ^ 32" for n using that by (rule unat_of_nat_u32)
  ultimately have "length xs - 1 = length ys - 1" using tip assms(5,6) by (metis less_imp_diff_less)
  with ne have "length xs = length ys" by (cases xs; cases ys) auto
  with same_tip_same_chain [OF assms(1,2) _ assms(3,4) tip order_refl False] show ?thesis by blast
qed simp

section \<open>Examples\<close>

definition child_block :: "u32 \<Rightarrow> mermai_block \<Rightarrow> mermai_block" where
  "child_block h prev = (new_block 1640000000 h)\<lparr>prev_block_hash := block_hash_hex toy_ossl prev,
     validator_address := ''v'', validator_stake := 1\<rparr>"

definition no_engine :: chain_env where
  "no_engine = \<lparr>consensus_engine = None, seen_props = []\<rparr>"

definition demo_chain :: mermai_blockchain where
  "demo_chain = fst (snd (add_block toy_ossl 1640000000 (Some (child_block 1 (genesis_block 0)))
     (new_blockchain 0, no_engine)))"

lemma toy_hash_nonempty [simp]: "block_hash_hex toy_ossl b \<noteq> []"
proof -
  have "length (block_hash_hex toy_ossl b) = 64"
    using toy_sha_length by (simp add: block_hash_hex_def calculate_hash_def sha_length_def)
  then show ?thesis by auto
qed

lemma child_block_simps [simp]:
  "height (child_block h p) = h" "prev_block_hash (child_block h p) = block_hash_hex toy_ossl p"
  "blk_timestamp (child_block h p) = 1640000000" "verify_time_weight_pos (child_block h p)"
  "transactions (child_block h p) = []" "merkle_root (child_block h p) = []"
  by (simp_all add: child_block_def new_block_def verify_time_weight_pos_def)

lemma demo_add_block:
  "add_block toy_ossl 1640000000 (Some (child_block 1 (genesis_block 0))) (new_blockchain 0, no_engine) =
     (True, (new_blockchain 0)\<lparr>chain := [genesis_block 0, child_block 1 (genesis_block 0)]\<rparr>, no_engine)"
proof -
  have "blk_timestamp (genesis_block 0) = 1640000000" by (simp add: genesis_block_def)
  then show ?thesis
    by (simp add: add_block_def can_add_block_def consult_validator_def no_engine_def new_blockchain_def
        check_merkle_root_def Let_def)
qed

lemma demo_chain_eq: "chain demo_chain = [genesis_block 0, child_block 1 (genesis_block 0)]"
  by (simp add: demo_chain_def demo_add_block)

lemma demo_chain_reach:
  "reach (\<lambda>s. \<exists>now. fst s = new_blockchain now) (chain_step toy_ossl) (demo_chain, no_engine)"
proof -
  have "reach (\<lambda>s. \<exists>now. fst s = new_blockchain now) (chain_step toy_ossl) (new_blockchain 0, no_engine)"
    by (rule reach_start) auto
  from reach_step [OF this chain_add] show ?thesis
    using demo_add_block by (metis demo_chain_def fst_conv snd_conv)
qed

lemma reachable_chain_well_formed_witness:
  "length (chain demo_chain) = 2 \<and> is_chain_valid toy_ossl demo_chain"
  using reachable_chain_well_formed [OF demo_chain_reach] by (simp add: demo_chain_eq)

lemma demo_blocks_ok: "list_all block_ok (chain demo_chain)"
  using toy_sha_length
  by (simp add: demo_chain_eq genesis_block_def child_block_def new_block_def block_ok_def string_ok_def
      bytes_ok_def serial_limits block_hash_hex_def calculate_hash_def sha_length_def zero_hash_def)

lemma tip_hash_commits_history_witness:
  "chain demo_chain = [genesis_block 0, child_block 1 (genesis_block 0)] \<or>
   sha_clash toy_ossl (chain_inputs (chain demo_chain))"
proof -
  have ok: "chain_ok toy_ossl (chain demo_chain)" using chain_system.reach_inv [OF demo_chain_reach] by simp
  from tip_hash_commits_history [OF ok ok demo_blocks_ok demo_blocks_ok]
  show ?thesis by (simp add: demo_chain_eq)
qed

text \<open>Replacement looks at length only: a node that holds a chain with an accepted block gives up
  its whole history, the genesis block included, for a longer chain built from another genesis
  block; nothing anchors the chain to the genesis block or to finalized blocks.\<close>
theorem whole_history_replaceable:
  defines "other \<equiv> (genesis_block 0)\<lparr>blk_timestamp := 5\<rparr>"
  defines "candidate \<equiv> [other, child_block 1 other, child_block 2 (child_block 1 other)]"
  shows "(case replace_chain_if_longer toy_ossl 1640000000 (map Some candidate) (demo_chain, no_engine) of
      (r, bc, _) \<Rightarrow> r \<and> chain bc = candidate \<and> chain bc ! 0 \<noteq> chain demo_chain ! 0) \<and>
    reach (\<lambda>s. \<exists>now. fst s = new_blockchain now) (chain_step toy_ossl) (demo_chain, no_engine)"
proof -
  have other: "height other = 0" "prev_block_hash other = zero_hash" "transactions other = []"
    "merkle_root other = []" "blk_timestamp other = 5" "other \<noteq> genesis_block 0"
    by (simp_all add: other_def genesis_block_def new_block_def)
  have "validate_chain toy_ossl 1640000000 [] (map Some candidate) no_engine = (Some candidate, no_engine)"
    by (simp add: candidate_def other check_merkle_root_def consult_validator_def no_engine_def Let_def)
  then show ?thesis using demo_chain_reach other(6)
    by (simp add: replace_chain_if_longer_def demo_chain_eq candidate_def)
qed

end
