(* ===== verification/Mermai_P2P.thy ===== *)
theory Mermai_P2P
  imports Mermai_Blockchain
begin

text \<open>
  The wire protocol of the peer-to-peer layer (first half of
  \<^verbatim>\<open>src/src/network/mermai_network.cpp\<close>): framed messages, the payload that carries a whole
  chain, and a peer with its socket. A socket is what the code can observe of it: the bytes that
  will still arrive before the connection ends, the bytes it took, and how many bytes each coming
  call of \<^verbatim>\<open>recv\<close> or \<^verbatim>\<open>send\<close> moves at most (0 for a call that fails; no entry left: as
  many as asked for). A \<^verbatim>\<open>P2PMessage\<close> that the code leaves uninitialised holds whatever was in
  memory: that content is the argument \<open>junk\<close>.
\<close>

section \<open>Messages\<close>

definition MAX_P2P_MESSAGE_SIZE :: nat where "MAX_P2P_MESSAGE_SIZE = 4 * 1024 * 1024"
definition MAX_CHAIN_BLOCKS_PER_MESSAGE :: nat where "MAX_CHAIN_BLOCKS_PER_MESSAGE = 4096"
definition MAX_SERIALIZED_BLOCK_SIZE :: nat where "MAX_SERIALIZED_BLOCK_SIZE = 1 * 1024 * 1024"

lemmas p2p_limits = MAX_P2P_MESSAGE_SIZE_def MAX_CHAIN_BLOCKS_PER_MESSAGE_def MAX_SERIALIZED_BLOCK_SIZE_def

text \<open>The enumeration; a byte outside it keeps its value.\<close>

datatype mermai_message_type =
    HELLO | PEER_LIST | GET_BLOCKS | BLOCKS | GET_BLOCK | BLOCK | MEMPOOL_SYNC | NEW_TRANSACTION
  | TRANSACTION | BLOCK_PROPOSAL | BLOCK_VOTE | PING | PONG | OTHER byte

fun message_byte :: "mermai_message_type \<Rightarrow> byte" where
  "message_byte HELLO = 0x00" | "message_byte PEER_LIST = 0x01" | "message_byte GET_BLOCKS = 0x10"
| "message_byte BLOCKS = 0x11" | "message_byte GET_BLOCK = 0x12" | "message_byte BLOCK = 0x13"
| "message_byte MEMPOOL_SYNC = 0x20" | "message_byte NEW_TRANSACTION = 0x21" | "message_byte TRANSACTION = 0x23"
| "message_byte BLOCK_PROPOSAL = 0x30" | "message_byte BLOCK_VOTE = 0x31" | "message_byte PING = 0xF0"
| "message_byte PONG = 0xF1" | "message_byte (OTHER b) = b"

definition named_messages :: "mermai_message_type list" where
  "named_messages = [HELLO, PEER_LIST, GET_BLOCKS, BLOCKS, GET_BLOCK, BLOCK, MEMPOOL_SYNC, NEW_TRANSACTION,
     TRANSACTION, BLOCK_PROPOSAL, BLOCK_VOTE, PING, PONG]"

definition message_of_byte :: "byte \<Rightarrow> mermai_message_type" where
  "message_of_byte b = (case find (\<lambda>m. message_byte m = b) named_messages of Some m \<Rightarrow> m | None \<Rightarrow> OTHER b)"

record P2PMessage =
  msg_type :: mermai_message_type
  payload_size :: u32
  payload :: bytes

definition new_message :: "mermai_message_type \<Rightarrow> u32 \<Rightarrow> bytes \<Rightarrow> P2PMessage" where
  "new_message t junk_size p = \<lparr>msg_type = t, payload_size = junk_size, payload = p\<rparr>"

text \<open>A declared but uninitialised message, and a value-initialised one.\<close>

definition junk_message :: "byte \<times> u32 \<Rightarrow> P2PMessage" where
  "junk_message junk = new_message (message_of_byte (fst junk)) (snd junk) []"

definition zero_message :: P2PMessage where
  "zero_message = new_message HELLO 0 []"

definition append_u32 :: "u32 \<Rightarrow> bytes" where
  "append_u32 v = [ucast (drop_bit 24 v), ucast (drop_bit 16 v), ucast (drop_bit 8 v), ucast v]"

definition append_string :: "string \<Rightarrow> bytes" where
  "append_string s = append_u32 (of_nat (length s)) @ bytes_of_chars s"

definition u32_at :: "bytes \<Rightarrow> nat \<Rightarrow> u32" where
  "u32_at d off = push_bit 24 (ucast (d ! off)) OR push_bit 16 (ucast (d ! (off + 1))) OR
     push_bit 8 (ucast (d ! (off + 2))) OR ucast (d ! (off + 3))"

definition message_serialize :: "P2PMessage \<Rightarrow> bytes" where
  "message_serialize m =
     (if length (payload m) > MAX_P2P_MESSAGE_SIZE then []
      else message_byte (msg_type m) # append_u32 (of_nat (length (payload m))) @ payload m)"

text \<open>
  The comparison \<^verbatim>\<open>data.size() >= 5 + msg.payload_size\<close> adds in 32 bits. \<open>None\<close> is a copy
  from beyond the end of the data, which is undefined behaviour.
\<close>

definition message_deserialize :: "byte \<times> u32 \<Rightarrow> bytes \<Rightarrow> P2PMessage option" where
  "message_deserialize junk d =
     (if length d < 5 then Some (junk_message junk)
      else let size = u32_at d 1; m = new_message (message_of_byte (d ! 0)) size []
        in if length d \<ge> unat (5 + size)
           then (if 5 + unat size \<le> length d then Some (m\<lparr>payload := take (unat size) (drop 5 d)\<rparr>) else None)
           else Some m)"

section \<open>Chains in a message\<close>

definition encode_chain_payload :: "mermai_block option list \<Rightarrow> bytes" where
  "encode_chain_payload blocks =
     append_u32 (of_nat (length blocks)) @
     concat (map (\<lambda>block. case block of
         None \<Rightarrow> []
       | Some b \<Rightarrow> append_u32 (of_nat (length (serialize_block b))) @ bytes_of_chars (serialize_block b)) blocks)"

fun decode_blocks :: "nat \<Rightarrow> bytes \<Rightarrow> nat \<Rightarrow> (mermai_block list \<times> nat) option" where
  "decode_blocks 0 d off = Some ([], off)"
| "decode_blocks (Suc n) d off =
     (if off + 4 > length d then None
      else let block_size = unat (u32_at d off); off = off + 4
        in if block_size = 0 \<or> block_size > MAX_SERIALIZED_BLOCK_SIZE \<or> off + block_size > length d then None
           else case deserialize_block (chars_of_bytes (take block_size (drop off d))) of
                  Inl _ \<Rightarrow> None
                | Inr b \<Rightarrow> (case decode_blocks n d (off + block_size) of
                              None \<Rightarrow> None | Some (bs, off) \<Rightarrow> Some (b # bs, off)))"

definition decode_chain_payload :: "bytes \<Rightarrow> mermai_block list" where
  "decode_chain_payload d =
     (if length d < 4 then []
      else let block_count = unat (u32_at d 0)
        in if block_count = 0 \<or> block_count > MAX_CHAIN_BLOCKS_PER_MESSAGE then []
           else case decode_blocks block_count d 4 of
                  None \<Rightarrow> []
                | Some (blocks, off) \<Rightarrow> if off = length d then blocks else [])"

section \<open>Sockets and peers\<close>

record socket =
  arriving :: bytes
  recv_sizes :: "nat list"
  sent :: bytes
  send_sizes :: "nat list"

function send_all :: "bytes \<Rightarrow> socket \<Rightarrow> bool \<times> socket" where
  "send_all d s =
     (if d = [] then (True, s)
      else case send_sizes s of
             [] \<Rightarrow> (True, s\<lparr>sent := sent s @ d\<rparr>)
           | n # ns \<Rightarrow> if n = 0 then (False, s\<lparr>send_sizes := ns\<rparr>)
               else send_all (drop n d) (s\<lparr>send_sizes := ns, sent := sent s @ take n d\<rparr>))"
  by pat_completeness auto
termination by (relation "measure (length \<circ> fst)") auto

function receive_all :: "nat \<Rightarrow> socket \<Rightarrow> bytes option \<times> socket" where
  "receive_all want s =
     (if want = 0 then (Some [], s)
      else let limit = (case recv_sizes s of [] \<Rightarrow> want | n # _ \<Rightarrow> min n want);
               got = take limit (arriving s);
               s1 = s\<lparr>arriving := drop limit (arriving s), recv_sizes := tl (recv_sizes s)\<rparr>
        in if got = [] then (None, s1)
           else case receive_all (want - length got) s1 of
                  (None, s2) \<Rightarrow> (None, s2)
                | (Some rest, s2) \<Rightarrow> (Some (got @ rest), s2))"
  by pat_completeness auto
termination by (relation "measure fst") (auto simp: Let_def)

declare send_all.simps [simp del] receive_all.simps [simp del]

record mermai_peer =
  peer_id :: string
  peer_address :: string
  peer_port :: u16
  last_seen :: u64
  reputation :: u32
  peer_socket :: "socket option"

definition new_peer :: "u64 \<Rightarrow> string \<Rightarrow> string \<Rightarrow> u16 \<Rightarrow> socket option \<Rightarrow> mermai_peer" where
  "new_peer now pid addr p s =
     \<lparr>peer_id = pid, peer_address = addr, peer_port = p, last_seen = now, reputation = 100, peer_socket = s\<rparr>"

definition send_message :: "P2PMessage \<Rightarrow> mermai_peer \<Rightarrow> mermai_peer" where
  "send_message m p =
     (case peer_socket p of
        None \<Rightarrow> p
      | Some s \<Rightarrow> p\<lparr>peer_socket := Some (snd (send_all (message_serialize m) s))\<rparr>)"

text \<open>\<open>None\<close> for the message would be the undefined behaviour of \<open>message_deserialize\<close>.\<close>

definition receive_message :: "byte \<times> u32 \<Rightarrow> u64 \<Rightarrow> mermai_peer \<Rightarrow> P2PMessage option \<times> mermai_peer" where
  "receive_message junk now p =
     (case peer_socket p of
        None \<Rightarrow> (Some (junk_message junk), p)
      | Some s \<Rightarrow>
          (case receive_all 5 s of
             (None, s1) \<Rightarrow> (Some (junk_message junk), p\<lparr>peer_socket := Some s1\<rparr>)
           | (Some header, s1) \<Rightarrow>
               let size = u32_at header 1
               in if unat size > MAX_P2P_MESSAGE_SIZE then (Some (junk_message junk), p\<lparr>peer_socket := Some s1\<rparr>)
                  else case receive_all (unat size) s1 of
                         (None, s2) \<Rightarrow> (Some zero_message, p\<lparr>peer_socket := Some s2\<rparr>)
                       | (Some body, s2) \<Rightarrow>
                           (message_deserialize junk (header @ body), p\<lparr>peer_socket := Some s2, last_seen := now\<rparr>)))"

definition disconnect :: "mermai_peer \<Rightarrow> mermai_peer" where
  "disconnect p = p\<lparr>peer_socket := None\<rparr>"

definition increase_reputation :: "int \<Rightarrow> mermai_peer \<Rightarrow> mermai_peer" where
  "increase_reputation points p = p\<lparr>reputation := word_of_int (min 100 (sint (reputation p) + points))\<rparr>"

definition decrease_reputation :: "int \<Rightarrow> mermai_peer \<Rightarrow> mermai_peer" where
  "decrease_reputation points p = p\<lparr>reputation := word_of_int (max 0 (sint (reputation p) - points))\<rparr>"

definition is_trusted :: "mermai_peer \<Rightarrow> bool" where
  "is_trusted p \<longleftrightarrow> reputation p > 50"

definition peer_is_banned :: "mermai_peer \<Rightarrow> bool" where
  "peer_is_banned p \<longleftrightarrow> reputation p = 0"

section \<open>Integers in a frame\<close>

lemma length_append_u32 [simp]: "length (append_u32 v) = 4"
  by (simp add: append_u32_def)

lemma u32_of_bytes:
  "push_bit 24 (ucast (ucast (drop_bit 24 v) :: byte)) OR push_bit 16 (ucast (ucast (drop_bit 16 v) :: byte)) OR
     push_bit 8 (ucast (ucast (drop_bit 8 v) :: byte)) OR ucast (ucast v :: byte) = (v :: u32)"
proof (rule bit_word_eqI)
  fix j assume "j < LENGTH(32)"
  then have "j < 8 \<or> 8 \<le> j \<and> j < 16 \<or> 16 \<le> j \<and> j < 24 \<or> 24 \<le> j \<and> j < 32" by auto
  then show "bit (push_bit 24 (ucast (ucast (drop_bit 24 v) :: byte)) OR push_bit 16 (ucast (ucast (drop_bit 16 v) :: byte)) OR
     push_bit 8 (ucast (ucast (drop_bit 8 v) :: byte)) OR ucast (ucast v :: byte) :: u32) j = bit v j"
    by (auto simp: bit_simps)
qed

lemma u32_at_append [simp]: "off = length pre \<Longrightarrow> u32_at (pre @ append_u32 v @ rest) off = v"
  using u32_of_bytes [of v] by (simp add: u32_at_def append_u32_def nth_append nth_Cons')

lemma u32_at_frame [simp]: "u32_at (b # append_u32 v @ rest) (Suc 0) = v"
  using u32_at_append [of 1 "[b]" v rest] by simp

lemma drop_frame [simp]: "drop 5 (b # append_u32 v @ rest) = rest"
  by (simp add: append_u32_def)

lemma u32_at_take: "off + 4 \<le> n \<Longrightarrow> u32_at (take n d) off = u32_at d off"
  by (simp add: u32_at_def)

section \<open>Messages over a socket\<close>

definition message_ok :: "P2PMessage \<Rightarrow> bool" where
  "message_ok m \<longleftrightarrow> length (payload m) \<le> MAX_P2P_MESSAGE_SIZE \<and> message_of_byte (message_byte (msg_type m)) = msg_type m"

lemma message_byte_of_byte [simp]: "message_byte (message_of_byte b) = b"
  by (auto simp: message_of_byte_def split: option.splits dest!: find_Some_iff [THEN iffD1])

lemma message_of_named: "t \<in> set named_messages \<Longrightarrow> message_of_byte (message_byte t) = t"
  by (auto simp: message_of_byte_def named_messages_def)

lemma length_message_serialize:
  "length (payload m) \<le> MAX_P2P_MESSAGE_SIZE \<Longrightarrow> length (message_serialize m) = 5 + length (payload m)"
  by (simp add: message_serialize_def)

lemma unat_small_u32: "n \<le> MAX_P2P_MESSAGE_SIZE \<Longrightarrow> unat (of_nat n :: u32) = n"
  by (simp add: p2p_limits unat_of_nat take_bit_nat_eq_self)

lemma message_deserialize_exact:
  assumes "length d = 5 + unat (u32_at d 1)" "unat (u32_at d 1) \<le> MAX_P2P_MESSAGE_SIZE"
  shows "message_deserialize junk d = Some (new_message (message_of_byte (d ! 0)) (u32_at d 1) (drop 5 d))"
proof -
  have "unat (5 + u32_at d 1) = 5 + unat (u32_at d 1)"
    using assms(2) by (subst unat_add_lem [THEN iffD1]) (auto simp: p2p_limits)
  with assms(1) show ?thesis by (simp add: message_deserialize_def new_message_def Let_def)
qed

lemma message_round_trip:
  assumes "message_ok m"
  shows "message_deserialize junk (message_serialize m) = Some (m\<lparr>payload_size := of_nat (length (payload m))\<rparr>)"
proof -
  have n: "unat (of_nat (length (payload m)) :: u32) = length (payload m)"
    using assms by (intro unat_small_u32) (simp add: message_ok_def)
  have "message_deserialize junk (message_serialize m) =
      Some (new_message (msg_type m) (of_nat (length (payload m))) (payload m))"
    using assms message_deserialize_exact [of "message_serialize m" junk]
    by (simp add: message_ok_def message_serialize_def n)
  then show ?thesis by (cases m) (simp add: new_message_def)
qed

text \<open>However TCP cuts the stream, as long as no call fails, exactly the requested bytes are read.\<close>

lemma receive_all_stream:
  assumes "n \<le> length (arriving s)" "0 \<notin> set (recv_sizes s)"
  shows "\<exists>ns. receive_all n s = (Some (take n (arriving s)), s\<lparr>arriving := drop n (arriving s), recv_sizes := ns\<rparr>) \<and>
    set ns \<subseteq> set (recv_sizes s)"
  using assms
proof (induction n s rule: receive_all.induct)
  case (1 n s)
  show ?case
  proof (cases "n = 0")
    case True
    then show ?thesis by (intro exI [of _ "recv_sizes s"]) (simp add: receive_all.simps)
  next
    case False
    define limit where "limit = (case recv_sizes s of [] \<Rightarrow> n | k # _ \<Rightarrow> min k n)"
    define s1 where "s1 = s\<lparr>arriving := drop limit (arriving s), recv_sizes := tl (recv_sizes s)\<rparr>"
    have l: "0 < limit" "limit \<le> n"
      using False "1.prems"(2) by (auto simp: limit_def split: list.splits)
    then have got: "length (take limit (arriving s)) = limit" using "1.prems"(1) by simp
    then have ne: "take limit (arriving s) \<noteq> []" using l(1) by auto
    have sub: "set (recv_sizes s1) \<subseteq> set (recv_sizes s)" by (cases "recv_sizes s") (auto simp: s1_def)
    then have pos: "0 \<notin> set (recv_sizes s1)" using "1.prems"(2) by blast
    have room: "n - limit \<le> length (arriving s1)" using "1.prems"(1) by (simp add: s1_def)
    have "\<exists>ns. receive_all (n - limit) s1 = (Some (take (n - limit) (arriving s1)),
        s1\<lparr>arriving := drop (n - limit) (arriving s1), recv_sizes := ns\<rparr>) \<and> set ns \<subseteq> set (recv_sizes s1)"
      using "1.IH" [OF False limit_def refl s1_def ne] pos room unfolding got by blast
    then obtain ns where r: "receive_all (n - limit) s1 = (Some (take (n - limit) (arriving s1)),
        s1\<lparr>arriving := drop (n - limit) (arriving s1), recv_sizes := ns\<rparr>)" and ns: "set ns \<subseteq> set (recv_sizes s1)" by blast
    have "receive_all n s = (Some (take limit (arriving s) @ take (n - limit) (arriving s1)),
        s1\<lparr>arriving := drop (n - limit) (arriving s1), recv_sizes := ns\<rparr>)"
      using False ne r got by (subst receive_all.simps) (simp add: limit_def [symmetric] s1_def [symmetric] Let_def)
    moreover have "take limit (arriving s) @ take (n - limit) (arriving s1) = take n (arriving s)"
      using l(2) by (simp add: s1_def flip: take_add)
    moreover have "drop (n - limit) (arriving s1) = drop n (arriving s)" using l(2) by (simp add: s1_def)
    ultimately show ?thesis using ns sub by (intro exI [of _ ns]) (auto simp: s1_def)
  qed
qed

lemma receive_all_length: "receive_all n s = (Some d, s') \<Longrightarrow> length d = n"
proof (induction n s arbitrary: d s' rule: receive_all.induct)
  case (1 n s)
  show ?case
  proof (cases "n = 0")
    case True
    with "1.prems" show ?thesis by (simp add: receive_all.simps)
  next
    case False
    define limit where "limit = (case recv_sizes s of [] \<Rightarrow> n | k # _ \<Rightarrow> min k n)"
    define s1 where "s1 = s\<lparr>arriving := drop limit (arriving s), recv_sizes := tl (recv_sizes s)\<rparr>"
    from "1.prems" False obtain rest where ne: "take limit (arriving s) \<noteq> []"
      and d: "d = take limit (arriving s) @ rest"
      and r: "receive_all (n - length (take limit (arriving s))) s1 = (Some rest, s')"
      by (subst (asm) receive_all.simps)
        (auto simp: limit_def [symmetric] s1_def [symmetric] Let_def split: if_splits prod.splits option.splits)
    have "limit \<le> n" by (auto simp: limit_def split: list.splits)
    with "1.IH" [OF False limit_def refl s1_def ne r] d show ?thesis by simp
  qed
qed

lemma message_received_frame:
  assumes "peer_socket p = Some s" "arriving s = message_serialize m @ rest" "0 \<notin> set (recv_sizes s)" "message_ok m"
  shows "\<exists>p' s'. receive_message junk now p = (Some (m\<lparr>payload_size := of_nat (length (payload m))\<rparr>), p') \<and>
    peer_socket p' = Some s' \<and> arriving s' = rest \<and> 0 \<notin> set (recv_sizes s') \<and> last_seen p' = now"
proof -
  let ?n = "length (payload m)" and ?d = "message_serialize m"
  from assms(4) have le: "?n \<le> MAX_P2P_MESSAGE_SIZE" by (simp add: message_ok_def)
  note len = length_message_serialize [OF le] and un = unat_small_u32 [OF le]
  have size: "u32_at (take 5 ?d) 1 = of_nat ?n"
    using le by (subst u32_at_take) (simp_all add: message_serialize_def)
  have a5: "take 5 (arriving s) = take 5 ?d" using len by (simp add: assms(2))
  obtain ns1 where r1: "receive_all 5 s = (Some (take 5 ?d), s\<lparr>arriving := drop 5 (arriving s), recv_sizes := ns1\<rparr>)"
    and n1: "set ns1 \<subseteq> set (recv_sizes s)"
    using receive_all_stream [of 5 s] len assms(2,3) a5 by auto
  let ?s1 = "s\<lparr>arriving := drop 5 (arriving s), recv_sizes := ns1\<rparr>"
  have d5: "drop 5 (arriving s) = drop 5 ?d @ rest" using len by (simp add: assms(2))
  have room: "?n \<le> length (arriving ?s1)" using len by (simp add: d5)
  have pos: "0 \<notin> set (recv_sizes ?s1)" using n1 assms(3) by auto
  obtain ns2 where r2: "receive_all ?n ?s1 = (Some (take ?n (arriving ?s1)),
      ?s1\<lparr>arriving := drop ?n (arriving ?s1), recv_sizes := ns2\<rparr>)" and n2: "set ns2 \<subseteq> set ns1"
    using receive_all_stream [OF room pos] by auto
  have body: "take ?n (arriving ?s1) = drop 5 ?d" and left: "drop ?n (arriving ?s1) = rest"
    using len by (simp_all add: d5)
  have "receive_message junk now p = (Some (m\<lparr>payload_size := of_nat ?n\<rparr>),
      p\<lparr>peer_socket := Some (?s1\<lparr>arriving := rest, recv_sizes := ns2\<rparr>), last_seen := now\<rparr>)"
    using r2 [unfolded body left] le message_round_trip [OF assms(4), of junk]
    by (simp add: receive_message_def assms(1) r1 size [simplified] un Let_def)
  then show ?thesis using n1 n2 assms(3) by auto
qed

text \<open>C23: Framing. Whatever sizes TCP delivers the bytes in, a message that the sender serialised is
  received as the same message (with its payload size filled in), and the bytes that follow it
  stay in the stream for the next call.
\<close>

theorem message_received:
  assumes "peer_socket p = Some s" "arriving s = message_serialize m @ rest" "0 \<notin> set (recv_sizes s)" "message_ok m"
  shows "\<exists>p' s'. receive_message junk now p = (Some (m\<lparr>payload_size := of_nat (length (payload m))\<rparr>), p') \<and>
    peer_socket p' = Some s' \<and> arriving s' = rest \<and> 0 \<notin> set (recv_sizes s') \<and> last_seen p' = now"
  by (rule message_received_frame [OF assms])

text \<open>C24: Receiving never reads beyond the buffer, whatever a peer sends: the 32-bit addition in
  \<^verbatim>\<open>P2PMessage::deserialize\<close> cannot wrap for the sizes \<^verbatim>\<open>receive_message\<close> lets through, and
  the payload handed on is never longer than the limit.
\<close>

theorem receive_message_safe:
  "\<exists>m. fst (receive_message junk now p) = Some m \<and> length (payload m) \<le> MAX_P2P_MESSAGE_SIZE"
proof (cases "peer_socket p")
  case None
  then show ?thesis by (simp add: receive_message_def junk_message_def new_message_def)
next
  case (Some s)
  show ?thesis
  proof (cases "receive_all 5 s")
    case (Pair h s1)
    show ?thesis
    proof (cases h)
      case None
      with Some Pair show ?thesis by (simp add: receive_message_def junk_message_def new_message_def)
    next
      case (Some header)
      note h = receive_all_length [OF Pair [unfolded Some]]
      let ?n = "unat (u32_at header 1)"
      have "\<exists>m. message_deserialize junk (header @ body) = Some m \<and> length (payload m) \<le> MAX_P2P_MESSAGE_SIZE"
        if "receive_all ?n s1 = (Some body, s2)" "?n \<le> MAX_P2P_MESSAGE_SIZE" for body s2
      proof -
        have "u32_at (header @ body) 1 = u32_at header 1" using h by (simp add: u32_at_def nth_append)
        with message_deserialize_exact [of "header @ body" junk] receive_all_length [OF that(1)] h that(2)
        show ?thesis by (simp add: new_message_def)
      qed
      with Pair Some \<open>peer_socket p = Some s\<close> show ?thesis
        by (auto simp: receive_message_def junk_message_def zero_message_def new_message_def Let_def
            split: option.splits prod.splits)
    qed
  qed
qed

text \<open>Without that check the decoder copies from beyond its input.\<close>

lemma message_deserialize_overruns: "message_deserialize junk [0x21, 0xFF, 0xFF, 0xFF, 0xFF] = None"
proof -
  have "u32_at [0x21, 0xFF, 0xFF, 0xFF, 0xFF] 1 = 0xFFFFFFFF" by (simp add: u32_at_def push_bit_eq_mult)
  then show ?thesis by (simp add: message_deserialize_def Let_def)
qed

section \<open>Chains over the wire\<close>

definition syncable :: "mermai_block \<Rightarrow> bool" where
  "syncable b \<longleftrightarrow> block_ok b \<and> length (serialize_block b) \<le> MAX_SERIALIZED_BLOCK_SIZE"

definition block_frame :: "mermai_block \<Rightarrow> bytes" where
  "block_frame b = append_u32 (of_nat (length (serialize_block b))) @ bytes_of_chars (serialize_block b)"

lemma serialized_not_Nil: "serialize_block b \<noteq> []"
  by (simp add: serialize_block_def write_value_def)

lemma u32_at_drop: "drop off d = append_u32 v @ rest \<Longrightarrow> off \<le> length d \<Longrightarrow> u32_at d off = v"
  using u32_at_append [of off "take off d" v rest] by (metis append_take_drop_id length_take min.absorb2)

lemma decode_blocks_encoded:
  assumes "drop off d = concat (map block_frame bs) @ rest" "off \<le> length d" "list_all syncable bs"
  shows "decode_blocks (length bs) d off = Some (bs, off + length (concat (map block_frame bs)))"
  using assms
proof (induction bs arbitrary: off)
  case (Cons b bs)
  let ?s = "serialize_block b" and ?rest = "concat (map block_frame bs) @ rest"
  let ?n = "length ?s"
  from Cons.prems(3) have b: "syncable b" and all: "list_all syncable bs" by simp_all
  then have ok: "block_ok b" and le: "?n \<le> MAX_SERIALIZED_BLOCK_SIZE" by (simp_all add: syncable_def)
  have n: "unat (of_nat ?n :: u32) = ?n" using le by (intro unat_small_u32) (simp add: p2p_limits)
  have d: "drop off d = append_u32 (of_nat ?n) @ bytes_of_chars ?s @ ?rest"
    using Cons.prems(1) by (simp add: block_frame_def [of b])
  from u32_at_drop [OF this Cons.prems(2)] have size: "unat (u32_at d off) = ?n" by (simp add: n)
  from arg_cong [OF d, of length] have len: "length d - off = 4 + ?n + length ?rest" by simp
  from arg_cong [OF d, of "drop 4"] have d4: "drop (off + 4) d = bytes_of_chars ?s @ ?rest"
    by (simp add: drop_drop add.commute)
  from arg_cong [OF d4, of "drop ?n"] have dn: "drop (off + 4 + ?n) d = ?rest"
    by (simp add: drop_drop add.commute)
  have room: "off + 4 + ?n \<le> length d" using len Cons.prems(2) by simp
  have dec: "deserialize_block (chars_of_bytes (take ?n (drop (off + 4) d))) = Inr b"
    using ok by (simp add: d4 deserialize_block_iff)
  show ?case
    using Cons.IH [OF dn room all] room le serialized_not_Nil [of b] dec
    by (simp add: size Let_def block_frame_def [of b])
qed simp

lemma encode_chain_Some:
  "encode_chain_payload (map Some bs) = append_u32 (of_nat (length bs)) @ concat (map block_frame bs)"
  by (simp add: encode_chain_payload_def block_frame_def [abs_def] comp_def)

text \<open>C25: A chain of at most 4096 blocks, each within the format and 1 MiB, is decoded from its encoding
  as the same chain.
\<close>

theorem chain_payload_round_trip:
  assumes "bs \<noteq> []" "length bs \<le> MAX_CHAIN_BLOCKS_PER_MESSAGE" "list_all syncable bs"
  shows "decode_chain_payload (encode_chain_payload (map Some bs)) = bs"
proof -
  let ?d = "append_u32 (of_nat (length bs)) @ concat (map block_frame bs)"
  have n: "unat (of_nat (length bs) :: u32) = length bs"
    using assms(2) by (intro unat_small_u32) (simp add: p2p_limits)
  have c: "u32_at ?d 0 = of_nat (length bs)" using u32_at_append [of 0 "[]"] by simp
  have "decode_blocks (length bs) ?d 4 = Some (bs, 4 + length (concat (map block_frame bs)))"
    using assms(3) by (intro decode_blocks_encoded [where rest = "[]"]) simp_all
  with assms(1,2) show ?thesis by (simp add: encode_chain_Some decode_chain_payload_def c n Let_def)
qed

text \<open>A longer chain is refused as a whole: nothing of it reaches the receiver.\<close>

lemma long_chain_refused:
  assumes "MAX_CHAIN_BLOCKS_PER_MESSAGE < length bs" "length bs < 2 ^ 32"
  shows "decode_chain_payload (encode_chain_payload (map Some bs)) = []"
proof -
  have n: "unat (of_nat (length bs) :: u32) = length bs"
    using assms(2) by (simp add: unat_of_nat take_bit_nat_eq_self)
  have "u32_at (append_u32 (of_nat (length bs)) @ concat (map block_frame bs)) 0 = of_nat (length bs)"
    using u32_at_append [of 0 "[]"] by simp
  with assms(1) show ?thesis by (simp add: encode_chain_Some decode_chain_payload_def n Let_def)
qed

section \<open>Sending and reputation\<close>

text \<open>A send is complete or it stopped after a prefix.\<close>

lemma send_all_prefix:
  "\<exists>k. sent (snd (send_all d s)) = sent s @ take k d \<and> (fst (send_all d s) \<longrightarrow> take k d = d) \<and>
     arriving (snd (send_all d s)) = arriving s \<and> recv_sizes (snd (send_all d s)) = recv_sizes s"
proof (induction d s rule: send_all.induct)
  case (1 d s)
  show ?case
  proof (cases "d = []")
    case True
    then show ?thesis by (simp add: send_all.simps)
  next
    case False
    show ?thesis
    proof (cases "send_sizes s")
      case Nil
      with False show ?thesis by (intro exI [of _ "length d"]) (simp add: send_all.simps)
    next
      case (Cons n ns)
      show ?thesis
      proof (cases "n = 0")
        case True
        with False Cons show ?thesis by (intro exI [of _ 0]) (simp add: send_all.simps)
      next
        case n: False
        from "1.IH" [OF False Cons n] obtain k where
          k: "sent (snd (send_all (drop n d) (s\<lparr>send_sizes := ns, sent := sent s @ take n d\<rparr>))) =
                (sent s @ take n d) @ take k (drop n d)"
            "fst (send_all (drop n d) (s\<lparr>send_sizes := ns, sent := sent s @ take n d\<rparr>)) \<longrightarrow> take k (drop n d) = drop n d"
            "arriving (snd (send_all (drop n d) (s\<lparr>send_sizes := ns, sent := sent s @ take n d\<rparr>))) = arriving s"
            "recv_sizes (snd (send_all (drop n d) (s\<lparr>send_sizes := ns, sent := sent s @ take n d\<rparr>))) = recv_sizes s"
          by auto
        have "take n d @ take k (drop n d) = take (n + k) d" by (simp add: take_add)
        moreover have "take (n + k) d = d" if "take k (drop n d) = drop n d"
          using that by (metis append_take_drop_id take_add)
        ultimately show ?thesis using k False Cons n
          by (intro exI [of _ "n + k"]) (auto simp: send_all.simps [of d s])
      qed
    qed
  qed
qed

lemma reputation_bounds:
  assumes "reputation p \<le> 100" "0 \<le> points" "points \<le> 1000000"
  shows "reputation (decrease_reputation points p) \<le> reputation p"
    and "reputation (increase_reputation points p) \<le> 100"
proof -
  let ?r = "uint (reputation p)"
  have r0: "0 \<le> ?r" by simp
  have r: "?r \<le> 100" using assms(1) by (simp add: word_le_def)
  have "- (2 ^ 31) \<le> ?r" by (rule order_trans [OF _ r0]) simp
  moreover have "?r < 2 ^ 31" using r by simp
  ultimately have si: "sint (reputation p) = ?r"
    using signed_take_bit_int_eq_self [of 31 ?r] by (simp add: sint_uint)
  have "uint (word_of_int (max 0 (?r - points)) :: u32) = max 0 (?r - points)"
    using r assms(2) by (simp add: uint_word_of_int_eq take_bit_int_eq_self)
  then show "reputation (decrease_reputation points p) \<le> reputation p"
    using assms(2) by (simp add: decrease_reputation_def si word_le_def)
  have "uint (word_of_int (min 100 (?r + points)) :: u32) = min 100 (?r + points)"
    using r assms(2) by (simp add: uint_word_of_int_eq take_bit_int_eq_self)
  then show "reputation (increase_reputation points p) \<le> 100"
    by (simp add: increase_reputation_def si word_le_def)
qed

theorem message_received_witness:
  "\<exists>p' s'. receive_message (9, 9) 5 (new_peer 0 ''p'' ''1.2.3.4'' 6333 (Some
      \<lparr>arriving = message_serialize (new_message PING 0 [1, 2]) @ [7], recv_sizes = [1, 1, 3], sent = [], send_sizes = []\<rparr>)) =
      (Some (new_message PING 2 [1, 2]), p') \<and> peer_socket p' = Some s' \<and> arriving s' = [7]"
  using message_received [of "new_peer 0 ''p'' ''1.2.3.4'' 6333 (Some \<lparr>arriving =
      message_serialize (new_message PING 0 [1, 2]) @ [7], recv_sizes = [1, 1, 3], sent = [], send_sizes = []\<rparr>)"
    "\<lparr>arriving = message_serialize (new_message PING 0 [1, 2]) @ [7], recv_sizes = [1, 1, 3], sent = [], send_sizes = []\<rparr>"
    "new_message PING 0 [1, 2]" "[7]" "(9, 9)" 5]
  by (auto simp: new_peer_def message_ok_def new_message_def p2p_limits message_of_byte_def named_messages_def)

theorem chain_payload_round_trip_witness:
  "decode_chain_payload (encode_chain_payload (map Some [genesis_block 0])) = [genesis_block 0]"
  by (rule chain_payload_round_trip)
    (simp_all add: p2p_limits syncable_def block_ok_def genesis_block_def new_block_def serial_limits
      string_ok_def bytes_ok_def zero_hash_def serialize_block_def write_counted_def write_string_def write_bytes_def write_value_def)

end
