(* ===== verification/Sqlite.thy ===== *)
theory Sqlite
  imports Std_Map
begin

text \<open>
  The SQLite connection as \<^verbatim>\<open>src/src/db/mermai_db.cpp\<close> uses it. The SQL statements of that file
  are part of the source and are translated, one function on the tables per statement, in the
  theory of the database; here is what a connection does with such a function. The library itself
  is not in the repository: which of its calls fail, and how, is the list \<open>faults\<close> of the
  outcomes to come (none left: everything succeeds), so that a statement about all connections
  covers every pattern of failures. A statement that fails changes nothing, except that SQLite
  documents that some errors roll the open transaction back (\<open>Aborts\<close>).
\<close>

section \<open>Connections\<close>

datatype sqlite_fault =
    Completes
  | Prepare_fails
  | Step_fails
  | Aborts

text \<open>
  \<open>schema\<close> names the tables that exist, \<open>tables\<close> is what statements see and change, and
  \<open>saved\<close> is, inside a transaction, what its end without \<^verbatim>\<open>COMMIT\<close> restores.
\<close>

record 't connection =
  schema :: "string list"
  tables :: 't
  saved :: "'t option"
  faults :: "sqlite_fault list"

definition next_fault :: "('t, 'x) connection_scheme \<Rightarrow> sqlite_fault" where
  "next_fault db = (case faults db of [] \<Rightarrow> Completes | f # _ \<Rightarrow> f)"

datatype 'a outcome =
    Not_prepared
  | Failed
  | Done 'a

definition roll_back :: "('t, 'x) connection_scheme \<Rightarrow> ('t, 'x) connection_scheme" where
  "roll_back db = (case saved db of None \<Rightarrow> db | Some t \<Rightarrow> db\<lparr>tables := t, saved := None\<rparr>)"

text \<open>
  Preparing and stepping one statement that names the tables \<open>needs\<close>; \<open>f\<close> is \<open>None\<close> where a
  constraint of the schema is violated.
\<close>

definition run ::
  "string list \<Rightarrow> ('t \<Rightarrow> ('a \<times> 't) option) \<Rightarrow> ('t, 'x) connection_scheme \<Rightarrow>
     'a outcome \<times> ('t, 'x) connection_scheme" where
  "run needs f db =
     (let db1 = db\<lparr>faults := tl (faults db)\<rparr>
      in if next_fault db = Prepare_fails \<or> \<not> list_all (\<lambda>n. n \<in> set (schema db)) needs then (Not_prepared, db1)
         else if next_fault db = Step_fails then (Failed, db1)
         else if next_fault db = Aborts then (Failed, roll_back db1)
         else case f (tables db) of
                None \<Rightarrow> (Failed, db1)
              | Some (x, t) \<Rightarrow> (Done x, db1\<lparr>tables := t\<rparr>))"

text \<open>A query, and a statement whose result is only whether it was carried out.\<close>

definition query :: "string list \<Rightarrow> ('t \<Rightarrow> 'a) \<Rightarrow> ('t, 'x) connection_scheme \<Rightarrow> 'a outcome \<times> ('t, 'x) connection_scheme" where
  "query needs q = run needs (\<lambda>t. Some (q t, t))"

definition update :: "string list \<Rightarrow> ('t \<Rightarrow> 't) \<Rightarrow> ('t, 'x) connection_scheme \<Rightarrow> bool \<times> ('t, 'x) connection_scheme" where
  "update needs u db = (case run needs (\<lambda>t. Some ((), u t)) db of (r, db') \<Rightarrow> (r = Done (), db'))"

definition done_or :: "'a \<Rightarrow> 'a outcome \<Rightarrow> 'a" where
  "done_or d r = (case r of Done x \<Rightarrow> x | _ \<Rightarrow> d)"

section \<open>Transactions\<close>

definition exec_begin :: "('t, 'x) connection_scheme \<Rightarrow> bool \<times> ('t, 'x) connection_scheme" where
  "exec_begin db =
     (let db1 = db\<lparr>faults := tl (faults db)\<rparr>
      in if next_fault db \<noteq> Completes \<or> saved db \<noteq> None then (False, db1)
         else (True, db1\<lparr>saved := Some (tables db)\<rparr>))"

definition exec_commit :: "('t, 'x) connection_scheme \<Rightarrow> bool \<times> ('t, 'x) connection_scheme" where
  "exec_commit db =
     (let db1 = db\<lparr>faults := tl (faults db)\<rparr>
      in if next_fault db = Aborts then (False, roll_back db1)
         else if next_fault db \<noteq> Completes \<or> saved db = None then (False, db1)
         else (True, db1\<lparr>saved := None\<rparr>))"

definition exec_rollback :: "('t, 'x) connection_scheme \<Rightarrow> bool \<times> ('t, 'x) connection_scheme" where
  "exec_rollback db =
     (let db1 = db\<lparr>faults := tl (faults db)\<rparr>
      in if next_fault db = Aborts then (False, roll_back db1)
         else if next_fault db \<noteq> Completes \<or> saved db = None then (False, db1)
         else (True, roll_back db1))"

text \<open>What is durable: the tables before the open transaction, if there is one.\<close>

definition durable :: "('t, 'x) connection_scheme \<Rightarrow> 't" where
  "durable db = (case saved db of None \<Rightarrow> tables db | Some t \<Rightarrow> t)"

section \<open>What a statement does\<close>

definition no_faults :: "('t, 'x) connection_scheme \<Rightarrow> bool" where
  "no_faults db \<longleftrightarrow> faults db = []"

definition never_aborts :: "('t, 'x) connection_scheme \<Rightarrow> bool" where
  "never_aborts db \<longleftrightarrow> Aborts \<notin> set (faults db)"

text \<open>
  The relation every operation built from statements keeps as long as no error rolls a
  transaction back: the open transaction stays open, the schema stays, no fault appears.
\<close>

definition stays_open :: "('t, 'x) connection_scheme \<Rightarrow> ('t, 'x) connection_scheme \<Rightarrow> bool" where
  "stays_open db db' \<longleftrightarrow> saved db' = saved db \<and> schema db' = schema db \<and> set (faults db') \<subseteq> set (faults db)"

lemma stays_open_refl [simp]: "stays_open db db"
  by (simp add: stays_open_def)

lemma stays_open_trans: "stays_open a b \<Longrightarrow> stays_open b c \<Longrightarrow> stays_open a c"
  by (auto simp: stays_open_def)

lemma stays_open_aborts: "stays_open db db' \<Longrightarrow> never_aborts db \<Longrightarrow> never_aborts db'"
  by (auto simp: stays_open_def never_aborts_def)

lemma set_tl_subset: "set (tl xs) \<subseteq> set xs"
  by (cases xs) auto

lemma next_fault_mem: "next_fault db = f \<Longrightarrow> f \<noteq> Completes \<Longrightarrow> f \<in> set (faults db)"
  by (auto simp: next_fault_def split: list.splits)

lemma never_aborts_next: "never_aborts db \<Longrightarrow> next_fault db \<noteq> Aborts"
  using next_fault_mem [of db Aborts] by (auto simp: never_aborts_def)

lemma run_stays_open: "never_aborts db \<Longrightarrow> stays_open db (snd (run needs f db))"
  using never_aborts_next [of db] set_tl_subset [of "faults db"]
  by (auto simp: run_def stays_open_def Let_def split: option.splits)

lemma run_no_faults:
  "no_faults db \<Longrightarrow> list_all (\<lambda>n. n \<in> set (schema db)) needs \<Longrightarrow>
     run needs f db = (case f (tables db) of None \<Rightarrow> (Failed, db) | Some (x, t) \<Rightarrow> (Done x, db\<lparr>tables := t\<rparr>))"
  by (auto simp: run_def no_faults_def next_fault_def Let_def split: option.splits)

lemma run_Done:
  assumes "run needs f db = (Done x, db')"
  shows "\<exists>t. f (tables db) = Some (x, t) \<and> tables db' = t"
    and "saved db' = saved db" and "schema db' = schema db" and "faults db' = tl (faults db)"
    and "list_all (\<lambda>n. n \<in> set (schema db)) needs"
  using assms by (auto simp: run_def Let_def split: if_splits option.splits prod.splits)

lemma run_not_Done:
  assumes "run needs f db = (r, db')" "\<forall>x. r \<noteq> Done x" "never_aborts db"
  shows "tables db' = tables db"
  using assms never_aborts_next [of db]
  by (auto simp: run_def Let_def split: if_splits option.splits prod.splits)

lemma query_stays_open: "never_aborts db \<Longrightarrow> stays_open db (snd (query needs q db))"
  by (simp add: query_def run_stays_open)

lemma query_no_faults:
  "no_faults db \<Longrightarrow> list_all (\<lambda>n. n \<in> set (schema db)) needs \<Longrightarrow> query needs q db = (Done (q (tables db)), db)"
  by (simp add: query_def run_no_faults)

lemma query_tables: "never_aborts db \<Longrightarrow> tables (snd (query needs q db)) = tables db"
  using never_aborts_next [of db] by (simp add: query_def run_def Let_def)

lemma query_Done: "query needs q db = (Done x, db') \<Longrightarrow>
    x = q (tables db) \<and> tables db' = tables db \<and> saved db' = saved db \<and> faults db' = tl (faults db)"
  using run_Done [of needs "\<lambda>t. Some (q t, t)" db x db'] by (auto simp: query_def)

lemma update_stays_open: "never_aborts db \<Longrightarrow> stays_open db (snd (update needs u db))"
  using run_stays_open [of db needs "\<lambda>t. Some ((), u t)"] by (simp add: update_def case_prod_beta)

lemma update_no_faults:
  "no_faults db \<Longrightarrow> list_all (\<lambda>n. n \<in> set (schema db)) needs \<Longrightarrow>
     update needs u db = (True, db\<lparr>tables := u (tables db)\<rparr>)"
  by (simp add: update_def run_no_faults)

lemma update_True:
  assumes "update needs u db = (True, db')"
  shows "tables db' = u (tables db)" and "saved db' = saved db"
proof -
  obtain db'' where "run needs (\<lambda>t. Some ((), u t)) db = (Done (), db'')" "db'' = db'"
    using assms by (auto simp: update_def split: prod.splits)
  then show "tables db' = u (tables db)" and "saved db' = saved db"
    using run_Done(1,2) [of needs "\<lambda>t. Some ((), u t)" db "()" db'] by auto
qed

lemma update_False:
  assumes "update needs u db = (False, db')" "never_aborts db"
  shows "tables db' = tables db"
  using assms run_not_Done [of needs "\<lambda>t. Some ((), u t)" db _ db']
  by (fastforce simp: update_def split: prod.splits)

end
