(* ===== verification/Mermai_Mempool.thy ===== *)
theory Mermai_Mempool
  imports Mermai_Signing Std_Map "HOL-Library.Multiset"
begin

text \<open>
  The transaction pool (\<^verbatim>\<open>src/src/core/mermai_mempool.cpp\<close>): transactions by id, the set of
  outputs they claim, eviction of the cheapest transaction when the pool is full, and the
  fee-ordered view the block producer asks for. The mutex serialises the operations, so the
  pool is a sequential state machine whose steps are the public operations.
\<close>

record mermai_mempool =
  max_capacity :: nat
  pool :: "(string, mermai_transaction) omap"
  pending_utxos :: "(string \<times> u32) set"
  pending_nonces :: "(string, u64) omap"

section \<open>Operations\<close>

definition new_mempool :: "nat \<Rightarrow> mermai_mempool" where
  "new_mempool capacity =
     \<lparr>max_capacity = capacity, pool = [], pending_utxos = {}, pending_nonces = []\<rparr>"

definition effective_id :: "'k openssl \<Rightarrow> mermai_transaction \<Rightarrow> string" where
  "effective_id ossl tx = (if tx_id tx = [] then get_hash ossl tx else tx_id tx)"

text \<open>\<^verbatim>\<open>std::min_element\<close>: the first element no later element is smaller than.\<close>

fun min_element :: "('a \<Rightarrow> 'a \<Rightarrow> bool) \<Rightarrow> 'a list \<Rightarrow> 'a option" where
  "min_element lt [] = None"
| "min_element lt (x # xs) = Some (foldl (\<lambda>best y. if lt y best then y else best) x xs)"

definition outpoints :: "mermai_transaction \<Rightarrow> (string \<times> u32) set" where
  "outpoints tx = outpoint ` set (inputs tx)"

fun utxo_conflict :: "(string \<times> u32) set \<Rightarrow> mermai_tx_input list \<Rightarrow> bool" where
  "utxo_conflict pending [] = False"
| "utxo_conflict pending (i # is) = (outpoint i \<in> pending \<or> utxo_conflict pending is)"

fun erase_utxos :: "mermai_tx_input list \<Rightarrow> (string \<times> u32) set \<Rightarrow> (string \<times> u32) set" where
  "erase_utxos [] pending = pending"
| "erase_utxos (i # is) pending = erase_utxos is (pending - {outpoint i})"

fun record_utxos :: "mermai_tx_input list \<Rightarrow> (string \<times> u32) set \<Rightarrow> (string \<times> u32) set" where
  "record_utxos [] pending = pending"
| "record_utxos (i # is) pending = record_utxos is (insert (outpoint i) pending)"

definition insert_transaction ::
  "string \<Rightarrow> mermai_transaction \<Rightarrow> mermai_mempool \<Rightarrow> mermai_mempool" where
  "insert_transaction tid tx m =
     m\<lparr>pending_utxos := record_utxos (inputs tx) (pending_utxos m), pool := omap_put tid tx (pool m)\<rparr>"

definition evict :: "string \<Rightarrow> mermai_transaction \<Rightarrow> mermai_mempool \<Rightarrow> mermai_mempool" where
  "evict tid tx m =
     m\<lparr>pending_utxos := erase_utxos (inputs tx) (pending_utxos m), pool := omap_erase tid (pool m)\<rparr>"

definition add_transaction ::
  "'k openssl \<Rightarrow> mermai_transaction \<Rightarrow> mermai_mempool \<Rightarrow> bool \<times> mermai_mempool" where
  "add_transaction ossl tx m =
     (let tid = effective_id ossl tx
      in if omap_find (pool m) tid \<noteq> None then (False, m)
         else if utxo_conflict (pending_utxos m) (inputs tx) then (False, m)
         else if length (pool m) \<ge> max_capacity m
         then (case min_element (\<lambda>a b. fee (snd a) < fee (snd b)) (pool m) of
                 None \<Rightarrow> (False, m)
               | Some (low_id, low) \<Rightarrow>
                   if fee low < fee tx
                   then (True, insert_transaction tid tx (evict low_id low m))
                   else (False, m))
         else (True, insert_transaction tid tx m))"

definition remove_transaction :: "string \<Rightarrow> mermai_mempool \<Rightarrow> bool \<times> mermai_mempool" where
  "remove_transaction tid m =
     (case omap_find (pool m) tid of
        None \<Rightarrow> (False, m)
      | Some tx \<Rightarrow> (True, evict tid tx m))"

definition has_transaction :: "string \<Rightarrow> mermai_mempool \<Rightarrow> bool" where
  "has_transaction tid m \<longleftrightarrow> omap_find (pool m) tid \<noteq> None"

definition clear_pool :: "mermai_mempool \<Rightarrow> mermai_mempool" where
  "clear_pool m = m\<lparr>pool := [], pending_utxos := {}, pending_nonces := []\<rparr>"

definition pool_size :: "mermai_mempool \<Rightarrow> nat" where
  "pool_size m = length (pool m)"

definition is_utxo_spent :: "string \<Rightarrow> u32 \<Rightarrow> mermai_mempool \<Rightarrow> bool" where
  "is_utxo_spent tx_hash output_index m \<longleftrightarrow> (tx_hash, output_index) \<in> pending_utxos m"

text \<open>
  \<^verbatim>\<open>std::sort\<close> leaves the order of transactions with equal fees open, so the sort is an
  argument of the model; \<open>fee_sort\<close> is what the standard promises of it.
\<close>

definition fee_sort :: "(mermai_transaction list \<Rightarrow> mermai_transaction list) \<Rightarrow> bool" where
  "fee_sort srt \<longleftrightarrow>
     (\<forall>xs. mset (srt xs) = mset xs \<and> sorted_wrt (\<lambda>a b. fee a \<ge> fee b) (srt xs))"

definition get_transactions ::
  "(mermai_transaction list \<Rightarrow> mermai_transaction list) \<Rightarrow> u32 \<Rightarrow> mermai_mempool \<Rightarrow>
     mermai_transaction list" where
  "get_transactions srt limit m =
     (let srted = srt (map snd (pool m))
      in if length srted > unat limit then take (unat limit) srted else srted)"

definition get_median_fee :: "mermai_mempool \<Rightarrow> u64" where
  "get_median_fee m =
     (if pool m = [] then 1000
      else let fees = sort (map (fee \<circ> snd) (pool m)) in fees ! (length fees div 2))"

inductive mempool_step :: "'k openssl \<Rightarrow> mermai_mempool \<Rightarrow> mermai_mempool \<Rightarrow> bool" for ossl where
  step_add: "mempool_step ossl m (snd (add_transaction ossl tx m))"
| step_remove: "mempool_step ossl m (snd (remove_transaction tid m))"
| step_clear: "mempool_step ossl m (clear_pool m)"

inductive_cases mempool_stepE: "mempool_step ossl m m'"

section \<open>The pool invariant\<close>

lemma utxo_conflict_iff: "utxo_conflict P is \<longleftrightarrow> P \<inter> outpoint ` set is \<noteq> {}"
  by (induction "is") auto

lemma erase_utxos_eq: "erase_utxos is P = P - outpoint ` set is"
  by (induction "is" arbitrary: P) auto

lemma record_utxos_eq: "record_utxos is P = P \<union> outpoint ` set is"
  by (induction "is" arbitrary: P) auto

lemmas utxo_loops = utxo_conflict_iff erase_utxos_eq record_utxos_eq outpoints_def

definition claims_disjoint :: "(string \<times> mermai_transaction) set \<Rightarrow> bool" where
  "claims_disjoint S \<longleftrightarrow>
     (\<forall>i t j u. (i, t) \<in> S \<longrightarrow> (j, u) \<in> S \<longrightarrow> i \<noteq> j \<longrightarrow> outpoints t \<inter> outpoints u = {})"

definition claimed :: "(string \<times> mermai_transaction) set \<Rightarrow> (string \<times> u32) set" where
  "claimed S = (\<Union>p\<in>S. outpoints (snd p))"

definition mempool_inv :: "mermai_mempool \<Rightarrow> bool" where
  "mempool_inv m \<longleftrightarrow>
     omap_ok (pool m) \<and> length (pool m) \<le> max_capacity m \<and>
     pending_utxos m = claimed (set (pool m)) \<and> claims_disjoint (set (pool m))"

lemma claims_disjoint_empty [simp]: "claims_disjoint {}"
  by (simp add: claims_disjoint_def)

lemma claims_disjointD:
  "claims_disjoint S \<Longrightarrow> (i, t) \<in> S \<Longrightarrow> (j, u) \<in> S \<Longrightarrow> i \<noteq> j \<Longrightarrow> outpoints t \<inter> outpoints u = {}"
  unfolding claims_disjoint_def by blast

lemma claims_disjoint_subset: "claims_disjoint S \<Longrightarrow> T \<subseteq> S \<Longrightarrow> claims_disjoint T"
  unfolding claims_disjoint_def by blast

lemma claims_disjoint_insert:
  assumes "claims_disjoint S" and "claimed S \<inter> outpoints tx = {}"
  shows "claims_disjoint (insert (tid, tx) S)"
proof -
  have new: "outpoints u \<inter> outpoints tx = {}" if "(j, u) \<in> S" for j u
    using assms(2) that by (force simp: claimed_def)
  show ?thesis
    unfolding claims_disjoint_def
  proof (intro allI impI)
    fix i t j u
    assume *: "(i, t) \<in> insert (tid, tx) S" "(j, u) \<in> insert (tid, tx) S" "i \<noteq> j"
    then consider "(i, t) \<in> S" "(j, u) \<in> S" | "t = tx" "(j, u) \<in> S" | "u = tx" "(i, t) \<in> S" by blast
    then show "outpoints t \<inter> outpoints u = {}"
      by cases (use claims_disjointD [OF assms(1)] *(3) new in blast)+
  qed
qed

lemma claimed_remove:
  assumes "claims_disjoint S" and "(tid, tx) \<in> S" and "\<And>u. (tid, u) \<in> S \<Longrightarrow> u = tx"
  shows "claimed S - outpoints tx = claimed {p \<in> S. fst p \<noteq> tid}"
proof
  show "claimed S - outpoints tx \<subseteq> claimed {p \<in> S. fst p \<noteq> tid}"
    using assms(3) by (fastforce simp: claimed_def)
  show "claimed {p \<in> S. fst p \<noteq> tid} \<subseteq> claimed S - outpoints tx"
    using claims_disjointD [OF assms(1,2)] by (fastforce simp: claimed_def)
qed

lemma min_element_min:
  fixes key :: "'a \<Rightarrow> 'b::linorder"
  assumes "min_element (\<lambda>a b. key a < key b) xs = Some x"
  shows "x \<in> set xs \<and> (\<forall>y\<in>set xs. key x \<le> key y)"
proof -
  have fold: "let r = foldl (\<lambda>best y. if key y < key best then y else best) z ys
      in r \<in> insert z (set ys) \<and> (\<forall>y\<in>insert z (set ys). key r \<le> key y)" for z ys
  proof (induction ys arbitrary: z)
    case Nil
    then show ?case by simp
  next
    case (Cons y ys)
    from Cons.IH [of "if key y < key z then y else z"] show ?case
      by (auto simp: Let_def not_less split: if_splits intro: order_trans less_imp_le)
  qed
  from assms obtain z ys where "xs = z # ys"
    and "x = foldl (\<lambda>best y. if key y < key best then y else best) z ys"
    by (cases xs) auto
  with fold [of z ys] show ?thesis by (simp add: Let_def)
qed

lemma evict_inv:
  assumes inv: "mempool_inv m" and mem: "(tid, tx) \<in> set (pool m)"
  shows "mempool_inv (evict tid tx m)" and "length (pool (evict tid tx m)) < length (pool m)"
proof -
  from inv have ok: "omap_ok (pool m)" by (simp add: mempool_inv_def)
  with mem have f: "omap_find (pool m) tid = Some tx" by (simp add: omap_find_mem)
  have len: "length (omap_erase tid (pool m)) = length (pool m) - 1"
    using length_omap_erase [OF ok, of tid] f by simp
  moreover have "length (pool m) \<noteq> 0" using mem by auto
  ultimately show "length (pool (evict tid tx m)) < length (pool m)" by (simp add: evict_def)
  have "claimed (set (pool m)) - outpoints tx = claimed (set (omap_erase tid (pool m)))"
    unfolding set_omap_erase using inv mem f
    by (intro claimed_remove) (auto simp: mempool_inv_def simp flip: omap_find_mem)
  moreover have "claims_disjoint (set (omap_erase tid (pool m)))"
    using inv unfolding set_omap_erase mempool_inv_def
    by (blast intro: claims_disjoint_subset)
  moreover have "length (omap_erase tid (pool m)) \<le> max_capacity m"
    using inv len by (auto simp: mempool_inv_def)
  ultimately show "mempool_inv (evict tid tx m)"
    using inv by (simp add: mempool_inv_def evict_def erase_utxos_eq flip: outpoints_def)
qed

lemma insert_inv:
  assumes inv: "mempool_inv m" and fresh: "omap_find (pool m) tid = None"
    and noconf: "pending_utxos m \<inter> outpoints tx = {}" and room: "length (pool m) < max_capacity m"
  shows "mempool_inv (insert_transaction tid tx m)"
proof -
  from inv have ok: "omap_ok (pool m)" by (simp add: mempool_inv_def)
  have set: "set (omap_put tid tx (pool m)) = insert (tid, tx) (set (pool m))"
    using fresh by (auto simp: set_omap_put [OF ok] omap_find_None_iff)
  have "claims_disjoint (insert (tid, tx) (set (pool m)))"
    using inv noconf by (intro claims_disjoint_insert) (auto simp: mempool_inv_def)
  moreover have "claimed (insert (tid, tx) (set (pool m))) = claimed (set (pool m)) \<union> outpoints tx"
    by (auto simp: claimed_def)
  moreover have "length (omap_put tid tx (pool m)) \<le> max_capacity m"
    using room fresh length_omap_put [OF ok, of tid tx] by simp
  ultimately show ?thesis
    using inv ok by (simp add: mempool_inv_def insert_transaction_def set record_utxos_eq
        flip: outpoints_def)
qed

text \<open>What an accepted transaction does to the pool, in one place.\<close>

lemma add_transaction_cases:
  assumes "add_transaction ossl tx m = (r, m')"
  obtains (rejected) "\<not> r" "m' = m"
  | (room) "r" "omap_find (pool m) (effective_id ossl tx) = None"
      "pending_utxos m \<inter> outpoints tx = {}" "length (pool m) < max_capacity m"
      "m' = insert_transaction (effective_id ossl tx) tx m"
  | (evicted) low_id low where "r" "omap_find (pool m) (effective_id ossl tx) = None"
      "pending_utxos m \<inter> outpoints tx = {}" "length (pool m) \<ge> max_capacity m"
      "(low_id, low) \<in> set (pool m)" "\<And>p. p \<in> set (pool m) \<Longrightarrow> fee low \<le> fee (snd p)"
      "fee low < fee tx"
      "m' = insert_transaction (effective_id ossl tx) tx (evict low_id low m)"
proof -
  let ?tid = "effective_id ossl tx" and ?low = "min_element (\<lambda>a b. fee (snd a) < fee (snd b)) (pool m)"
  consider (r1) "omap_find (pool m) ?tid \<noteq> None \<or> utxo_conflict (pending_utxos m) (inputs tx)"
    | (r2) "omap_find (pool m) ?tid = None" "\<not> utxo_conflict (pending_utxos m) (inputs tx)"
        "length (pool m) < max_capacity m"
    | (r3) "omap_find (pool m) ?tid = None" "\<not> utxo_conflict (pending_utxos m) (inputs tx)"
        "max_capacity m \<le> length (pool m)" by linarith
  then show thesis
  proof cases
    case r1
    with assms have "\<not> r \<and> m' = m" by (auto simp: add_transaction_def Let_def split: if_splits)
    then show thesis using rejected by blast
  next
    case r2
    with assms have "r \<and> m' = insert_transaction ?tid tx m" by (simp add: add_transaction_def Let_def)
    then show thesis using room r2 by (simp add: utxo_conflict_iff flip: outpoints_def)
  next
    case r3
    then have nc: "pending_utxos m \<inter> outpoints tx = {}" by (simp add: utxo_loops)
    show thesis
    proof (cases "\<exists>p. ?low = Some p \<and> fee (snd p) < fee tx")
      case False
      with assms r3 have "\<not> r \<and> m' = m"
        by (cases ?low) (auto simp: add_transaction_def Let_def split: prod.splits)
      then show thesis using rejected by blast
    next
      case True
      then obtain low_id low where low: "?low = Some (low_id, low)" "fee low < fee tx" by auto
      with assms r3 have "r \<and> m' = insert_transaction ?tid tx (evict low_id low m)"
        by (simp add: add_transaction_def Let_def)
      moreover from min_element_min [OF low(1)] have "(low_id, low) \<in> set (pool m)"
        and "\<And>q. q \<in> set (pool m) \<Longrightarrow> fee low \<le> fee (snd q)" by auto
      ultimately show thesis using evicted [OF _ r3(1) nc r3(3) _ _ low(2)] by blast
    qed
  qed
qed

lemma add_transaction_accepts:
  "fst (add_transaction ossl tx m) \<longleftrightarrow>
      \<not> has_transaction (effective_id ossl tx) m \<and> pending_utxos m \<inter> outpoints tx = {} \<and>
      (pool_size m < max_capacity m \<or> (\<exists>p\<in>set (pool m). fee (snd p) < fee tx))"
proof -
  let ?min = "min_element (\<lambda>a b. fee (snd a) < fee (snd b)) (pool m)"
  have "(\<exists>p. ?min = Some p \<and> fee (snd p) < fee tx) \<longleftrightarrow> (\<exists>p\<in>set (pool m). fee (snd p) < fee tx)"
  proof (cases ?min)
    case None
    then have "pool m = []" by (cases "pool m") auto
    with None show ?thesis by simp
  next
    case (Some p)
    with min_element_min [OF Some] show ?thesis by (auto intro: le_less_trans)
  qed
  then show ?thesis
    by (auto simp: add_transaction_def Let_def has_transaction_def pool_size_def utxo_conflict_iff
        simp flip: outpoints_def split: option.splits prod.splits)
qed

lemma add_transaction_inv:
  assumes inv: "mempool_inv m"
  shows "mempool_inv (snd (add_transaction ossl tx m))"
proof -
  obtain r m' where rm: "add_transaction ossl tx m = (r, m')" by (cases "add_transaction ossl tx m")
  from rm show ?thesis
  proof (cases rule: add_transaction_cases)
    case rejected
    with inv rm show ?thesis by simp
  next
    case room
    with insert_inv [OF inv] rm show ?thesis by simp
  next
    case (evicted low_id low)
    from evict_inv [OF inv evicted(5)] have e: "mempool_inv (evict low_id low m)"
      and l: "length (pool (evict low_id low m)) < length (pool m)" by auto
    from l inv have room: "length (pool (evict low_id low m)) < max_capacity (evict low_id low m)"
      by (simp add: mempool_inv_def evict_def)
    have "omap_find (pool (evict low_id low m)) (effective_id ossl tx) = None"
      using evicted(2) by (simp add: evict_def)
    moreover have "pending_utxos (evict low_id low m) \<inter> outpoints tx = {}"
      using evicted(3) by (auto simp: evict_def utxo_loops)
    ultimately show ?thesis using insert_inv [OF e _ _ room] evicted(8) rm by simp
  qed
qed

lemma remove_transaction_inv:
  "mempool_inv m \<Longrightarrow> mempool_inv (snd (remove_transaction tid m))"
  by (auto simp: remove_transaction_def split: option.splits
      intro: evict_inv dest: map_of_SomeD)

lemma clear_pool_inv: "mempool_inv (clear_pool m)"
  by (simp add: clear_pool_def mempool_inv_def claimed_def)

interpretation pool_system: safe_system
  "\<lambda>m. \<exists>n. m = new_mempool n" "mempool_step ossl" mempool_inv
proof
  show "\<exists>n. s = new_mempool n \<Longrightarrow> mempool_inv s" for s
    by (auto simp: new_mempool_def mempool_inv_def claimed_def)
next
  show "mempool_inv s \<Longrightarrow> mempool_step ossl s t \<Longrightarrow> mempool_inv t" for s t
    by (elim mempool_stepE) (auto intro: add_transaction_inv remove_transaction_inv clear_pool_inv)
qed

section \<open>What the pool guarantees\<close>

text \<open>C12: However the pool is used, it never holds more transactions than its capacity, no two
  pooled transactions claim the same output, and an output is reported as spent exactly when
  some pooled transaction claims it.\<close>
theorem mempool_no_double_spend:
  assumes "reach (\<lambda>m. \<exists>n. m = new_mempool n) (mempool_step ossl) m"
  shows "pool_size m \<le> max_capacity m \<and>
    (\<forall>i t j u. omap_find (pool m) i = Some t \<and> omap_find (pool m) j = Some u \<and> i \<noteq> j \<longrightarrow>
       outpoints t \<inter> outpoints u = {}) \<and>
    (\<forall>h k. is_utxo_spent h k m \<longleftrightarrow>
       (\<exists>tid tx. omap_find (pool m) tid = Some tx \<and> (h, k) \<in> outpoints tx))"
proof -
  from pool_system.reach_inv [OF assms] have inv: "mempool_inv m" .
  then have mem: "omap_find (pool m) x = Some y \<longleftrightarrow> (x, y) \<in> set (pool m)" for x y
    by (simp add: omap_find_mem mempool_inv_def)
  have "outpoints t \<inter> outpoints u = {}"
    if "omap_find (pool m) i = Some t" "omap_find (pool m) j = Some u" "i \<noteq> j" for i t j u
    using inv that claims_disjointD [of "set (pool m)"] by (simp add: mempool_inv_def mem)
  moreover have "is_utxo_spent h k m \<longleftrightarrow>
      (\<exists>tid tx. omap_find (pool m) tid = Some tx \<and> (h, k) \<in> outpoints tx)" for h k
    using inv by (force simp: mempool_inv_def mem is_utxo_spent_def claimed_def)
  ultimately show ?thesis using inv unfolding mempool_inv_def pool_size_def by blast
qed

definition spend_of :: "string \<Rightarrow> string \<Rightarrow> u64 \<Rightarrow> mermai_transaction" where
  "spend_of tid h f = default_transaction\<lparr>tx_id := tid, fee := f,
     inputs := [\<lparr>prev_tx_hash = h, prev_output_idx = 0, in_signature = [], in_public_key = []\<rparr>]\<rparr>"

definition two_spends :: mermai_mempool where
  "two_spends = snd (add_transaction toy_ossl (spend_of ''b'' ''y'' 5)
     (snd (add_transaction toy_ossl (spend_of ''a'' ''x'' 3) (new_mempool 2))))"

lemma two_spends_reach: "reach (\<lambda>m. \<exists>n. m = new_mempool n) (mempool_step toy_ossl) two_spends"
proof -
  have "reach (\<lambda>m. \<exists>n. m = new_mempool n) (mempool_step toy_ossl) (new_mempool 2)"
    by (rule reach_start) blast
  then show ?thesis unfolding two_spends_def
    by (blast intro: reach_step mempool_step.step_add)
qed

lemma two_spends_eq:
  "two_spends = \<lparr>max_capacity = 2, pool = [(''a'', spend_of ''a'' ''x'' 3), (''b'', spend_of ''b'' ''y'' 5)],
     pending_utxos = {(''y'', 0), (''x'', 0)}, pending_nonces = []\<rparr>"
  by (simp add: two_spends_def add_transaction_def new_mempool_def effective_id_def Let_def
      insert_transaction_def spend_of_def less_char_def)

lemma mempool_no_double_spend_witness:
  "pool_size two_spends \<le> 2 \<and> outpoints (spend_of ''a'' ''x'' 3) \<inter> outpoints (spend_of ''b'' ''y'' 5) = {}
     \<and> is_utxo_spent ''x'' 0 two_spends"
proof -
  have find: "omap_find (pool two_spends) ''a'' = Some (spend_of ''a'' ''x'' 3)"
    "omap_find (pool two_spends) ''b'' = Some (spend_of ''b'' ''y'' 5)" "max_capacity two_spends = 2"
    by (simp_all add: two_spends_eq)
  have "(''x'', 0) \<in> outpoints (spend_of ''a'' ''x'' 3)" by (simp add: outpoints_def spend_of_def)
  with mempool_no_double_spend [OF two_spends_reach] find show ?thesis by force
qed

text \<open>C38: A transaction is accepted exactly when its id is new, none of its outputs is claimed
  and there is room, or the pool is full and some pooled transaction has a strictly smaller fee.
  An accepted transaction is in the pool; nothing else changes but, in a full pool, the removal
  of one transaction whose fee is minimal and smaller than the new one.\<close>
theorem add_transaction_spec:
  fixes ossl :: "'k openssl" and tx :: mermai_transaction
  assumes inv: "mempool_inv m"
  defines "tid \<equiv> effective_id ossl tx"
  shows "case add_transaction ossl tx m of (accepted, m') \<Rightarrow>
    (accepted \<longleftrightarrow>
      \<not> has_transaction tid m \<and> pending_utxos m \<inter> outpoints tx = {} \<and>
      (pool_size m < max_capacity m \<or> (\<exists>p\<in>set (pool m). fee (snd p) < fee tx))) \<and>
    (if \<not> accepted then m' = m
     else if pool_size m < max_capacity m then omap_find (pool m') = (omap_find (pool m))(tid \<mapsto> tx)
     else \<exists>low_id low. omap_find (pool m) low_id = Some low \<and> fee low < fee tx \<and>
       (\<forall>p\<in>set (pool m). fee low \<le> fee (snd p)) \<and>
       omap_find (pool m') = (omap_find (pool m))(low_id := None, tid \<mapsto> tx))"
proof -
  obtain r m' where rm: "add_transaction ossl tx m = (r, m')" by (cases "add_transaction ossl tx m")
  have mem: "(x, y) \<in> set (pool m) \<Longrightarrow> omap_find (pool m) x = Some y" for x y
    using inv by (simp add: mempool_inv_def omap_find_mem)
  from rm have "if \<not> r then m' = m
     else if pool_size m < max_capacity m then omap_find (pool m') = (omap_find (pool m))(tid \<mapsto> tx)
     else \<exists>low_id low. omap_find (pool m) low_id = Some low \<and> fee low < fee tx \<and>
       (\<forall>p\<in>set (pool m). fee low \<le> fee (snd p)) \<and>
       omap_find (pool m') = (omap_find (pool m))(low_id := None, tid \<mapsto> tx)"
  proof (cases rule: add_transaction_cases)
    case (evicted low_id low)
    from evicted have "omap_find (pool m') = (omap_find (pool m))(low_id := None, tid \<mapsto> tx)"
      by (simp add: insert_transaction_def evict_def tid_def)
    with mem [OF evicted(5)] evicted(1,4,6,7) show ?thesis
      by (simp add: pool_size_def del: fun_upd_apply) metis
  qed (simp_all add: insert_transaction_def pool_size_def tid_def)
  with add_transaction_accepts [of ossl tx m] show ?thesis by (simp add: rm tid_def)
qed

lemma add_transaction_spec_witness:
  "fst (add_transaction toy_ossl (spend_of ''c'' ''z'' 4) two_spends) \<and>
   \<not> has_transaction ''a'' (snd (add_transaction toy_ossl (spend_of ''c'' ''z'' 4) two_spends))"
proof -
  let ?tx = "spend_of ''c'' ''z'' 4"
  have inv: "mempool_inv two_spends" by (rule pool_system.reach_inv [OF two_spends_reach])
  have facts: "effective_id toy_ossl ?tx = ''c''" "fee ?tx = 4" "outpoints ?tx = {(''z'', 0)}"
    "fee (spend_of ''a'' ''x'' 3) = 3" "fee (spend_of ''b'' ''y'' 5) = 5"
    by (simp_all add: effective_id_def spend_of_def outpoints_def)
  show ?thesis
    using add_transaction_spec [OF inv, of toy_ossl ?tx]
    by (auto simp: two_spends_eq has_transaction_def pool_size_def facts split: if_splits prod.splits)
qed

text \<open>The block producer gets the transactions with the highest fees: the answer is sorted by
  descending fee, has \<open>limit\<close> transactions or all of them, is taken from the pool without
  repetition, and every transaction left out has a fee no larger than any returned one.\<close>
theorem get_transactions_best:
  fixes m :: mermai_mempool and limit :: u32
  assumes "fee_sort srt"
  defines "best \<equiv> get_transactions srt limit m" and "all \<equiv> map snd (pool m)"
  shows "sorted_wrt (\<lambda>a b. fee a \<ge> fee b) best \<and>
    length best = min (unat limit) (pool_size m) \<and>
    mset best \<subseteq># mset all \<and>
    (\<forall>left\<in>#mset all - mset best. \<forall>taken\<in>set best. fee left \<le> fee taken)"
proof -
  let ?l = "srt all" and ?n = "unat limit"
  have perm: "mset ?l = mset all" and sorted: "sorted_wrt (\<lambda>a b. fee a \<ge> fee b) ?l"
    using assms by (auto simp: fee_sort_def)
  have eq: "best = take ?n ?l" by (simp add: best_def all_def get_transactions_def Let_def)
  have len: "length ?l = pool_size m"
    using mset_eq_length [OF perm] by (simp add: pool_size_def all_def)
  have split: "mset ?l = mset best + mset (drop ?n ?l)"
    by (metis append_take_drop_id mset_append eq)
  have "sorted_wrt (\<lambda>a b. fee a \<ge> fee b) (best @ drop ?n ?l)" using sorted by (simp add: eq)
  then have "x \<in> set best \<Longrightarrow> y \<in> set (drop ?n ?l) \<Longrightarrow> fee y \<le> fee x" for x y
    unfolding sorted_wrt_append by blast
  moreover have "set_mset (mset all - mset best) = set (drop ?n ?l)"
    unfolding perm [symmetric] split by simp
  moreover have "mset best \<subseteq># mset all" unfolding perm [symmetric] split by simp
  ultimately show ?thesis
    using sorted len by (simp add: eq sorted_wrt_take min.commute)
qed

definition stable_fee_sort :: "mermai_transaction list \<Rightarrow> mermai_transaction list" where
  "stable_fee_sort xs = rev (sort_key fee xs)"

lemma stable_fee_sort: "fee_sort stable_fee_sort"
proof -
  have "sorted_wrt (\<lambda>a b. fee b \<le> fee a) (rev (sort_key fee xs))" for xs
    using sorted_sort_key [of fee xs] by (simp add: sorted_wrt_rev sorted_map)
  then show ?thesis by (auto simp: fee_sort_def stable_fee_sort_def)
qed

lemma get_transactions_best_witness:
  "length (get_transactions stable_fee_sort 1 two_spends) = 1 \<and>
   fee (spend_of ''a'' ''x'' 3) \<le> fee (spend_of ''b'' ''y'' 5)"
proof -
  have "get_transactions stable_fee_sort 1 two_spends = [spend_of ''b'' ''y'' 5]"
    by (simp add: get_transactions_def stable_fee_sort_def two_spends_eq spend_of_def)
  with get_transactions_best [OF stable_fee_sort, of 1 two_spends]
  show ?thesis by (simp add: two_spends_eq)
qed

text \<open>The median the fee market reports: half of the pooled fees are at least as large, and at
  least half are no larger.\<close>

lemma get_median_fee_rank:
  assumes "pool m \<noteq> []"
  shows "length (filter (\<lambda>p. get_median_fee m \<le> fee (snd p)) (pool m)) \<ge> (pool_size m + 1) div 2"
proof -
  let ?fs = "sort (map (fee \<circ> snd) (pool m))" and ?h = "pool_size m div 2"
  have len: "length ?fs = pool_size m" by (simp add: pool_size_def)
  have "set (drop ?h ?fs) \<subseteq> {x. ?fs ! ?h \<le> x}"
    by (auto simp: in_set_conv_nth pool_size_def intro!: sorted_nth_mono)
  then have "length (filter (\<lambda>x. ?fs ! ?h \<le> x) (drop ?h ?fs)) = pool_size m - ?h"
    by (subst filter_True) (auto simp: len pool_size_def)
  moreover have "length (filter (\<lambda>x. ?fs ! ?h \<le> x) (drop ?h ?fs)) \<le> length (filter (\<lambda>x. ?fs ! ?h \<le> x) ?fs)"
    by (metis append_take_drop_id filter_append le_add2 length_append)
  moreover have "length (filter (\<lambda>x. ?fs ! ?h \<le> x) ?fs) =
      length (filter (\<lambda>p. get_median_fee m \<le> fee (snd p)) (pool m))"
    using assms by (simp add: get_median_fee_def pool_size_def Let_def filter_sort filter_map o_def)
  ultimately show ?thesis by linarith
qed

end
