(* ===== verification/Mermai_DB.thy ===== *)
theory Mermai_DB
  imports Sqlite Mermai_Mempool Mermai_Proposal
begin

text \<open>
  The persistent state (\<^verbatim>\<open>mermai_db\<close> in \<^verbatim>\<open>src/src/db/mermai_db.cpp\<close>) and the key-value store
  of the same file. Each table is an ordered map from its primary key to the other columns;
  integer columns hold what the \<^verbatim>\<open>sqlite3_bind_int\<close> calls make of the unsigned fields (signed
  numbers), text columns what \<^verbatim>\<open>bind_text\<close> makes of a string (the part before the first NUL),
  blobs the whole value. \<^verbatim>\<open>INSERT OR REPLACE\<close> deletes the rows it collides with, an
  \<^verbatim>\<open>INSERT\<close> that collides fails, an upsert overwrites. The clock read by
  \<^verbatim>\<open>mermai_transaction::verify\<close> is the argument \<open>now\<close>.
\<close>

section \<open>Tables\<close>

record block_row =
  row_height :: int
  row_previous_hash :: string
  row_block_timestamp :: int
  row_block :: string

record tx_row =
  row_block_hash :: "string option"
  row_tx :: string
  row_timestamp :: int

record utxo_row =
  row_address :: string
  row_amount :: int

record account_row =
  row_balance :: int
  row_nonce :: int
  row_last_activity :: int

record validator_row =
  row_stake :: int
  row_lock_time :: int
  row_last_proposal :: int
  row_weight :: rat
  row_public_key :: bytes

record db_tables =
  blocks_table :: "(string, block_row) omap"
  transactions_table :: "(string, tx_row) omap"
  utxos_table :: "(string \<times> int, utxo_row) omap"
  accounts_table :: "(string, account_row) omap"
  validators_table :: "(string, validator_row) omap"
  storage_table :: "(string \<times> string, bytes) omap"
  contracts_table :: "(string, bytes) omap"
  mempool_table :: "(string, tx_row) omap"
  state_roots_table :: "(int, string) omap"

record mermai_db = "db_tables connection" +
  db_connection :: bool

definition empty_tables :: db_tables where
  "empty_tables = \<lparr>blocks_table = [], transactions_table = [], utxos_table = [], accounts_table = [],
     validators_table = [], storage_table = [], contracts_table = [], mempool_table = [], state_roots_table = []\<rparr>"

text \<open>\<^verbatim>\<open>mermai_db(path)\<close> on a file that holds \<open>file_schema\<close> and \<open>file_tables\<close>.\<close>

definition new_db :: "string list \<Rightarrow> db_tables \<Rightarrow> sqlite_fault list \<Rightarrow> mermai_db" where
  "new_db file_schema file_tables fs =
     \<lparr>schema = file_schema, tables = file_tables, saved = None, faults = fs, db_connection = False\<rparr>"

text \<open>\<^verbatim>\<open>bind_text\<close> passes \<^verbatim>\<open>c_str()\<close> with length -1: the text ends at the first NUL.\<close>

definition c_str :: "string \<Rightarrow> string" where
  "c_str s = takeWhile (\<lambda>c. c \<noteq> CHR 0x00) s"

section \<open>Opening\<close>

definition create_table :: "string list \<Rightarrow> mermai_db \<Rightarrow> bool \<times> mermai_db" where
  "create_table names db =
     (case update [] (\<lambda>t. t) db of
        (ok, db') \<Rightarrow> (ok, if ok \<and> hd names \<notin> set (schema db') then db'\<lparr>schema := schema db' @ names\<rparr> else db'))"

definition has_column :: "string \<Rightarrow> mermai_db \<Rightarrow> bool \<times> mermai_db" where
  "has_column name db =
     (case query [] (\<lambda>t. name \<in> set (schema db)) db of (r, db') \<Rightarrow> (done_or False r, db'))"

definition add_public_key_column :: "mermai_db \<Rightarrow> bool \<times> mermai_db" where
  "add_public_key_column db =
     (case update [''validators''] (\<lambda>t. t\<lparr>validators_table :=
             map (\<lambda>(a, r). (a, r\<lparr>row_public_key := []\<rparr>)) (validators_table t)\<rparr>) db of
        (ok, db') \<Rightarrow> (ok, if ok then db'\<lparr>schema := schema db' @ [''validators.public_key'']\<rparr> else db'))"

fun exec_all :: "(mermai_db \<Rightarrow> bool \<times> mermai_db) list \<Rightarrow> mermai_db \<Rightarrow> bool \<times> mermai_db" where
  "exec_all [] db = (True, db)"
| "exec_all (f # fs) db = (case f db of (ok, db') \<Rightarrow> if ok then exec_all fs db' else (False, db'))"

definition schema_statements :: "(mermai_db \<Rightarrow> bool \<times> mermai_db) list" where
  "schema_statements =
     [update [] (\<lambda>t. t),
      create_table [''blocks''], create_table [''transactions''], create_table [''utxos''],
      update [''utxos''] (\<lambda>t. t),
      create_table [''accounts''], create_table [''validators'', ''validators.public_key''],
      create_table [''contract_storage''], create_table [''contracts''], create_table [''mempool''],
      create_table [''state_roots'']]"

definition db_initialize :: "bool \<Rightarrow> mermai_db \<Rightarrow> bool \<times> mermai_db" where
  "db_initialize opened db =
     (let db1 = db\<lparr>db_connection := opened\<rparr>
      in if \<not> opened then (False, db1)
         else case exec_all schema_statements db1 of
                (ok, db2) \<Rightarrow> if \<not> ok then (False, db2)
                  else case has_column ''validators.public_key'' db2 of
                         (found, db3) \<Rightarrow> if found then (True, db3) else add_public_key_column db3)"

section \<open>Transactions\<close>

definition new_tx_row :: "mermai_transaction \<Rightarrow> tx_row" where
  "new_tx_row tx = \<lparr>row_block_hash = None, row_tx = serialize_tx tx, row_timestamp = sint (tx_timestamp tx)\<rparr>"

definition save_transaction :: "'k openssl \<Rightarrow> mermai_transaction \<Rightarrow> mermai_db \<Rightarrow> bool \<times> mermai_db" where
  "save_transaction ossl tx db =
     (if \<not> db_connection db then (False, db)
      else update [''transactions''] (\<lambda>t. t\<lparr>transactions_table :=
             omap_put (c_str (effective_id ossl tx)) (new_tx_row tx) (transactions_table t)\<rparr>) db)"

text \<open>A blob read back: an empty one, or one that does not decode, is ignored.\<close>

definition decode_blob :: "(string \<Rightarrow> 'a result) \<Rightarrow> string \<Rightarrow> 'a option" where
  "decode_blob decode blob =
     (if blob = [] then None else case decode blob of Inl _ \<Rightarrow> None | Inr x \<Rightarrow> Some x)"

definition load_transaction ::
  "string \<Rightarrow> (db_tables \<Rightarrow> (string, tx_row) omap) \<Rightarrow> string \<Rightarrow> mermai_db \<Rightarrow> mermai_transaction \<times> mermai_db" where
  "load_transaction name table tid db =
     (case query [name] (\<lambda>t. omap_find (table t) (c_str tid)) db of
        (Done (Some r), db') \<Rightarrow>
          (case decode_blob deserialize_tx (row_tx r) of Some tx \<Rightarrow> tx | None \<Rightarrow> default_transaction, db')
      | (_, db') \<Rightarrow> (default_transaction, db'))"

definition db_get_transaction :: "string \<Rightarrow> mermai_db \<Rightarrow> mermai_transaction \<times> mermai_db" where
  "db_get_transaction tid db =
     (if \<not> db_connection db then (default_transaction, db)
      else case load_transaction ''transactions'' transactions_table tid db of
             (tx, db') \<Rightarrow> if tx_id tx \<noteq> [] then (tx, db')
               else load_transaction ''mempool'' mempool_table tid db')"

definition decode_rows :: "(string \<Rightarrow> 'a result) \<Rightarrow> string list \<Rightarrow> 'a list" where
  "decode_rows decode blobs = List.map_filter (decode_blob decode) blobs"

definition by_time :: "(string, tx_row) omap \<Rightarrow> (string, tx_row) omap" where
  "by_time rows = sort_key (\<lambda>(tid, r). (row_timestamp r, tid)) rows"

definition get_transactions_in_block :: "string \<Rightarrow> mermai_db \<Rightarrow> mermai_transaction list \<times> mermai_db" where
  "get_transactions_in_block block_hash db =
     (if \<not> db_connection db then ([], db)
      else case query [''transactions''] (\<lambda>t. map (row_tx \<circ> snd)
                  (by_time (filter (\<lambda>(tid, r). row_block_hash r = Some (c_str block_hash)) (transactions_table t)))) db of
             (r, db') \<Rightarrow> (decode_rows deserialize_tx (done_or [] r), db'))"

section \<open>Blocks\<close>

definition insert_block_row :: "string \<Rightarrow> block_row \<Rightarrow> db_tables \<Rightarrow> db_tables" where
  "insert_block_row h row t =
     t\<lparr>blocks_table := omap_put (c_str h) row (filter (\<lambda>(k, r). row_height r \<noteq> row_height row) (blocks_table t))\<rparr>"

definition new_block_row :: "mermai_block \<Rightarrow> block_row" where
  "new_block_row b =
     \<lparr>row_height = sint (height b), row_previous_hash = c_str (prev_block_hash b),
      row_block_timestamp = sint (blk_timestamp b), row_block = serialize_block b\<rparr>"

definition set_block_hash :: "string \<Rightarrow> string \<Rightarrow> mermai_db \<Rightarrow> bool \<times> mermai_db" where
  "set_block_hash h tid db =
     update [''transactions''] (\<lambda>t. t\<lparr>transactions_table :=
       map (\<lambda>(k, r). (k, if k = c_str tid then r\<lparr>row_block_hash := Some (c_str h)\<rparr> else r)) (transactions_table t)\<rparr>) db"

fun save_block_txs :: "'k openssl \<Rightarrow> string \<Rightarrow> bool \<Rightarrow> mermai_transaction list \<Rightarrow> mermai_db \<Rightarrow> bool \<times> mermai_db" where
  "save_block_txs ossl h result [] db = (result, db)"
| "save_block_txs ossl h result (tx # txs) db =
     (case save_transaction ossl tx db of
        (saved_tx, db1) \<Rightarrow>
          (case set_block_hash h (effective_id ossl tx) db1 of
             (linked, db2) \<Rightarrow> save_block_txs ossl h (linked \<and> saved_tx \<and> result) txs db2))"

definition save_block :: "'k openssl \<Rightarrow> mermai_block option \<Rightarrow> mermai_db \<Rightarrow> bool \<times> mermai_db" where
  "save_block ossl block db =
     (case block of
        None \<Rightarrow> (False, db)
      | Some b \<Rightarrow>
          if \<not> db_connection db then (False, db)
          else let h = block_hash_hex ossl b
            in case run [''blocks''] (\<lambda>t. Some ((), insert_block_row h (new_block_row b) t)) db of
                 (Not_prepared, db') \<Rightarrow> (False, db')
               | (r, db') \<Rightarrow> save_block_txs ossl h (r = Done ()) (transactions b) db')"

definition get_block_by_hash :: "string \<Rightarrow> mermai_db \<Rightarrow> mermai_block option \<times> mermai_db" where
  "get_block_by_hash h db =
     (if \<not> db_connection db then (None, db)
      else case query [''blocks''] (\<lambda>t. map_option row_block (omap_find (blocks_table t) (c_str h))) db of
             (r, db') \<Rightarrow> (Option.bind (done_or None r) (decode_blob deserialize_block), db'))"

definition get_block_by_height :: "u32 \<Rightarrow> mermai_db \<Rightarrow> mermai_block option \<times> mermai_db" where
  "get_block_by_height h db =
     (if \<not> db_connection db then (None, db)
      else case query [''blocks''] (\<lambda>t. map_option (row_block \<circ> snd)
                  (find (\<lambda>(k, r). row_height r = sint h) (blocks_table t))) db of
             (r, db') \<Rightarrow> (Option.bind (done_or None r) (decode_blob deserialize_block), db'))"

definition get_latest_block_height :: "mermai_db \<Rightarrow> u32 \<times> mermai_db" where
  "get_latest_block_height db =
     (if \<not> db_connection db then (0, db)
      else case query [''blocks''] (\<lambda>t. if blocks_table t = [] then 0
                  else Max (set (map (row_height \<circ> snd) (blocks_table t)))) db of
             (r, db') \<Rightarrow> (word_of_int (done_or 0 r), db'))"

section \<open>Unspent outputs\<close>

record UnspentOutput =
  uo_tx_id :: string
  uo_index :: u32
  uo_address :: string
  uo_amount :: u64

definition no_output :: UnspentOutput where
  "no_output = \<lparr>uo_tx_id = [], uo_index = 0, uo_address = [], uo_amount = 0\<rparr>"

text \<open>The primary key and the CHECK on the amount: \<open>None\<close> where SQLite refuses the row.\<close>

definition insert_utxo :: "UnspentOutput \<Rightarrow> db_tables \<Rightarrow> (unit \<times> db_tables) option" where
  "insert_utxo out t =
     (let key = (c_str (uo_tx_id out), sint (uo_index out)); amount = sint (uo_amount out)
      in if \<not> amount > 0 \<or> omap_find (utxos_table t) key \<noteq> None then None
         else Some ((), t\<lparr>utxos_table := omap_put key
                \<lparr>row_address = c_str (uo_address out), row_amount = amount\<rparr> (utxos_table t)\<rparr>))"

definition save_unspent_output :: "UnspentOutput \<Rightarrow> mermai_db \<Rightarrow> bool \<times> mermai_db" where
  "save_unspent_output out db =
     (if \<not> db_connection db \<or> uo_tx_id out = [] \<or> uo_address out = [] \<or> uo_amount out = 0 then (False, db)
      else case run [''utxos''] (insert_utxo out) db of (r, db') \<Rightarrow> (r = Done (), db'))"

definition find_utxo :: "string \<Rightarrow> u32 \<Rightarrow> db_tables \<Rightarrow> utxo_row option" where
  "find_utxo tid output_index t = omap_find (utxos_table t) (c_str tid, sint output_index)"

definition get_unspent_output :: "string \<Rightarrow> u32 \<Rightarrow> mermai_db \<Rightarrow> (bool \<times> UnspentOutput) \<times> mermai_db" where
  "get_unspent_output tid output_index db =
     (if \<not> db_connection db then ((False, no_output), db)
      else case query [''utxos''] (find_utxo tid output_index) db of
             (Done (Some r), db') \<Rightarrow>
               ((True, \<lparr>uo_tx_id = tid, uo_index = output_index, uo_address = row_address r,
                        uo_amount = word_of_int (row_amount r)\<rparr>), db')
           | (_, db') \<Rightarrow> ((False, no_output), db'))"

definition delete_utxo :: "string \<Rightarrow> u32 \<Rightarrow> db_tables \<Rightarrow> (nat \<times> db_tables) option" where
  "delete_utxo tid output_index t =
     Some (if find_utxo tid output_index t = None then 0 else 1,
           t\<lparr>utxos_table := omap_erase (c_str tid, sint output_index) (utxos_table t)\<rparr>)"

definition spend_unspent_output :: "string \<Rightarrow> u32 \<Rightarrow> mermai_db \<Rightarrow> bool \<times> mermai_db" where
  "spend_unspent_output tid output_index db =
     (if \<not> db_connection db then (False, db)
      else case run [''utxos''] (delete_utxo tid output_index) db of (r, db') \<Rightarrow> (r = Done 1, db'))"

text \<open>The address of a key: malformed keys, and keys with bytes left over, have none.\<close>

definition address_from_public_key :: "'k openssl \<Rightarrow> bytes \<Rightarrow> string" where
  "address_from_public_key ossl public_key =
     (if public_key = [] then []
      else case d2i_PUBKEY ossl public_key of
             None \<Rightarrow> []
           | Some (_, consumed) \<Rightarrow>
               if consumed \<noteq> length public_key then []
               else ''mrm1'' @ hex_encode (take 20 (SHA256 ossl public_key)))"

fun sum_outputs :: "u64 \<Rightarrow> mermai_tx_output list \<Rightarrow> u64 option" where
  "sum_outputs outputs_total [] = Some outputs_total"
| "sum_outputs outputs_total (out # outs) =
     (if out_amount out > - 1 - outputs_total then None
      else sum_outputs (outputs_total + out_amount out) outs)"

fun sum_inputs :: "'k openssl \<Rightarrow> u64 \<Rightarrow> mermai_tx_input list \<Rightarrow> mermai_db \<Rightarrow> u64 option \<times> mermai_db" where
  "sum_inputs ossl inputs_total [] db = (Some inputs_total, db)"
| "sum_inputs ossl inputs_total (i # is) db =
     (case query [''utxos''] (find_utxo (prev_tx_hash i) (prev_output_idx i)) db of
        (Done (Some r), db') \<Rightarrow>
          let amount = word_of_int (row_amount r) :: u64
          in if row_address r = [] \<or> address_from_public_key ossl (in_public_key i) \<noteq> row_address r \<or>
                amount > - 1 - inputs_total then (None, db')
             else sum_inputs ossl (inputs_total + amount) is db'
      | (_, db') \<Rightarrow> (None, db'))"

definition validate_transaction_inputs ::
  "'k openssl \<Rightarrow> u64 \<Rightarrow> mermai_transaction \<Rightarrow> mermai_db \<Rightarrow> bool \<times> mermai_db" where
  "validate_transaction_inputs ossl now tx db =
     (if \<not> db_connection db \<or> \<not> tx_verify ossl now tx then (False, db)
      else case sum_outputs (fee tx) (outputs tx) of
             None \<Rightarrow> (False, db)
           | Some outputs_total \<Rightarrow>
               (case sum_inputs ossl 0 (inputs tx) db of
                  (None, db') \<Rightarrow> (False, db')
                | (Some inputs_total, db') \<Rightarrow> (inputs_total = outputs_total, db')))"

section \<open>The persisted transaction pool\<close>

definition db_add_to_mempool :: "'k openssl \<Rightarrow> mermai_transaction \<Rightarrow> mermai_db \<Rightarrow> bool \<times> mermai_db" where
  "db_add_to_mempool ossl tx db =
     (if \<not> db_connection db then (False, db)
      else update [''mempool''] (\<lambda>t. t\<lparr>mempool_table :=
             omap_put (c_str (effective_id ossl tx)) (new_tx_row tx) (mempool_table t)\<rparr>) db)"

definition remove_from_mempool :: "string \<Rightarrow> mermai_db \<Rightarrow> bool \<times> mermai_db" where
  "remove_from_mempool tid db =
     (if \<not> db_connection db then (False, db)
      else update [''mempool''] (\<lambda>t. t\<lparr>mempool_table := omap_erase (c_str tid) (mempool_table t)\<rparr>) db)"

text \<open>\<^verbatim>\<open>LIMIT ?\<close> with a negative number is no limit.\<close>

definition sql_limit :: "u32 \<Rightarrow> 'a list \<Rightarrow> 'a list" where
  "sql_limit n xs = (if sint n < 0 then xs else take (nat (sint n)) xs)"

definition get_mempool :: "u32 \<Rightarrow> mermai_db \<Rightarrow> mermai_transaction list \<times> mermai_db" where
  "get_mempool max_count db =
     (if \<not> db_connection db then ([], db)
      else case query [''mempool''] (\<lambda>t. sql_limit max_count (map (row_tx \<circ> snd) (by_time (mempool_table t)))) db of
             (r, db') \<Rightarrow> (decode_rows deserialize_tx (done_or [] r), db'))"

definition clear_mempool :: "mermai_db \<Rightarrow> mermai_db" where
  "clear_mempool db =
     (if db_connection db then snd (update [''mempool''] (\<lambda>t. t\<lparr>mempool_table := []\<rparr>) db) else db)"

section \<open>Applying a block\<close>

fun spend_inputs :: "mermai_tx_input list \<Rightarrow> mermai_db \<Rightarrow> bool \<times> mermai_db" where
  "spend_inputs [] db = (True, db)"
| "spend_inputs (i # is) db =
     (case spend_unspent_output (prev_tx_hash i) (prev_output_idx i) db of
        (spent, db') \<Rightarrow> if \<not> spent then (False, db') else spend_inputs is db')"

fun create_outputs :: "string \<Rightarrow> u32 \<Rightarrow> mermai_tx_output list \<Rightarrow> mermai_db \<Rightarrow> bool \<times> mermai_db" where
  "create_outputs tid index [] db = (True, db)"
| "create_outputs tid index (out # outs) db =
     (case save_unspent_output
             \<lparr>uo_tx_id = tid, uo_index = index, uo_address = out_address out, uo_amount = out_amount out\<rparr> db of
        (created, db') \<Rightarrow> if \<not> created then (False, db') else create_outputs tid (index + 1) outs db')"

definition apply_transaction :: "'k openssl \<Rightarrow> u64 \<Rightarrow> mermai_transaction \<Rightarrow> mermai_db \<Rightarrow> bool \<times> mermai_db" where
  "apply_transaction ossl now tx db =
     (let tid = effective_id ossl tx;
          (spent, db1) =
            (if inputs tx = [] then (True, db)
             else case validate_transaction_inputs ossl now tx db of
                    (valid, db') \<Rightarrow> if \<not> valid then (False, db') else spend_inputs (inputs tx) db')
      in if \<not> spent then (False, db1)
         else case create_outputs tid 0 (outputs tx) db1 of
                (created, db2) \<Rightarrow> if \<not> created then (False, db2)
                  else (True, snd (remove_from_mempool tid db2)))"

fun apply_transactions :: "'k openssl \<Rightarrow> u64 \<Rightarrow> mermai_transaction list \<Rightarrow> mermai_db \<Rightarrow> bool \<times> mermai_db" where
  "apply_transactions ossl now [] db = (True, db)"
| "apply_transactions ossl now (tx # txs) db =
     (case apply_transaction ossl now tx db of
        (ok, db') \<Rightarrow> if \<not> ok then (False, db') else apply_transactions ossl now txs db')"

definition apply_block :: "'k openssl \<Rightarrow> u64 \<Rightarrow> mermai_block option \<Rightarrow> mermai_db \<Rightarrow> bool \<times> mermai_db" where
  "apply_block ossl now block db =
     (case block of
        None \<Rightarrow> (False, db)
      | Some b \<Rightarrow>
          if \<not> db_connection db then (False, db)
          else case exec_begin db of
            (begun, db1) \<Rightarrow> if \<not> begun then (False, db1)
              else case apply_transactions ossl now (transactions b) db1 of
                (applied, db2) \<Rightarrow>
                  let (result, db3) = (if applied then save_block ossl (Some b) db2 else (False, db2));
                      (ended, db4) = (if result then exec_commit db3 else exec_rollback db3)
                  in (result \<and> ended, db4))"

section \<open>Accounts\<close>

record Account =
  acc_address :: string
  acc_balance :: u64
  acc_nonce :: u32
  acc_last_activity :: u64

definition save_account :: "Account \<Rightarrow> mermai_db \<Rightarrow> bool \<times> mermai_db" where
  "save_account account db =
     (if \<not> db_connection db then (False, db)
      else update [''accounts''] (\<lambda>t. t\<lparr>accounts_table := omap_put (c_str (acc_address account))
             \<lparr>row_balance = sint (acc_balance account), row_nonce = sint (acc_nonce account),
              row_last_activity = sint (acc_last_activity account)\<rparr> (accounts_table t)\<rparr>) db)"

definition get_account :: "string \<Rightarrow> mermai_db \<Rightarrow> Account \<times> mermai_db" where
  "get_account address db =
     (let none = \<lparr>acc_address = address, acc_balance = 0, acc_nonce = 0, acc_last_activity = 0\<rparr>
      in if \<not> db_connection db then (none, db)
         else case query [''accounts''] (\<lambda>t. omap_find (accounts_table t) (c_str address)) db of
                (Done (Some r), db') \<Rightarrow>
                  (none\<lparr>acc_balance := word_of_int (row_balance r), acc_nonce := word_of_int (row_nonce r),
                        acc_last_activity := word_of_int (row_last_activity r)\<rparr>, db')
              | (_, db') \<Rightarrow> (none, db'))"

definition update_row :: "'k \<Rightarrow> ('v \<Rightarrow> 'v) \<Rightarrow> ('k, 'v) omap \<Rightarrow> ('k, 'v) omap" where
  "update_row k f m = map (\<lambda>(a, r). (a, if a = k then f r else r)) m"

definition update_balance :: "string \<Rightarrow> u64 \<Rightarrow> mermai_db \<Rightarrow> bool \<times> mermai_db" where
  "update_balance address new_balance db =
     (if \<not> db_connection db then (False, db)
      else update [''accounts''] (\<lambda>t. t\<lparr>accounts_table :=
             update_row (c_str address) (\<lambda>r. r\<lparr>row_balance := sint new_balance\<rparr>) (accounts_table t)\<rparr>) db)"

definition increment_nonce :: "string \<Rightarrow> mermai_db \<Rightarrow> bool \<times> mermai_db" where
  "increment_nonce address db =
     (if \<not> db_connection db then (False, db)
      else update [''accounts''] (\<lambda>t. t\<lparr>accounts_table :=
             update_row (c_str address) (\<lambda>r. r\<lparr>row_nonce := row_nonce r + 1\<rparr>) (accounts_table t)\<rparr>) db)"

section \<open>Validators\<close>

definition save_validator :: "mermai_validator_stake \<Rightarrow> mermai_db \<Rightarrow> bool \<times> mermai_db" where
  "save_validator stake db =
     (if \<not> db_connection db then (False, db)
      else update [''validators'', ''validators.public_key''] (\<lambda>t. t\<lparr>validators_table := omap_put (c_str (v_address stake))
             \<lparr>row_stake = sint (v_amount stake), row_lock_time = sint (lock_time stake),
              row_last_proposal = sint (last_proposal stake), row_weight = v_weight stake,
              row_public_key = v_public_key stake\<rparr> (validators_table t)\<rparr>) db)"

definition validator_of_row :: "string \<Rightarrow> validator_row \<Rightarrow> mermai_validator_stake" where
  "validator_of_row address r =
     \<lparr>v_address = address, v_amount = word_of_int (row_stake r), lock_time = word_of_int (row_lock_time r),
      last_proposal = word_of_int (row_last_proposal r), v_weight = f32 (row_weight r), v_public_key = row_public_key r\<rparr>"

definition get_validator :: "string \<Rightarrow> mermai_db \<Rightarrow> mermai_validator_stake \<times> mermai_db" where
  "get_validator address db =
     (let none = \<lparr>v_address = address, v_amount = 0, lock_time = 0, last_proposal = 0, v_weight = 0, v_public_key = []\<rparr>
      in if \<not> db_connection db then (none, db)
         else case query [''validators'', ''validators.public_key'']
                     (\<lambda>t. omap_find (validators_table t) (c_str address)) db of
                (Done (Some r), db') \<Rightarrow> (validator_of_row address r, db')
              | (_, db') \<Rightarrow> (none, db'))"

definition get_all_validators :: "mermai_db \<Rightarrow> mermai_validator_stake list \<times> mermai_db" where
  "get_all_validators db =
     (if \<not> db_connection db then ([], db)
      else case query [''validators'', ''validators.public_key'']
                  (\<lambda>t. map (\<lambda>(a, r). validator_of_row a r) (validators_table t)) db of
             (r, db') \<Rightarrow> (done_or [] r, db'))"

definition update_validator_stake :: "string \<Rightarrow> u64 \<Rightarrow> mermai_db \<Rightarrow> bool \<times> mermai_db" where
  "update_validator_stake address new_stake db =
     (if \<not> db_connection db then (False, db)
      else update [''validators''] (\<lambda>t. t\<lparr>validators_table :=
             update_row (c_str address) (\<lambda>r. r\<lparr>row_stake := sint new_stake\<rparr>) (validators_table t)\<rparr>) db)"

definition db_remove_validator :: "string \<Rightarrow> mermai_db \<Rightarrow> bool \<times> mermai_db" where
  "db_remove_validator address db =
     (if \<not> db_connection db then (False, db)
      else update [''validators''] (\<lambda>t. t\<lparr>validators_table := omap_erase (c_str address) (validators_table t)\<rparr>) db)"

section \<open>Contracts\<close>

definition save_contract_storage :: "string \<Rightarrow> string \<Rightarrow> bytes \<Rightarrow> mermai_db \<Rightarrow> bool \<times> mermai_db" where
  "save_contract_storage addr key v db =
     (if \<not> db_connection db then (False, db)
      else update [''contract_storage''] (\<lambda>t. t\<lparr>storage_table :=
             omap_put (c_str addr, c_str key) v (storage_table t)\<rparr>) db)"

definition get_contract_storage :: "string \<Rightarrow> string \<Rightarrow> mermai_db \<Rightarrow> bytes \<times> mermai_db" where
  "get_contract_storage addr key db =
     (if \<not> db_connection db then ([], db)
      else case query [''contract_storage''] (\<lambda>t. omap_at [] (c_str addr, c_str key) (storage_table t)) db of
             (r, db') \<Rightarrow> (done_or [] r, db'))"

definition get_contract_all_storage :: "string \<Rightarrow> mermai_db \<Rightarrow> (string, bytes) omap \<times> mermai_db" where
  "get_contract_all_storage addr db =
     (if \<not> db_connection db then ([], db)
      else case query [''contract_storage''] (\<lambda>t. filter (\<lambda>((a, k), v). a = c_str addr) (storage_table t)) db of
             (r, db') \<Rightarrow> (foldl (\<lambda>m ((a, k), v). omap_put k v m) [] (done_or [] r), db'))"

definition save_contract_code :: "string \<Rightarrow> bytes \<Rightarrow> mermai_db \<Rightarrow> bool \<times> mermai_db" where
  "save_contract_code addr code db =
     (if \<not> db_connection db \<or> addr = [] \<or> code = [] then (False, db)
      else update [''contracts''] (\<lambda>t. t\<lparr>contracts_table := omap_put (c_str addr) code (contracts_table t)\<rparr>) db)"

definition get_contract_code :: "string \<Rightarrow> mermai_db \<Rightarrow> bytes \<times> mermai_db" where
  "get_contract_code addr db =
     (if \<not> db_connection db then ([], db)
      else case query [''contracts''] (\<lambda>t. omap_at [] (c_str addr) (contracts_table t)) db of
             (r, db') \<Rightarrow> (done_or [] r, db'))"

section \<open>History, state roots and maintenance\<close>

definition belongs_to_account :: "'k openssl \<Rightarrow> string \<Rightarrow> mermai_transaction \<Rightarrow> bool" where
  "belongs_to_account ossl address tx \<longleftrightarrow>
     list_ex (\<lambda>out. out_address out = address) (outputs tx) \<or>
     list_ex (\<lambda>i. in_public_key i \<noteq> [] \<and> address_from_public_key ossl (in_public_key i) = address) (inputs tx)"

fun collect_account :: "'k openssl \<Rightarrow> string \<Rightarrow> nat \<Rightarrow> string list \<Rightarrow> mermai_transaction list \<Rightarrow> mermai_transaction list" where
  "collect_account ossl address limit [] found = found"
| "collect_account ossl address limit (blob # blobs) found =
     (if length found \<ge> limit then found
      else collect_account ossl address limit blobs
             (case decode_blob deserialize_tx blob of
                Some tx \<Rightarrow> if belongs_to_account ossl address tx then found @ [tx] else found
              | None \<Rightarrow> found))"

definition get_account_transactions ::
  "'k openssl \<Rightarrow> string \<Rightarrow> u32 \<Rightarrow> mermai_db \<Rightarrow> mermai_transaction list \<times> mermai_db" where
  "get_account_transactions ossl address limit db =
     (if \<not> db_connection db then ([], db)
      else case query [''transactions''] (\<lambda>t. map (row_tx \<circ> snd) (rev (by_time (transactions_table t)))) db of
             (r, db') \<Rightarrow> (collect_account ossl address (unat limit) (done_or [] r) [], db'))"

definition save_state_root :: "u32 \<Rightarrow> string \<Rightarrow> mermai_db \<Rightarrow> bool \<times> mermai_db" where
  "save_state_root block_height state_root db =
     (if \<not> db_connection db then (False, db)
      else update [''state_roots''] (\<lambda>t. t\<lparr>state_roots_table :=
             omap_put (sint block_height) (c_str state_root) (state_roots_table t)\<rparr>) db)"

definition get_state_root :: "u32 \<Rightarrow> mermai_db \<Rightarrow> string \<times> mermai_db" where
  "get_state_root block_height db =
     (if \<not> db_connection db then ([], db)
      else case query [''state_roots''] (\<lambda>t. omap_at [] (sint block_height) (state_roots_table t)) db of
             (r, db') \<Rightarrow> (done_or [] r, db'))"

definition db_sync :: "mermai_db \<Rightarrow> bool \<times> mermai_db" where
  "db_sync db = (if \<not> db_connection db then (False, db) else update [] (\<lambda>t. t) db)"

section \<open>The key-value store\<close>

record mermai_key_value_store =
  store :: "(string, bytes) omap"

definition kv_set :: "string \<Rightarrow> bytes \<Rightarrow> mermai_key_value_store \<Rightarrow> bool \<times> mermai_key_value_store" where
  "kv_set key v s = (True, s\<lparr>store := omap_put key v (store s)\<rparr>)"

definition kv_get :: "string \<Rightarrow> mermai_key_value_store \<Rightarrow> bytes" where
  "kv_get key s = (case omap_find (store s) key of Some v \<Rightarrow> v | None \<Rightarrow> [])"

definition kv_exists :: "string \<Rightarrow> mermai_key_value_store \<Rightarrow> bool" where
  "kv_exists key s \<longleftrightarrow> omap_find (store s) key \<noteq> None"

definition kv_delete_key :: "string \<Rightarrow> mermai_key_value_store \<Rightarrow> bool \<times> mermai_key_value_store" where
  "kv_delete_key key s = (kv_exists key s, s\<lparr>store := omap_erase key (store s)\<rparr>)"

definition kv_clear :: "mermai_key_value_store \<Rightarrow> mermai_key_value_store" where
  "kv_clear s = s\<lparr>store := []\<rparr>"

interpretation kv_store: keyed_store
  "\<lambda>s. omap_find (store s)" "\<lambda>k v s. snd (kv_set k v s)" "\<lambda>k s. snd (kv_delete_key k s)"
  by unfold_locales (simp_all add: kv_set_def kv_delete_key_def)

section \<open>What is saved is found\<close>

lemma c_str_hex [simp]: "c_str (hex_encode bs) = hex_encode bs"
proof -
  have "c \<noteq> CHR 0x00" if "c \<in> set (hex_encode bs)" for c
  proof -
    from that obtain b where "c = hex_digit (unat (b :: byte) div 16) \<or> c = hex_digit (unat b mod 16)"
      by (auto simp: hex_encode_def hex_byte_def)
    then obtain n where "n < 16" "c = hex_digit n" using hex_byte_nibbles [of b] by blast
    then show ?thesis using hex_digit_nonzero [of n] by (auto simp: char_of_byte_def char_of_def)
  qed
  then show ?thesis by (simp add: c_str_def takeWhile_eq_all_conv)
qed

lemma c_str_hash [simp]: "c_str (block_hash_hex ossl b) = block_hash_hex ossl b"
  by (simp add: block_hash_hex_def)

lemma save_block_txs_keeps:
  assumes "no_faults db" "''transactions'' \<in> set (schema db)" "db_connection db"
  shows "blocks_table (tables (snd (save_block_txs ossl h r txs db))) = blocks_table (tables db) \<and>
    no_faults (snd (save_block_txs ossl h r txs db)) \<and>
    schema (snd (save_block_txs ossl h r txs db)) = schema db \<and> db_connection (snd (save_block_txs ossl h r txs db))"
  using assms
proof (induction txs arbitrary: r db)
  case (Cons tx txs)
  have "no_faults (db\<lparr>tables := t\<rparr>)" for t using Cons.prems(1) by (simp add: no_faults_def)
  with Cons show ?case by (simp add: save_transaction_def set_block_hash_def update_no_faults)
qed simp

lemma serialize_block_not_Nil [simp]: "serialize_block b \<noteq> []"
  by (simp add: serialize_block_def write_value_def)

text \<open>A block that was saved is found again, by its hash and by its height, as the same block,
  provided it is within the limits of the wire format.
\<close>

theorem saved_block_found:
  assumes "no_faults db" "list_all (\<lambda>n. n \<in> set (schema db)) [''blocks'', ''transactions'']" "db_connection db"
    and "block_ok b"
  shows "fst (get_block_by_hash (block_hash_hex ossl b) (snd (save_block ossl (Some b) db))) = Some b \<and>
    fst (get_block_by_height (height b) (snd (save_block ossl (Some b) db))) = Some b"
proof -
  have d: "deserialize_block (serialize_block b) = Inr b" using assms(4) by (simp add: deserialize_block_iff)
  let ?h = "block_hash_hex ossl b"
  let ?db = "db\<lparr>tables := insert_block_row ?h (new_block_row b) (tables db)\<rparr>"
  have nf: "no_faults ?db" using assms(1) by (simp add: no_faults_def)
  define db' where "db' = snd (save_block ossl (Some b) db)"
  have db': "db' = snd (save_block_txs ossl ?h True (transactions b) ?db)"
    using assms(1-3) by (simp add: db'_def save_block_def run_no_faults Let_def)
  from save_block_txs_keeps [OF nf, of ossl ?h True "transactions b"] assms(2,3)
  have k: "blocks_table (tables db') = blocks_table (tables ?db)" "no_faults db'" "schema db' = schema db" "db_connection db'"
    by (simp_all add: db')
  let ?m = "filter (\<lambda>(k, r). row_height r \<noteq> sint (height b)) (blocks_table (tables db))"
  have bt: "blocks_table (tables db') = omap_put ?h (new_block_row b) ?m"
    by (simp add: k insert_block_row_def new_block_row_def)
  have find: "find (\<lambda>(k, r). row_height r = sint (height b)) (omap_put ?h (new_block_row b) m) = Some (?h, new_block_row b)"
    if "\<forall>(k, r)\<in>set m. row_height r \<noteq> sint (height b)" for m
    using that by (induction m) (auto simp: new_block_row_def)
  have "fst (get_block_by_hash ?h db') = Some b"
    using k(2-4) assms(2) d by (simp add: get_block_by_hash_def query_no_faults bt done_or_def decode_blob_def new_block_row_def)
  moreover have "fst (get_block_by_height (height b) db') = Some b"
    using k(2-4) assms(2) d find [of ?m]
    by (simp add: get_block_by_height_def query_no_faults bt done_or_def decode_blob_def new_block_row_def)
  ultimately show ?thesis by (simp add: db'_def)
qed

theorem saved_block_found_witness:
  "fst (get_block_by_height 3 (snd (save_block toy_ossl (Some (new_block 5 3))
     \<lparr>schema = [''blocks'', ''transactions''], tables = empty_tables, saved = None, faults = [], db_connection = True\<rparr>)))
   = Some (new_block 5 3)"
  using saved_block_found [of "\<lparr>schema = [''blocks'', ''transactions''], tables = empty_tables, saved = None,
    faults = [], db_connection = True\<rparr>" "new_block 5 3" toy_ossl]
  by (simp add: no_faults_def block_ok_def new_block_def string_ok_def bytes_ok_def serial_limits)

text \<open>
  Keys of contract storage are bound as text, so everything from the first NUL on is ignored: two
  keys with the same prefix before it are the same row. The words the virtual machine uses as keys
  start with a zero byte as soon as they are small numbers.
\<close>

lemma storage_keys_alias:
  assumes "no_faults db" "''contract_storage'' \<in> set (schema db)" "db_connection db"
  shows "fst (get_contract_storage addr (CHR 0x00 # k2)
    (snd (save_contract_storage addr (CHR 0x00 # k1) v db))) = v"
proof -
  have "no_faults (db\<lparr>tables := t\<rparr>)" for t using assms(1) by (simp add: no_faults_def)
  with assms show ?thesis
    by (simp add: save_contract_storage_def get_contract_storage_def update_no_faults query_no_faults c_str_def done_or_def omap_at_def)
qed

end
