(* ===== verification/Mermai_Ledger.thy ===== *)
theory Mermai_Ledger
  imports Mermai_DB
begin

text \<open>
  What the database promises of the coins. The abstract specification is a ledger, a partial map
  from output keys to an address and an amount, with one rule for a transaction: it has no inputs
  (an issuance), or its inputs are different coins of the ledger that belong to the keys it presents
  and are worth exactly its outputs and its fee; the inputs disappear, and the outputs appear under
  keys that were free. \<^verbatim>\<open>apply_block\<close> refines this rule, accounts for the supply exactly, and, as
  long as SQLite does not end its transaction, changes nothing durable when it fails.
\<close>

section \<open>The abstract ledger\<close>

type_synonym ledger = "string \<times> int \<rightharpoonup> string \<times> nat"

definition coin_key :: "mermai_tx_input \<Rightarrow> string \<times> int" where
  "coin_key i = (c_str (prev_tx_hash i), sint (prev_output_idx i))"

definition new_coins :: "string \<Rightarrow> nat \<Rightarrow> mermai_tx_output list \<Rightarrow> ((string \<times> int) \<times> string \<times> nat) list" where
  "new_coins tid n outs =
     map (\<lambda>(j, out). ((c_str tid, sint (of_nat j :: u32)), c_str (out_address out), unat (out_amount out)))
       (zip [n..<n + length outs] outs)"

text \<open>One transaction, and the transactions of a block in order.\<close>

definition pays_for :: "'k openssl \<Rightarrow> mermai_transaction \<Rightarrow> ledger \<Rightarrow> bool" where
  "pays_for ossl tx L \<longleftrightarrow>
     distinct (map coin_key (inputs tx)) \<and>
     (\<forall>i\<in>set (inputs tx). \<exists>n. L (coin_key i) = Some (address_from_public_key ossl (in_public_key i), n)) \<and>
     (\<Sum>i\<leftarrow>inputs tx. snd (the (L (coin_key i)))) = unat (fee tx) + (\<Sum>out\<leftarrow>outputs tx. unat (out_amount out))"

definition ledger_tx :: "'k openssl \<Rightarrow> mermai_transaction \<Rightarrow> ledger \<Rightarrow> ledger \<Rightarrow> bool" where
  "ledger_tx ossl tx L L' \<longleftrightarrow>
     (let L1 = L |` (- coin_key ` set (inputs tx)); coins = new_coins (effective_id ossl tx) 0 (outputs tx)
      in (inputs tx = [] \<or> pays_for ossl tx L) \<and>
         distinct (map fst coins) \<and> fst ` set coins \<inter> dom L1 = {} \<and> L' = L1 ++ map_of coins)"

fun ledger_txs :: "'k openssl \<Rightarrow> mermai_transaction list \<Rightarrow> ledger \<Rightarrow> ledger \<Rightarrow> bool" where
  "ledger_txs ossl [] L L' \<longleftrightarrow> L' = L"
| "ledger_txs ossl (tx # txs) L L' \<longleftrightarrow> (\<exists>M. ledger_tx ossl tx L M \<and> ledger_txs ossl txs M L')"

text \<open>The ledger a table of unspent outputs stands for, and the supply it holds.\<close>

definition coin_of :: "utxo_row \<Rightarrow> string \<times> nat" where
  "coin_of r = (row_address r, nat (row_amount r))"

definition ledger_of :: "db_tables \<Rightarrow> ledger" where
  "ledger_of t = map_option coin_of \<circ> omap_find (utxos_table t)"

definition coin_supply :: "db_tables \<Rightarrow> nat" where
  "coin_supply t = omap_sum (\<lambda>r. nat (row_amount r)) (utxos_table t)"

definition utxos_ok :: "db_tables \<Rightarrow> bool" where
  "utxos_ok t \<longleftrightarrow> omap_ok (utxos_table t) \<and>
     (\<forall>r\<in>snd ` set (utxos_table t). 0 < row_amount r \<and> row_amount r < 2 ^ 63)"

section \<open>Statements of the database\<close>

lemma run_connection [simp]: "db_connection (snd (run needs f db)) = db_connection db"
  by (auto simp: run_def roll_back_def Let_def split: option.splits)

lemma run_connectionD: "run needs f db = (r, db') \<Longrightarrow> db_connection db' = db_connection db"
  using run_connection [of needs f db] by simp

text \<open>A step that leaves the transaction open and touches only part of the tables.\<close>

definition only_utxos :: "db_tables \<Rightarrow> db_tables \<Rightarrow> bool" where
  "only_utxos t t' \<longleftrightarrow> t'\<lparr>utxos_table := utxos_table t\<rparr> = t"

lemma spend_unspent_output_True:
  assumes "spend_unspent_output tid i db = (True, db')"
  shows "omap_find (utxos_table (tables db)) (c_str tid, sint i) \<noteq> None"
    and "tables db' = (tables db)\<lparr>utxos_table := omap_erase (c_str tid, sint i) (utxos_table (tables db))\<rparr>"
    and "db_connection db' = db_connection db"
proof -
  from assms have r: "run [''utxos''] (delete_utxo tid i) db = (Done 1, db')"
    by (auto simp: spend_unspent_output_def split: if_splits prod.splits)
  from run_Done(1) [OF r] show "omap_find (utxos_table (tables db)) (c_str tid, sint i) \<noteq> None"
    and "tables db' = (tables db)\<lparr>utxos_table := omap_erase (c_str tid, sint i) (utxos_table (tables db))\<rparr>"
    by (auto simp: delete_utxo_def find_utxo_def split: if_splits)
  show "db_connection db' = db_connection db" using run_connectionD [OF r] .
qed

lemma save_unspent_output_True:
  assumes "save_unspent_output out db = (True, db')"
  shows "omap_find (utxos_table (tables db)) (c_str (uo_tx_id out), sint (uo_index out)) = None"
    and "0 < sint (uo_amount out)"
    and "tables db' = (tables db)\<lparr>utxos_table := omap_put (c_str (uo_tx_id out), sint (uo_index out))
           \<lparr>row_address = c_str (uo_address out), row_amount = sint (uo_amount out)\<rparr> (utxos_table (tables db))\<rparr>"
    and "db_connection db' = db_connection db"
proof -
  from assms have r: "run [''utxos''] (insert_utxo out) db = (Done (), db')"
    by (auto simp: save_unspent_output_def split: if_splits prod.splits)
  from run_Done(1) [OF r]
  show "omap_find (utxos_table (tables db)) (c_str (uo_tx_id out), sint (uo_index out)) = None"
    and "0 < sint (uo_amount out)"
    and "tables db' = (tables db)\<lparr>utxos_table := omap_put (c_str (uo_tx_id out), sint (uo_index out))
           \<lparr>row_address = c_str (uo_address out), row_amount = sint (uo_amount out)\<rparr> (utxos_table (tables db))\<rparr>"
    by (auto simp: insert_utxo_def Let_def split: if_splits)
  show "db_connection db' = db_connection db" using run_connectionD [OF r] .
qed

text \<open>Every database operation used by \<^verbatim>\<open>apply_block\<close> keeps the transaction open.\<close>

lemma spend_unspent_output_open: "never_aborts db \<Longrightarrow> stays_open db (snd (spend_unspent_output tid i db))"
  using run_stays_open [of db "[''utxos'']" "delete_utxo tid i"]
  by (simp add: spend_unspent_output_def case_prod_beta)

lemma save_unspent_output_open: "never_aborts db \<Longrightarrow> stays_open db (snd (save_unspent_output out db))"
  using run_stays_open [of db "[''utxos'']" "insert_utxo out"]
  by (simp add: save_unspent_output_def case_prod_beta)

lemma remove_from_mempool_open: "never_aborts db \<Longrightarrow> stays_open db (snd (remove_from_mempool tid db))"
  using update_stays_open [of db] by (simp add: remove_from_mempool_def)

lemma spend_inputs_open: "never_aborts db \<Longrightarrow> stays_open db (snd (spend_inputs is db))"
proof (induction "is" arbitrary: db)
  case (Cons i "is")
  let ?s = "spend_unspent_output (prev_tx_hash i) (prev_output_idx i) db"
  note o = spend_unspent_output_open [OF Cons.prems, of "prev_tx_hash i" "prev_output_idx i"]
  from Cons.IH [OF stays_open_aborts [OF o Cons.prems]] o show ?case
    by (auto simp: case_prod_beta intro: stays_open_trans)
qed simp

lemma create_outputs_open: "never_aborts db \<Longrightarrow> stays_open db (snd (create_outputs tid n outs db))"
proof (induction outs arbitrary: n db)
  case (Cons out outs)
  note o = save_unspent_output_open [OF Cons.prems,
      of "\<lparr>uo_tx_id = tid, uo_index = n, uo_address = out_address out, uo_amount = out_amount out\<rparr>"]
  from Cons.IH [OF stays_open_aborts [OF o Cons.prems]] o show ?case
    by (auto simp: case_prod_beta intro: stays_open_trans)
qed simp

lemma sum_inputs_open: "never_aborts db \<Longrightarrow> stays_open db (snd (sum_inputs ossl acc is db))"
proof (induction "is" arbitrary: acc db)
  case (Cons i "is")
  note o = query_stays_open [OF Cons.prems, of "[''utxos'']" "find_utxo (prev_tx_hash i) (prev_output_idx i)"]
  from Cons.IH [OF stays_open_aborts [OF o Cons.prems]] o show ?case
    by (auto simp: Let_def split: prod.splits outcome.splits option.splits intro: stays_open_trans)
qed simp

lemma validate_inputs_open: "never_aborts db \<Longrightarrow> stays_open db (snd (validate_transaction_inputs ossl now tx db))"
  using sum_inputs_open [of db ossl 0 "inputs tx"]
  by (auto simp: validate_transaction_inputs_def split: option.splits prod.splits)

section \<open>Amounts\<close>

lemma unat_word_of_pos:
  assumes "0 \<le> a" "a < 2 ^ 64"
  shows "unat (word_of_int a :: u64) = nat a"
  using assms by (simp add: unat_eq_nat_uint uint_word_of_int_eq take_bit_int_eq_self)

lemma nat_sint_pos:
  assumes "0 < sint (w :: u64)"
  shows "nat (sint w) = unat w" and "sint w < 2 ^ 63"
proof -
  show lt: "sint w < 2 ^ 63" using sint_lt [of w] by simp
  have "unat (word_of_int (sint w) :: u64) = nat (sint w)"
    using assms lt by (intro unat_word_of_pos) auto
  then show "nat (sint w) = unat w" by simp
qed

lemma u64_fits: "\<not> - 1 - t < (a :: u64) \<Longrightarrow> unat t + unat a < 2 ^ 64"
  using u64_room [of a t] by (simp add: not_less)

lemma sum_outputs_Some:
  "sum_outputs acc outs = Some n \<Longrightarrow> unat n = unat acc + (\<Sum>out\<leftarrow>outs. unat (out_amount out))"
proof (induction outs arbitrary: acc)
  case (Cons out outs)
  then have le: "\<not> - 1 - acc < out_amount out" and rest: "sum_outputs (acc + out_amount out) outs = Some n"
    by (auto split: if_splits)
  note room = u64_fits [OF le]
  from Cons.IH [OF rest] unat_add_room [OF room] show ?case by simp
qed simp

lemma utxos_ok_erase: "utxos_ok t \<Longrightarrow> utxos_ok (t\<lparr>utxos_table := omap_erase k (utxos_table t)\<rparr>)"
  by (auto simp: utxos_ok_def set_omap_erase)

lemma utxos_ok_put:
  "utxos_ok t \<Longrightarrow> 0 < row_amount r \<Longrightarrow> row_amount r < 2 ^ 63 \<Longrightarrow>
     utxos_ok (t\<lparr>utxos_table := omap_put k r (utxos_table t)\<rparr>)"
  by (auto simp: utxos_ok_def set_omap_put)

lemma utxos_ok_row:
  "utxos_ok t \<Longrightarrow> omap_find (utxos_table t) k = Some r \<Longrightarrow> 0 < row_amount r \<and> row_amount r < 2 ^ 63"
  by (auto simp: utxos_ok_def dest!: map_of_SomeD)

text \<open>Every input counted by \<open>sum_inputs\<close> is a coin of the presented key.\<close>

lemma sum_inputs_Some:
  assumes "sum_inputs ossl acc is db = (Some n, db')" "utxos_ok (tables db)"
  shows "tables db' = tables db \<and>
    (\<forall>i\<in>set is. \<exists>m. ledger_of (tables db) (coin_key i) = Some (address_from_public_key ossl (in_public_key i), m)) \<and>
    unat n = unat acc + (\<Sum>i\<leftarrow>is. snd (the (ledger_of (tables db) (coin_key i))))"
  using assms
proof (induction "is" arbitrary: acc db)
  case (Cons i "is")
  from Cons.prems(1) obtain r db1 where
      q: "query [''utxos''] (find_utxo (prev_tx_hash i) (prev_output_idx i)) db = (Done (Some r), db1)"
    and a: "address_from_public_key ossl (in_public_key i) = row_address r"
    and le: "\<not> - 1 - acc < (word_of_int (row_amount r) :: u64)"
    and rest: "sum_inputs ossl (acc + word_of_int (row_amount r)) is db1 = (Some n, db')"
    by (auto simp: Let_def split: prod.splits outcome.splits option.splits if_splits)
  note room = u64_fits [OF le]
  from query_Done [OF q] have f: "omap_find (utxos_table (tables db)) (coin_key i) = Some r"
    and t1: "tables db1 = tables db"
    by (auto simp: find_utxo_def coin_key_def)
  have "unat (word_of_int (row_amount r) :: u64) = nat (row_amount r)"
    using utxos_ok_row [OF Cons.prems(2) f] by (intro unat_word_of_pos) auto
  with Cons.IH [OF rest] Cons.prems(2) unat_add_room [OF room] t1 f a show ?case
    by (auto simp: ledger_of_def coin_of_def)
qed simp

lemma validate_inputs_True:
  assumes "validate_transaction_inputs ossl now tx db = (True, db')" "utxos_ok (tables db)"
  shows "tables db' = tables db \<and> tx_verify ossl now tx \<and>
    (\<forall>i\<in>set (inputs tx). \<exists>m. ledger_of (tables db) (coin_key i) = Some (address_from_public_key ossl (in_public_key i), m)) \<and>
    (\<Sum>i\<leftarrow>inputs tx. snd (the (ledger_of (tables db) (coin_key i)))) =
      unat (fee tx) + (\<Sum>out\<leftarrow>outputs tx. unat (out_amount out))"
proof -
  from assms(1) obtain n where v: "tx_verify ossl now tx" and o: "sum_outputs (fee tx) (outputs tx) = Some n"
    and i: "sum_inputs ossl 0 (inputs tx) db = (Some n, db')"
    by (auto simp: validate_transaction_inputs_def split: if_splits option.splits prod.splits)
  from sum_inputs_Some [OF i assms(2)] sum_outputs_Some [OF o] v show ?thesis by auto
qed

section \<open>Spending and creating coins\<close>

lemma ledger_of_erase:
  "ledger_of (t\<lparr>utxos_table := omap_erase k (utxos_table t)\<rparr>) = (ledger_of t)(k := None)"
  by (auto simp: ledger_of_def fun_eq_iff)

lemma ledger_of_put:
  "ledger_of (t\<lparr>utxos_table := omap_put k r (utxos_table t)\<rparr>) = (ledger_of t)(k \<mapsto> coin_of r)"
  by (auto simp: ledger_of_def fun_eq_iff)

lemma coin_supply_erase:
  assumes "utxos_ok t" "ledger_of t k = Some c"
  shows "coin_supply (t\<lparr>utxos_table := omap_erase k (utxos_table t)\<rparr>) + snd c = coin_supply t"
  using omap_sum_erase [of "utxos_table t" "\<lambda>r. nat (row_amount r)" k] assms
  by (auto simp: coin_supply_def utxos_ok_def ledger_of_def coin_of_def)

lemma coin_supply_put:
  assumes "utxos_ok t" "ledger_of t k = None"
  shows "coin_supply (t\<lparr>utxos_table := omap_put k r (utxos_table t)\<rparr>) = coin_supply t + nat (row_amount r)"
  using omap_sum_put [of "utxos_table t" "\<lambda>r. nat (row_amount r)" k r] assms
  by (auto simp: coin_supply_def utxos_ok_def ledger_of_def)

lemma spend_inputs_True:
  assumes "spend_inputs is db = (True, db')" "utxos_ok (tables db)"
  shows "distinct (map coin_key is) \<and> coin_key ` set is \<subseteq> dom (ledger_of (tables db)) \<and>
    ledger_of (tables db') = ledger_of (tables db) |` (- coin_key ` set is) \<and> utxos_ok (tables db') \<and>
    coin_supply (tables db') + (\<Sum>i\<leftarrow>is. snd (the (ledger_of (tables db) (coin_key i)))) = coin_supply (tables db) \<and>
    db_connection db' = db_connection db"
  using assms
proof (induction "is" arbitrary: db)
  case (Cons i "is")
  let ?t = "tables db" and ?k = "coin_key i"
  from Cons.prems(1) obtain db1 where s: "spend_unspent_output (prev_tx_hash i) (prev_output_idx i) db = (True, db1)"
    and rest: "spend_inputs is db1 = (True, db')"
    by (auto split: prod.splits if_splits)
  note sp = spend_unspent_output_True [OF s, folded coin_key_def]
  have L1: "ledger_of (tables db1) = (ledger_of ?t)(?k := None)" by (simp add: sp(2) ledger_of_erase)
  have ok1: "utxos_ok (tables db1)" using utxos_ok_erase [OF Cons.prems(2)] by (simp add: sp(2))
  from sp(1) have "ledger_of ?t ?k \<noteq> None" by (simp add: ledger_of_def)
  then obtain c where c: "ledger_of ?t ?k = Some c" by blast
  have sup: "coin_supply (tables db1) + snd c = coin_supply ?t"
    using coin_supply_erase [OF Cons.prems(2) c] by (simp add: sp(2))
  note IH = Cons.IH [OF rest ok1]
  from IH have k: "?k \<notin> coin_key ` set is" and sub: "coin_key ` set is \<subseteq> dom (ledger_of ?t)"
    by (auto simp: L1 split: if_splits)
  from k have "map (\<lambda>j. snd (the (ledger_of (tables db1) (coin_key j)))) is =
      map (\<lambda>j. snd (the (ledger_of ?t (coin_key j)))) is" by (auto simp: L1 image_iff)
  with IH sup c have "coin_supply (tables db') + (\<Sum>j\<leftarrow>i # is. snd (the (ledger_of ?t (coin_key j)))) = coin_supply ?t"
    by simp
  moreover from IH have "ledger_of (tables db') = ledger_of ?t |` (- coin_key ` set (i # is))"
    by (auto simp: L1 restrict_map_def fun_eq_iff)
  moreover have "coin_key ` set (i # is) \<subseteq> dom (ledger_of ?t)" using sub c by (simp add: domI)
  ultimately show ?case using IH k sp(3) by simp
qed (auto simp: restrict_map_def)

lemma new_coins_Cons:
  "new_coins tid n (out # outs) =
     ((c_str tid, sint (of_nat n :: u32)), c_str (out_address out), unat (out_amount out)) # new_coins tid (Suc n) outs"
proof -
  have "[n..<n + length (out # outs)] = n # [Suc n..<Suc n + length outs]"
    by (simp add: upt_conv_Cons del: upt_Suc)
  then show ?thesis by (simp add: new_coins_def del: upt_Suc)
qed

lemma create_outputs_True:
  assumes "create_outputs tid (of_nat n) outs db = (True, db')" "utxos_ok (tables db)"
  shows "distinct (map fst (new_coins tid n outs)) \<and>
    fst ` set (new_coins tid n outs) \<inter> dom (ledger_of (tables db)) = {} \<and>
    ledger_of (tables db') = ledger_of (tables db) ++ map_of (new_coins tid n outs) \<and> utxos_ok (tables db') \<and>
    coin_supply (tables db') = coin_supply (tables db) + (\<Sum>out\<leftarrow>outs. unat (out_amount out)) \<and>
    db_connection db' = db_connection db"
  using assms
proof (induction outs arbitrary: n db)
  case Nil
  then show ?case by (simp add: new_coins_def)
next
  case (Cons out outs)
  let ?k = "(c_str tid, sint (of_nat n :: u32))" and ?c = "(c_str (out_address out), unat (out_amount out))"
  from Cons.prems(1) obtain db1 where
      s: "save_unspent_output \<lparr>uo_tx_id = tid, uo_index = of_nat n, uo_address = out_address out,
            uo_amount = out_amount out\<rparr> db = (True, db1)"
    and rest: "create_outputs tid (of_nat (Suc n)) outs db1 = (True, db')"
    by (auto simp: add.commute split: prod.splits if_splits)
  note sv = save_unspent_output_True [OF s, simplified]
  note amount = nat_sint_pos [OF sv(2)]
  have free: "ledger_of (tables db) ?k = None" by (simp add: ledger_of_def sv(1))
  have L1: "ledger_of (tables db1) = (ledger_of (tables db))(?k \<mapsto> ?c)"
    by (simp add: sv(3) ledger_of_put coin_of_def amount)
  have ok1: "utxos_ok (tables db1)"
    using utxos_ok_put [OF Cons.prems(2)] sv(2) amount(2) by (simp add: sv(3))
  have sup: "coin_supply (tables db1) = coin_supply (tables db) + unat (out_amount out)"
    using coin_supply_put [OF Cons.prems(2) free] by (simp add: sv(3) amount)
  note IH = Cons.IH [OF rest ok1]
  from IH have k: "?k \<notin> fst ` set (new_coins tid (Suc n) outs)" by (auto simp: L1)
  then have "?k \<notin> dom (map_of (new_coins tid (Suc n) outs))" by (simp add: dom_map_of_conv_image_fst)
  from map_add_upd_left [OF this, of "ledger_of (tables db)" ?c] IH
  have L': "ledger_of (tables db') = ledger_of (tables db) ++ map_of (new_coins tid n (out # outs))"
    by (simp only: new_coins_Cons L1 map_of.simps fst_conv snd_conv map_add_upd)
  from IH have "fst ` set (new_coins tid (Suc n) outs) \<inter> dom (ledger_of (tables db)) = {}"
    by (simp only: L1 dom_fun_upd) auto
  with free have "fst ` set (new_coins tid n (out # outs)) \<inter> dom (ledger_of (tables db)) = {}"
    by (simp add: new_coins_Cons domIff)
  moreover have "distinct (map fst (new_coins tid n (out # outs)))" using IH k by (simp add: new_coins_Cons)
  ultimately show ?case using IH L' sup sv(4) by simp
qed

lemma create_outputs_True0:
  assumes "create_outputs tid 0 outs db = (True, db')" "utxos_ok (tables db)"
  shows "distinct (map fst (new_coins tid 0 outs)) \<and>
    fst ` set (new_coins tid 0 outs) \<inter> dom (ledger_of (tables db)) = {} \<and>
    ledger_of (tables db') = ledger_of (tables db) ++ map_of (new_coins tid 0 outs) \<and> utxos_ok (tables db') \<and>
    coin_supply (tables db') = coin_supply (tables db) + (\<Sum>out\<leftarrow>outs. unat (out_amount out)) \<and>
    db_connection db' = db_connection db"
  using assms by (intro create_outputs_True) simp_all

section \<open>A transaction and a block\<close>

lemma update_keeps:
  assumes "never_aborts db" "\<And>t. P (u t) = P t"
  shows "P (tables (snd (update needs u db))) = P (tables db)"
proof (cases "update needs u db")
  case (Pair ok db')
  with assms show ?thesis using update_True(1) [of needs u db db'] update_False [of needs u db db']
    by (cases ok) auto
qed

lemma update_connection [simp]: "db_connection (snd (update needs u db)) = db_connection db"
  using run_connection [of needs _ db] by (simp add: update_def case_prod_beta)

lemma remove_from_mempool_keeps:
  assumes "never_aborts db"
  shows "utxos_table (tables (snd (remove_from_mempool tid db))) = utxos_table (tables db)"
    and "db_connection (snd (remove_from_mempool tid db)) = db_connection db"
  using update_keeps [OF assms, of utxos_table] by (simp_all add: remove_from_mempool_def)

lemma same_utxos:
  assumes "utxos_table t' = utxos_table t"
  shows "ledger_of t' = ledger_of t" "coin_supply t' = coin_supply t" "utxos_ok t' = utxos_ok t"
  using assms by (simp_all add: ledger_of_def coin_supply_def utxos_ok_def)

text \<open>
  What a list of transactions issues (the outputs of those without inputs), and the fees of those
  that pay with coins.
\<close>

definition issued :: "mermai_transaction list \<Rightarrow> nat" where
  "issued txs = (\<Sum>tx\<leftarrow>txs. if inputs tx = [] then \<Sum>out\<leftarrow>outputs tx. unat (out_amount out) else 0)"

definition paid_fees :: "mermai_transaction list \<Rightarrow> nat" where
  "paid_fees txs = (\<Sum>tx\<leftarrow>txs. if inputs tx = [] then 0 else unat (fee tx))"

text \<open>The fees of the transactions of a block.\<close>

definition total_fees :: "mermai_transaction list \<Rightarrow> nat" where
  "total_fees txs = (\<Sum>tx\<leftarrow>txs. unat (fee tx))"

lemma all_paying:
  assumes "list_all (\<lambda>tx. inputs tx \<noteq> []) txs"
  shows "issued txs = 0" "paid_fees txs = total_fees txs"
  using assms by (induction txs) (simp_all add: issued_def paid_fees_def total_fees_def)

text \<open>The effect of a transaction on the coins, with the change of the supply.\<close>

definition tx_effect :: "'k openssl \<Rightarrow> mermai_transaction \<Rightarrow> db_tables \<Rightarrow> db_tables \<Rightarrow> bool" where
  "tx_effect ossl tx t t' \<longleftrightarrow> ledger_tx ossl tx (ledger_of t) (ledger_of t') \<and> utxos_ok t' \<and>
     coin_supply t' + paid_fees [tx] = coin_supply t + issued [tx]"

lemma create_tx_effect:
  assumes c: "create_outputs (effective_id ossl tx) 0 (outputs tx) db1 = (True, db2)"
    and ok: "utxos_ok (tables db1)"
    and L1: "ledger_of (tables db1) = ledger_of t |` (- coin_key ` set (inputs tx))"
    and pays: "inputs tx \<noteq> [] \<Longrightarrow> pays_for ossl tx (ledger_of t) \<and>
      coin_supply (tables db1) + (\<Sum>i\<leftarrow>inputs tx. snd (the (ledger_of t (coin_key i)))) = coin_supply t"
    and same: "inputs tx = [] \<Longrightarrow> coin_supply (tables db1) = coin_supply t"
  shows "tx_effect ossl tx t (tables db2)"
proof -
  note cr = create_outputs_True0 [OF c ok]
  from cr have "ledger_tx ossl tx (ledger_of t) (ledger_of (tables db2))"
    using pays by (cases "inputs tx = []") (simp_all add: ledger_tx_def L1 Let_def)
  moreover have "coin_supply (tables db2) + paid_fees [tx] = coin_supply t + issued [tx]"
    using pays same cr by (auto simp: pays_for_def paid_fees_def issued_def)
  ultimately show ?thesis using cr by (simp add: tx_effect_def)
qed

lemma apply_transaction_open: "never_aborts db \<Longrightarrow> stays_open db (snd (apply_transaction ossl now tx db))"
proof -
  assume na: "never_aborts db"
  note o = validate_inputs_open [OF na, of ossl now tx]
  note o2 = stays_open_trans [OF o spend_inputs_open [OF stays_open_aborts [OF o na], of "inputs tx"]]
  define s where "s = (if inputs tx = [] then (True, db)
    else case validate_transaction_inputs ossl now tx db of
           (valid, db') \<Rightarrow> if \<not> valid then (False, db') else spend_inputs (inputs tx) db')"
  have o3: "stays_open db (snd s)" using o o2 by (auto simp: s_def split: prod.splits)
  note o4 = stays_open_trans [OF o3 create_outputs_open [OF stays_open_aborts [OF o3 na], of "effective_id ossl tx" 0 "outputs tx"]]
  note o5 = stays_open_trans [OF o4 remove_from_mempool_open [OF stays_open_aborts [OF o4 na], of "effective_id ossl tx"]]
  from o3 o4 o5 show ?thesis
    by (simp add: apply_transaction_def s_def [symmetric] case_prod_beta Let_def)
qed

lemma apply_transaction_True:
  assumes "apply_transaction ossl now tx db = (True, db')" "never_aborts db" "utxos_ok (tables db)"
  shows "tx_effect ossl tx (tables db) (tables db') \<and> db_connection db' = db_connection db"
proof -
  have *: "tx_effect ossl tx (tables db) (tables (snd (remove_from_mempool tid db2))) \<and>
      db_connection (snd (remove_from_mempool tid db2)) = db_connection db"
    if "tx_effect ossl tx (tables db) (tables db2)" "never_aborts db2" "db_connection db2 = db_connection db" for tid db2
    using that same_utxos [OF remove_from_mempool_keeps(1) [OF that(2)]] remove_from_mempool_keeps(2) [OF that(2)]
    by (simp add: tx_effect_def)
  show ?thesis
  proof (cases "inputs tx = []")
    case True
    with assms(1) obtain db2 where c: "create_outputs (effective_id ossl tx) 0 (outputs tx) db = (True, db2)"
      and r: "db' = snd (remove_from_mempool (effective_id ossl tx) db2)"
      by (auto simp: apply_transaction_def Let_def split: prod.splits if_splits)
    have "tx_effect ossl tx (tables db) (tables db2)"
      using create_tx_effect [OF c assms(3), of "tables db"] True by (simp add: restrict_map_def)
    moreover have "never_aborts db2"
      using stays_open_aborts [OF create_outputs_open [OF assms(2), of "effective_id ossl tx" 0 "outputs tx"] assms(2)] by (simp add: c)
    moreover have "db_connection db2 = db_connection db"
      using create_outputs_True0 [OF c assms(3)] by simp
    ultimately show ?thesis using * r by simp
  next
    case False
    with assms(1) obtain db0 db1 db2 where v: "validate_transaction_inputs ossl now tx db = (True, db0)"
      and s: "spend_inputs (inputs tx) db0 = (True, db1)"
      and c: "create_outputs (effective_id ossl tx) 0 (outputs tx) db1 = (True, db2)"
      and r: "db' = snd (remove_from_mempool (effective_id ossl tx) db2)"
      by (auto simp: apply_transaction_def Let_def split: prod.splits if_splits)
    note va = validate_inputs_True [OF v assms(3)]
    then have ok0: "utxos_ok (tables db0)" using assms(3) by simp
    note sp = spend_inputs_True [OF s ok0]
    have na1: "never_aborts db0" using stays_open_aborts [OF validate_inputs_open [OF assms(2), of ossl now tx] assms(2)] by (simp add: v)
    have na2: "never_aborts db1" using stays_open_aborts [OF spend_inputs_open [OF na1, of "inputs tx"] na1] by (simp add: s)
    have na3: "never_aborts db2"
      using stays_open_aborts [OF create_outputs_open [OF na2, of "effective_id ossl tx" 0 "outputs tx"] na2] by (simp add: c)
    have eff: "tx_effect ossl tx (tables db) (tables db2)"
      using sp va by (intro create_tx_effect [OF c]) (auto simp: pays_for_def)
    have "db_connection db0"
      using s False by (cases "inputs tx") (auto simp: spend_unspent_output_def split: if_splits prod.splits)
    moreover have "db_connection db" using v by (auto simp: validate_transaction_inputs_def split: if_splits)
    ultimately have "db_connection db2 = db_connection db"
      using create_outputs_True0 [OF c] sp by auto
    with * eff na3 r show ?thesis by simp
  qed
qed

lemma apply_transactions_open: "never_aborts db \<Longrightarrow> stays_open db (snd (apply_transactions ossl now txs db))"
proof (induction txs arbitrary: db)
  case (Cons tx txs)
  note o = apply_transaction_open [OF Cons.prems, of ossl now tx]
  from Cons.IH [OF stays_open_aborts [OF o Cons.prems]] o show ?case
    by (auto simp: case_prod_beta intro: stays_open_trans)
qed simp

lemma apply_transactions_True:
  assumes "apply_transactions ossl now txs db = (True, db')" "never_aborts db" "utxos_ok (tables db)"
  shows "ledger_txs ossl txs (ledger_of (tables db)) (ledger_of (tables db')) \<and> utxos_ok (tables db') \<and>
    coin_supply (tables db') + paid_fees txs = coin_supply (tables db) + issued txs \<and>
    db_connection db' = db_connection db"
  using assms
proof (induction txs arbitrary: db)
  case (Cons tx txs)
  then obtain db1 where a: "apply_transaction ossl now tx db = (True, db1)"
    and rest: "apply_transactions ossl now txs db1 = (True, db')"
    by (auto split: prod.splits if_splits)
  note eff = apply_transaction_True [OF a Cons.prems(2,3)]
  have na: "never_aborts db1"
    using stays_open_aborts [OF apply_transaction_open [OF Cons.prems(2), of ossl now tx] Cons.prems(2)] by (simp add: a)
  have "utxos_ok (tables db1)" using eff by (simp add: tx_effect_def)
  from Cons.IH [OF rest na this] eff show ?case
    by (auto simp: tx_effect_def paid_fees_def issued_def)
qed (simp add: paid_fees_def issued_def)

lemma save_transaction_open: "never_aborts db \<Longrightarrow> stays_open db (snd (save_transaction ossl tx db))"
  using update_stays_open [of db] by (simp add: save_transaction_def)

lemma save_transaction_keeps:
  "never_aborts db \<Longrightarrow> utxos_table (tables (snd (save_transaction ossl tx db))) = utxos_table (tables db)"
  using update_keeps [of db utxos_table] by (simp add: save_transaction_def)

lemma set_block_hash_open: "never_aborts db \<Longrightarrow> stays_open db (snd (set_block_hash h tid db))"
  using update_stays_open [of db] by (simp add: set_block_hash_def)

lemma set_block_hash_keeps:
  "never_aborts db \<Longrightarrow> utxos_table (tables (snd (set_block_hash h tid db))) = utxos_table (tables db)"
  using update_keeps [of db utxos_table] by (simp add: set_block_hash_def)

lemma save_block_txs_open:
  "never_aborts db \<Longrightarrow> stays_open db (snd (save_block_txs ossl h r txs db)) \<and>
     utxos_table (tables (snd (save_block_txs ossl h r txs db))) = utxos_table (tables db)"
proof (induction txs arbitrary: r db)
  case (Cons tx txs)
  note o1 = save_transaction_open [OF Cons.prems, of ossl tx]
  note na1 = stays_open_aborts [OF o1 Cons.prems]
  note o2 = set_block_hash_open [OF na1, of h "effective_id ossl tx"]
  note na2 = stays_open_aborts [OF o2 na1]
  from Cons.IH [OF na2] stays_open_trans [OF o1 o2] save_transaction_keeps [OF Cons.prems] set_block_hash_keeps [OF na1]
  show ?case by (auto simp: case_prod_beta intro: stays_open_trans)
qed simp

lemma save_block_open:
  assumes "never_aborts db"
  shows "stays_open db (snd (save_block ossl block db)) \<and>
    utxos_table (tables (snd (save_block ossl block db))) = utxos_table (tables db)"
proof (cases block)
  case (Some b)
  let ?r = "run [''blocks''] (\<lambda>t. Some ((), insert_block_row (block_hash_hex ossl b) (new_block_row b) t)) db"
  note o = run_stays_open [OF assms, of "[''blocks'']" "\<lambda>t. Some ((), insert_block_row (block_hash_hex ossl b) (new_block_row b) t)"]
  have u: "utxos_table (tables (snd ?r)) = utxos_table (tables db)"
    using never_aborts_next [OF assms] by (simp add: run_def Let_def insert_block_row_def)
  note o2 = save_block_txs_open [OF stays_open_aborts [OF o assms], of ossl "block_hash_hex ossl b" _ "transactions b"]
  have "stays_open db (snd (save_block_txs ossl (block_hash_hex ossl b) r (transactions b) (snd ?r)))" for r
    using o o2 by (blast intro: stays_open_trans)
  with o u o2 show ?thesis
    by (auto simp: save_block_def Some Let_def split: prod.splits outcome.splits)
qed (simp add: save_block_def)

section \<open>What apply\_block promises\<close>

lemma apply_block_cases:
  assumes "apply_block ossl now (Some b) db = (r, db')" "never_aborts db"
  obtains (refused) "\<not> r" "durable db' = durable db" "tables db' = tables db" "saved db' = saved db"
  | (failed) "\<not> r" "saved db = None"
      "saved db' = None \<and> tables db' = tables db \<or> saved db' = Some (tables db)"
  | (committed) db1 db2 where "r" "saved db = None" "saved db' = None"
      "tables db1 = tables db" "never_aborts db1" "apply_transactions ossl now (transactions b) db1 = (True, db2)"
      "utxos_table (tables db') = utxos_table (tables db2)"
      "tables db' = tables (snd (save_block ossl (Some b) db2))" "fst (save_block ossl (Some b) db2)"
proof (cases "db_connection db \<and> fst (exec_begin db)")
  case False
  then have "\<not> r \<and> durable db' = durable db \<and> tables db' = tables db \<and> saved db' = saved db"
    using assms(1) by (auto simp: apply_block_def exec_begin_def durable_def Let_def split: if_splits option.splits)
  then show thesis using refused by blast
next
  case True
  obtain db1 where b: "exec_begin db = (True, db1)" using True by (cases "exec_begin db") auto
  then have s: "saved db = None" and s1: "saved db1 = Some (tables db)" and t1: "tables db1 = tables db"
    and na1: "never_aborts db1"
    using assms(2) set_tl_subset [of "faults db"]
    by (auto simp: exec_begin_def Let_def never_aborts_def split: if_splits)
  obtain applied db2 where a: "apply_transactions ossl now (transactions b) db1 = (applied, db2)" by fastforce
  have o2: "stays_open db1 db2" using apply_transactions_open [OF na1, of ossl now "transactions b"] by (simp add: a)
  note na2 = stays_open_aborts [OF o2 na1]
  define sb where "sb = (if applied then save_block ossl (Some b) db2 else (False, db2))"
  have o3: "stays_open db2 (snd sb)" using save_block_open [OF na2, of ossl "Some b"] by (simp add: sb_def)
  note na3 = stays_open_aborts [OF o3 na2]
  have s3: "saved (snd sb) = Some (tables db)" using o2 o3 s1 by (simp add: stays_open_def)
  have res: "(r, db') = (let (ended, db4) = (if fst sb then exec_commit (snd sb) else exec_rollback (snd sb))
      in (fst sb \<and> ended, db4))"
    using assms(1) True by (cases applied) (auto simp: apply_block_def b a sb_def case_prod_beta Let_def)
  show thesis
  proof (cases r)
    case True
    with res have c: "fst sb" "exec_commit (snd sb) = (True, db')" by (auto simp: Let_def split: prod.splits if_splits)
    then have "saved db' = None" "tables db' = tables (snd sb)"
      by (auto simp: exec_commit_def Let_def split: if_splits)
    with c(1) committed [OF True s _ t1 na1] show thesis
      using a save_block_open [OF na2, of ossl "Some b"] by (auto simp: sb_def split: if_splits)
  next
    case False
    with res s3 never_aborts_next [OF na3] have "saved db' = None \<and> tables db' = tables db \<or> saved db' = Some (tables db)"
      by (auto simp: exec_commit_def exec_rollback_def roll_back_def Let_def split: prod.splits if_splits option.splits)
    with failed [OF False s] show thesis by blast
  qed
qed

text \<open>C2: Applying a block refines the abstract ledger. Let \<^verbatim>\<open>apply_block\<close> return true on a database
  whose unspent outputs have positive amounts below 2 to the power 63, SQLite not rolling the transaction back on
  its own (every other failure of a statement is allowed). Then every transaction of the block that
  has inputs, in order, spent different existing coins owned by the keys it presents and worth
  exactly its outputs plus its fee; a transaction without inputs, which \<^verbatim>\<open>apply_block\<close> accepts as an
  issuance, spent nothing; both created their outputs under free keys, and the durable table of unspent outputs
  stands for the resulting ledger. The total of the unspent outputs changes by exactly what the transactions without inputs
  issue less the fees of the others.
\<close>

theorem apply_block_refines_ledger:
  assumes "apply_block ossl now (Some b) db = (True, db')" "never_aborts db" "utxos_ok (tables db)"
  shows "ledger_txs ossl (transactions b) (ledger_of (durable db)) (ledger_of (durable db')) \<and> utxos_ok (durable db') \<and>
    coin_supply (durable db') + paid_fees (transactions b) = coin_supply (durable db) + issued (transactions b)"
  using assms(1,2)
proof (cases rule: apply_block_cases)
  case (committed db1 db2)
  note eff = apply_transactions_True [OF committed(6,5)]
  from eff committed assms(3) same_utxos [OF committed(7)] show ?thesis by (simp add: durable_def)
qed simp_all

text \<open>C3: No coin is created. A block whose transactions all have inputs (every transaction that
  passes \<^verbatim>\<open>mermai_transaction::verify\<close> has) lowers the total of the unspent outputs by exactly
  its fees.
\<close>

theorem apply_block_conserves_supply:
  assumes "apply_block ossl now (Some b) db = (True, db')" "never_aborts db" "utxos_ok (tables db)"
    and "list_all (\<lambda>tx. inputs tx \<noteq> []) (transactions b)"
  shows "coin_supply (durable db') + total_fees (transactions b) = coin_supply (durable db)"
  using assms(1,2)
proof (cases rule: apply_block_cases)
  case (committed db1 db2)
  note eff = apply_transactions_True [OF committed(6,5)]
  from eff committed assms(3) all_paying [OF assms(4)] same_utxos [OF committed(7)] show ?thesis by (simp add: durable_def)
qed simp_all

text \<open>
  When \<^verbatim>\<open>apply_block\<close> can be trusted to be atomic: no error rolls the transaction back behind its
  back, or the block has no transactions, so that no statement follows one whose result is ignored.
\<close>

definition atomic_case :: "mermai_block option \<Rightarrow> mermai_db \<Rightarrow> bool" where
  "atomic_case block db \<longleftrightarrow> never_aborts db \<or> (case block of None \<Rightarrow> True | Some b \<Rightarrow> transactions b = [])"

lemma apply_empty_block_failed:
  assumes "apply_block ossl now (Some b) db = (False, db')" "transactions b = []"
  shows "durable db' = durable db"
  using assms
  by (auto simp: apply_block_def save_block_def exec_begin_def exec_commit_def exec_rollback_def run_def roll_back_def
      durable_def Let_def split: if_splits option.splits prod.splits)

lemma apply_block_failed:
  assumes "apply_block ossl now block db = (False, db')" "atomic_case block db"
  shows "durable db' = durable db"
proof (cases block)
  case None
  then show ?thesis using assms(1) by (simp add: apply_block_def)
next
  case (Some b)
  show ?thesis
  proof (cases "transactions b = []")
    case True
    with assms(1) Some show ?thesis by (blast intro: apply_empty_block_failed)
  next
    case False
    with assms(2) Some have "never_aborts db" by (simp add: atomic_case_def)
    from assms(1) [unfolded Some] this show ?thesis
      by (cases rule: apply_block_cases) (auto simp: durable_def)
  qed
qed

text \<open>C4: Applying a block is atomic unless SQLite rolls the transaction back on its own. When
  \<^verbatim>\<open>apply_block\<close> returns false (validation, a statement, the commit, or the rollback itself
  failed), and either no failure was one by which SQLite ends the transaction itself or the block has no transactions, the
  durable tables are those from before the call. (A block with transactions is torn by such a
  failure of the statement that clears the mempool: \<open>aborted_block_is_torn\<close>.)
\<close>

theorem apply_block_atomic:
  assumes "apply_block ossl now block db = (False, db')" "atomic_case block db"
  shows "durable db' = durable db"
  by (rule apply_block_failed [OF assms])

text \<open>
  A commit that fails leaves the transaction open, and nothing in the sources ends it: every later
  \<^verbatim>\<open>apply_block\<close> on the connection is refused at \<^verbatim>\<open>BEGIN\<close>.
\<close>

lemma open_transaction_blocks:
  "saved db \<noteq> None \<Longrightarrow> \<not> fst (apply_block ossl now block db) \<and> saved (snd (apply_block ossl now block db)) = saved db"
  by (cases block) (auto simp: apply_block_def exec_begin_def Let_def)

section \<open>A ledger without coins\<close>

text \<open>No unspent output, neither in the tables nor in what a rollback would restore.\<close>

definition coinless :: "mermai_db \<Rightarrow> bool" where
  "coinless db \<longleftrightarrow> utxos_table (tables db) = [] \<and> (case saved db of None \<Rightarrow> True | Some t \<Rightarrow> utxos_table t = [])"

lemma coinless_run:
  assumes "coinless db" "\<And>t x t'. utxos_table t = [] \<Longrightarrow> f t = Some (x, t') \<Longrightarrow> utxos_table t' = []"
  shows "coinless (snd (run needs f db))"
proof (cases "f (tables db)")
  case None
  with assms(1) show ?thesis by (auto simp: coinless_def run_def roll_back_def Let_def split: option.splits)
next
  case (Some p)
  obtain x t' where p: "p = (x, t')" by (cases p)
  have "utxos_table t' = []" using assms(2) [OF _ Some [unfolded p]] assms(1) by (simp add: coinless_def)
  with assms(1) Some p show ?thesis by (auto simp: coinless_def run_def roll_back_def Let_def split: option.splits)
qed

lemma coinless_query [simp]: "coinless db \<Longrightarrow> coinless (snd (query needs q db))"
  unfolding query_def by (erule coinless_run) simp

lemma coinless_update:
  assumes "coinless db" "\<And>t. utxos_table t = [] \<Longrightarrow> utxos_table (u t) = []"
  shows "coinless (snd (update needs u db))"
  using coinless_run [of db "\<lambda>t. Some ((), u t)" needs] assms by (auto simp: update_def case_prod_beta)

lemma coinless_transaction:
  assumes "coinless db" "inputs tx \<noteq> []"
  shows "\<not> fst (apply_transaction ossl now tx db) \<and> coinless (snd (apply_transaction ossl now tx db))"
proof -
  have s: "fst (sum_inputs ossl 0 (inputs tx) db) = None \<and> coinless (snd (sum_inputs ossl 0 (inputs tx) db))"
  proof (cases "inputs tx")
    case (Cons i "is")
    let ?q = "query [''utxos''] (find_utxo (prev_tx_hash i) (prev_output_idx i)) db"
    have "False" if "?q = (Done (Some r), d)" for r d
      using assms(1) query_Done [OF that] by (simp add: coinless_def find_utxo_def)
    moreover have "coinless (snd ?q)" using assms(1) by simp
    ultimately show ?thesis by (cases ?q) (auto simp: Cons split: outcome.splits option.splits)
  qed (use assms in simp)
  then have "\<not> fst (validate_transaction_inputs ossl now tx db) \<and> coinless (snd (validate_transaction_inputs ossl now tx db))"
    using assms(1) by (auto simp: validate_transaction_inputs_def split: option.splits prod.splits)
  with assms(2) show ?thesis by (auto simp: apply_transaction_def Let_def split: prod.splits)
qed

lemma coinless_transactions:
  assumes "coinless db" "list_all (\<lambda>tx. inputs tx \<noteq> []) txs"
  shows "(fst (apply_transactions ossl now txs db) \<longrightarrow> txs = []) \<and> coinless (snd (apply_transactions ossl now txs db))"
  using assms coinless_transaction [OF assms(1), of "hd txs" ossl now]
  by (cases txs) (auto split: prod.splits)

lemma coinless_save_block_txs: "coinless db \<Longrightarrow> coinless (snd (save_block_txs ossl h r txs db))"
proof (induction txs arbitrary: r db)
  case (Cons tx txs)
  have "coinless (snd (save_transaction ossl tx db))"
    using coinless_update [OF Cons.prems] Cons.prems by (simp add: save_transaction_def)
  then have "coinless (snd (set_block_hash h (effective_id ossl tx) (snd (save_transaction ossl tx db))))"
    unfolding set_block_hash_def by (rule coinless_update) simp
  with Cons.IH show ?case by (simp add: case_prod_beta)
qed simp

lemma coinless_save_block: "coinless db \<Longrightarrow> coinless (snd (save_block ossl block db))"
proof (cases block)
  case (Some b)
  let ?f = "\<lambda>t. Some ((), insert_block_row (block_hash_hex ossl b) (new_block_row b) t)"
  assume c: "coinless db"
  have "coinless (snd (run [''blocks''] ?f db))" by (rule coinless_run [OF c]) (auto simp: insert_block_row_def)
  then show ?thesis using c coinless_save_block_txs
    by (auto simp: save_block_def Some Let_def split: prod.splits outcome.splits)
qed (simp add: save_block_def)

lemma coinless_ends:
  assumes "coinless db"
  shows "coinless (snd (exec_begin db))" "coinless (snd (exec_commit db))" "coinless (snd (exec_rollback db))"
  using assms by (auto simp: coinless_def exec_begin_def exec_commit_def exec_rollback_def roll_back_def Let_def split: option.splits)

text \<open>A database without coins accepts only blocks without transactions and stays without coins.\<close>

lemma coinless_apply_block:
  assumes "coinless db" "list_all (\<lambda>tx. inputs tx \<noteq> []) (transactions b)"
  shows "(fst (apply_block ossl now (Some b) db) \<longrightarrow> transactions b = []) \<and> coinless (snd (apply_block ossl now (Some b) db))"
proof -
  obtain begun db1 where b: "exec_begin db = (begun, db1)" by fastforce
  then have c1: "coinless db1" using coinless_ends(1) [OF assms(1)] by simp
  obtain ap db2 where a: "apply_transactions ossl now (transactions b) db1 = (ap, db2)" by fastforce
  note ct = coinless_transactions [OF c1 assms(2), of ossl now, unfolded a, simplified]
  obtain sv db3 where s: "(if ap then save_block ossl (Some b) db2 else (False, db2)) = (sv, db3)" by fastforce
  then have c3: "coinless db3" using ct coinless_save_block [of db2 ossl "Some b"] by (cases ap) auto
  show ?thesis
  proof (cases ap)
    case True
    with ct a have t: "transactions b = []" and "db2 = db1" by auto
    with s True have "save_block ossl (Some b) db1 = (sv, db3)" by simp
    with t c1 coinless_ends [OF c3] assms(1) show ?thesis by (auto simp: apply_block_def b split: prod.splits)
  next
    case False
    with s ct c1 coinless_ends [OF c3] assms(1) show ?thesis by (auto simp: apply_block_def b a split: prod.splits)
  qed
qed

section \<open>A concrete block\<close>

definition lax_ossl :: "byte openssl" where
  "lax_ossl = toy_ossl\<lparr>DigestVerify := (\<lambda>_ _ _. True)\<rparr>"

definition sample_tx :: mermai_transaction where
  "sample_tx = \<lparr>tx_id = ''t1'',
     inputs = [\<lparr>prev_tx_hash = ''gen'', prev_output_idx = 0, in_signature = [1], in_public_key = [7]\<rparr>],
     outputs = [\<lparr>out_address = ''bob'', out_amount = 90\<rparr>], fee = 10, tx_timestamp = 0\<rparr>"

definition demo_block :: mermai_block where
  "demo_block = (new_block 0 1)\<lparr>transactions := [sample_tx]\<rparr>"

definition demo_db :: "sqlite_fault list \<Rightarrow> mermai_db" where
  "demo_db fs = \<lparr>schema = [''blocks'', ''transactions'', ''utxos'', ''mempool''],
     tables = empty_tables\<lparr>utxos_table :=
       [((''gen'', 0), \<lparr>row_address = address_from_public_key lax_ossl [7], row_amount = 100\<rparr>)]\<rparr>,
     saved = None, faults = fs, db_connection = True\<rparr>"

definition commit_fault :: "sqlite_fault list" where
  "commit_fault = [Completes, Completes, Completes, Completes, Completes, Completes, Completes, Completes, Step_fails]"

lemma demo_verify: "tx_verify lax_ossl 0 sample_tx"
  by (simp add: tx_verify_def sample_tx_def serial_limits check_input_signature_def lax_ossl_def toy_ossl_def)

lemma demo_address: "address_from_public_key lax_ossl [7] \<noteq> []"
  by (simp add: address_from_public_key_def lax_ossl_def toy_ossl_def)

lemma demo_utxos_ok [simp]: "utxos_ok (tables (demo_db fs))"
  by (simp add: utxos_ok_def demo_db_def empty_tables_def omap_ok_Cons)

lemmas db_statements = exec_begin_def exec_commit_def save_block_def save_transaction_def set_block_hash_def
  remove_from_mempool_def update_def query_def run_def next_fault_def apply_transaction_def
  validate_transaction_inputs_def spend_unspent_output_def delete_utxo_def find_utxo_def
  save_unspent_output_def insert_utxo_def c_str_def effective_id_def insert_block_row_def new_block_row_def Let_def

lemma demo_apply: "fst (apply_block lax_ossl 0 (Some demo_block) (demo_db []))"
  using demo_verify demo_address
  by (simp add: apply_block_def db_statements demo_db_def demo_block_def new_block_def sample_tx_def empty_tables_def
      omap_erase_def)

lemma demo_commit_fails:
  "\<not> fst (apply_block lax_ossl 0 (Some demo_block) (demo_db commit_fault))"
  using demo_verify demo_address
  by (simp add: apply_block_def db_statements demo_db_def demo_block_def new_block_def sample_tx_def empty_tables_def
      omap_erase_def commit_fault_def)

text \<open>
  \<^verbatim>\<open>apply_block\<close> ignores the result of \<^verbatim>\<open>remove_from_mempool\<close>. When that statement fails with an
  error by which SQLite rolls the transaction back, the loop goes on outside every transaction: the
  block is stored, each statement durable at once, the coins stay unspent, and the call returns false
  because there is nothing left to commit.
\<close>

definition mempool_abort :: "sqlite_fault list" where
  "mempool_abort = [Completes, Completes, Completes, Completes, Aborts]"

lemma aborted_block_is_torn:
  "\<not> fst (apply_block lax_ossl 0 (Some demo_block) (demo_db mempool_abort)) \<and>
   blocks_table (durable (demo_db mempool_abort)) = [] \<and>
   blocks_table (durable (snd (apply_block lax_ossl 0 (Some demo_block) (demo_db mempool_abort)))) \<noteq> [] \<and>
   ledger_of (durable (snd (apply_block lax_ossl 0 (Some demo_block) (demo_db mempool_abort)))) =
     ledger_of (durable (demo_db mempool_abort))"
  using demo_verify demo_address
  by (simp add: apply_block_def db_statements demo_db_def demo_block_def new_block_def sample_tx_def empty_tables_def
      omap_erase_def mempool_abort_def roll_back_def durable_def ledger_of_def)

lemma demo_facts:
  "never_aborts (demo_db [])" "coin_supply (durable (demo_db [])) = 100" "transactions demo_block = [sample_tx]"
  "total_fees [sample_tx] = 10" "inputs sample_tx \<noteq> []"
  by (simp_all add: never_aborts_def durable_def coin_supply_def demo_db_def empty_tables_def demo_block_def
      sample_tx_def total_fees_def)

lemma demo_fst_snd: "fst p \<Longrightarrow> p = (True, snd p)" "\<not> fst p \<Longrightarrow> p = (False, snd p)"
  by (cases p; simp)+

text \<open>An issuance, accepted by \<^verbatim>\<open>apply_block\<close>: it raises the supply from 100 to 190.\<close>

definition issuing_block :: mermai_block where
  "issuing_block = (new_block 0 1)\<lparr>transactions := [sample_tx\<lparr>inputs := []\<rparr>]\<rparr>"

lemma demo_issue: "fst (apply_block lax_ossl 0 (Some issuing_block) (demo_db []))"
  by (simp add: apply_block_def db_statements demo_db_def issuing_block_def new_block_def sample_tx_def empty_tables_def
      omap_erase_def)

lemma issue_facts: "transactions issuing_block = [sample_tx\<lparr>inputs := []\<rparr>]"
    "issued [sample_tx\<lparr>inputs := []\<rparr>] = 90" "paid_fees [sample_tx\<lparr>inputs := []\<rparr>] = 0"
    "issued [sample_tx] = 0" "paid_fees [sample_tx] = 10"
  by (simp_all add: issuing_block_def issued_def paid_fees_def sample_tx_def)

theorem apply_block_refines_ledger_witness:
  "ledger_txs lax_ossl [sample_tx] (ledger_of (durable (demo_db [])))
     (ledger_of (durable (snd (apply_block lax_ossl 0 (Some demo_block) (demo_db []))))) \<and>
   coin_supply (durable (snd (apply_block lax_ossl 0 (Some demo_block) (demo_db [])))) = 90 \<and>
   coin_supply (durable (snd (apply_block lax_ossl 0 (Some issuing_block) (demo_db [])))) = 190"
  using apply_block_refines_ledger [OF demo_fst_snd(1) [OF demo_apply]]
    apply_block_refines_ledger [OF demo_fst_snd(1) [OF demo_issue]] by (simp add: demo_facts issue_facts)

theorem apply_block_conserves_supply_witness:
  "coin_supply (durable (snd (apply_block lax_ossl 0 (Some demo_block) (demo_db [])))) = 90"
  using apply_block_conserves_supply [OF demo_fst_snd(1) [OF demo_apply]] by (simp add: demo_facts)

theorem apply_block_atomic_witness:
  "durable (snd (apply_block lax_ossl 0 (Some demo_block) (demo_db commit_fault))) =
     durable (demo_db commit_fault)"
  by (rule apply_block_atomic [OF demo_fst_snd(2) [OF demo_commit_fails]]) (simp add: atomic_case_def never_aborts_def demo_db_def commit_fault_def)

end
