(* ===== verification/Mermai_Quorum.thy ===== *)
theory Mermai_Quorum
  imports Mermai_Consensus
begin

text \<open>
  Quorum finality (\<^verbatim>\<open>mermai_quorum_collector\<close> in \<^verbatim>\<open>src/src/consensus/mermai_consensus.cpp\<close>):
  verified votes per block hash, the stake behind each hash, and the set of hashes that reached
  two thirds of the active stake.
\<close>

section \<open>Operations\<close>

record mermai_quorum_collector =
  block_votes :: "(string, mermai_block_vote list) omap"
  vote_stake_totals :: "(string, u64) omap"
  finalized_blocks :: "string set"

definition new_collector :: mermai_quorum_collector where
  "new_collector = \<lparr>block_votes = [], vote_stake_totals = [], finalized_blocks = {}\<rparr>"

definition add_vote ::
  "'k openssl \<Rightarrow> mermai_block_vote \<Rightarrow> mermai_time_weighted_pos \<Rightarrow> mermai_quorum_collector \<Rightarrow>
     bool \<times> mermai_quorum_collector" where
  "add_vote ossl vote c q =
     (if \<not> vote_verify_signature ossl vote then (False, q)
      else case find (\<lambda>val. v_address val = vote_validator_address vote) (validators c) of
        None \<Rightarrow> (False, q)
      | Some val \<Rightarrow>
          if v_public_key val \<noteq> [] \<and> v_public_key val \<noteq> vote_public_key vote then (False, q)
          else if v_amount val = 0 then (False, q)
          else
            let h = vote_block_hash vote;
                votes = omap_at [] h (block_votes q);
                q1 = q\<lparr>block_votes := omap_touch [] h (block_votes q)\<rparr>
            in if list_ex (\<lambda>existing. vote_validator_address existing = vote_validator_address vote) votes
               then (True, q1)
               else
                 let total = omap_at 0 h (vote_stake_totals q1) + v_amount val;
                     q2 = q1\<lparr>block_votes := omap_put h (votes @ [vote]) (block_votes q1),
                             vote_stake_totals := omap_put h total (vote_stake_totals q1)\<rparr>;
                     total_stake = get_total_active_stake c
                 in (True, if total_stake > 0 \<and> total * 3 \<ge> total_stake * 2
                           then q2\<lparr>finalized_blocks := insert h (finalized_blocks q2)\<rparr> else q2))"

definition is_block_finalized :: "string \<Rightarrow> mermai_quorum_collector \<Rightarrow> bool" where
  "is_block_finalized h q \<longleftrightarrow> h \<in> finalized_blocks q"

definition get_vote_stake :: "string \<Rightarrow> mermai_quorum_collector \<Rightarrow> u64" where
  "get_vote_stake h q = (case omap_find (vote_stake_totals q) h of Some s \<Rightarrow> s | None \<Rightarrow> 0)"

definition get_votes :: "string \<Rightarrow> mermai_quorum_collector \<Rightarrow> mermai_block_vote list" where
  "get_votes h q = (case omap_find (block_votes q) h of Some vs \<Rightarrow> vs | None \<Rightarrow> [])"

definition clear_quorum :: "mermai_quorum_collector \<Rightarrow> mermai_quorum_collector" where
  "clear_quorum q = q\<lparr>block_votes := [], vote_stake_totals := [], finalized_blocks := {}\<rparr>"

text \<open>The life of a collector while the validator set \<open>c\<close> stays the same.\<close>

inductive quorum_step ::
  "'k openssl \<Rightarrow> mermai_time_weighted_pos \<Rightarrow> mermai_quorum_collector \<Rightarrow> mermai_quorum_collector \<Rightarrow> bool"
  for ossl c where
  quorum_vote: "quorum_step ossl c q (snd (add_vote ossl vote c q))"
| quorum_clear: "quorum_step ossl c q (clear_quorum q)"

inductive_cases quorum_stepE: "quorum_step ossl c q q'"

section \<open>Stake behind a set of validators\<close>

definition stake_of :: "mermai_time_weighted_pos \<Rightarrow> string set \<Rightarrow> nat" where
  "stake_of c A = (\<Sum>v\<leftarrow>validators c. if v_address v \<in> A then unat (v_amount v) else 0)"

definition total_stake_of :: "mermai_time_weighted_pos \<Rightarrow> nat" where
  "total_stake_of c = (\<Sum>v\<leftarrow>validators c. unat (v_amount v))"

lemma stake_of_inter_union: "stake_of c A + stake_of c B = stake_of c (A \<union> B) + stake_of c (A \<inter> B)"
proof -
  have "(\<Sum>v\<leftarrow>vs. if v_address v \<in> A then unat (v_amount v) else 0) +
      (\<Sum>v\<leftarrow>vs. if v_address v \<in> B then unat (v_amount v) else 0) =
      (\<Sum>v\<leftarrow>vs. if v_address v \<in> A \<union> B then unat (v_amount v) else 0) +
      (\<Sum>v\<leftarrow>vs. if v_address v \<in> A \<inter> B then unat (v_amount v) else 0)" for vs
    by (induction vs) auto
  then show ?thesis by (simp add: stake_of_def)
qed

lemma stake_of_le_total: "stake_of c A \<le> total_stake_of c"
  unfolding stake_of_def total_stake_of_def by (intro sum_list_mono) simp

lemma stake_of_insert:
  assumes "distinct (map v_address (validators c))" "v \<in> set (validators c)" "v_address v \<notin> A"
  shows "stake_of c (insert (v_address v) A) = stake_of c A + unat (v_amount v)"
proof -
  have "(\<Sum>u\<leftarrow>vs. if v_address u \<in> insert (v_address v) A then unat (v_amount u) else 0) =
      (\<Sum>u\<leftarrow>vs. if v_address u \<in> A then unat (v_amount u) else 0) +
      (if v \<in> set vs then unat (v_amount v) else 0)"
    if "distinct (map v_address vs)" "\<And>u. u \<in> set vs \<Longrightarrow> v_address u = v_address v \<Longrightarrow> u = v" for vs
    using that assms(3)
  proof (induction vs)
    case (Cons u vs)
    have "v \<notin> set vs" if "u = v" using Cons.prems(1) that by auto
    moreover have "v_address u \<noteq> v_address v" if "u \<noteq> v" using Cons.prems(2) [of u] that by auto
    ultimately show ?case using Cons by (cases "u = v") auto
  qed simp
  from this [of "validators c"] assms(1,2) show ?thesis
    by (auto simp: stake_of_def distinct_map dest: inj_onD)
qed

lemma total_active_stake_eq: "get_total_active_stake c = of_nat (total_stake_of c)"
proof -
  have "foldl (\<lambda>total v. total + v_amount v) t vs = t + of_nat (\<Sum>v\<leftarrow>vs. unat (v_amount v))" for t vs
    by (induction vs arbitrary: t) (auto simp: algebra_simps)
  from this [of 0 "validators c"] show ?thesis by (simp only: get_total_active_stake_def total_stake_of_def add_0)
qed

section \<open>The invariant\<close>

definition voters :: "mermai_quorum_collector \<Rightarrow> string \<Rightarrow> string set" where
  "voters q h = vote_validator_address ` set (get_votes h q)"

definition valid_vote ::
  "'k openssl \<Rightarrow> mermai_time_weighted_pos \<Rightarrow> string \<Rightarrow> mermai_block_vote \<Rightarrow> bool" where
  "valid_vote ossl c h vote \<longleftrightarrow>
     vote_block_hash vote = h \<and> vote_verify_signature ossl vote \<and>
     (\<exists>v\<in>set (validators c). v_address v = vote_validator_address vote \<and> v_amount v \<noteq> 0 \<and>
        (v_public_key v = [] \<or> v_public_key v = vote_public_key vote))"

definition stakes_fit :: "mermai_time_weighted_pos \<Rightarrow> bool" where
  "stakes_fit c \<longleftrightarrow> distinct (map v_address (validators c)) \<and> 3 * total_stake_of c < 2 ^ 64"

definition quorum_inv ::
  "'k openssl \<Rightarrow> mermai_time_weighted_pos \<Rightarrow> mermai_quorum_collector \<Rightarrow> bool" where
  "quorum_inv ossl c q \<longleftrightarrow> stakes_fit c \<and>
     (\<forall>h. distinct (map vote_validator_address (get_votes h q)) \<and>
        list_all (valid_vote ossl c h) (get_votes h q) \<and>
        get_vote_stake h q = of_nat (stake_of c (voters q h)) \<and>
        (h \<in> finalized_blocks q \<longrightarrow> 2 * total_stake_of c \<le> 3 * stake_of c (voters q h)))"

lemma get_votes_at: "get_votes h q = omap_at [] h (block_votes q)"
  by (simp add: get_votes_def omap_at_def)

lemma get_vote_stake_at: "get_vote_stake h q = omap_at 0 h (vote_stake_totals q)"
  by (simp add: get_vote_stake_def omap_at_def)

text \<open>What a vote does to the collector: nothing visible, or one more vote of one validator.\<close>

lemma add_vote_cases:
  assumes "add_vote ossl vote c q = (r, q')"
  obtains (same) "\<And>h. get_votes h q' = get_votes h q"
      "\<And>h. get_vote_stake h q' = get_vote_stake h q" "finalized_blocks q' = finalized_blocks q"
  | (counted) v where "r" "v \<in> set (validators c)" "v_address v = vote_validator_address vote"
      "valid_vote ossl c (vote_block_hash vote) vote"
      "vote_validator_address vote \<notin> voters q (vote_block_hash vote)"
      "\<And>h. get_votes h q' = get_votes h q @ (if h = vote_block_hash vote then [vote] else [])"
      "\<And>h. get_vote_stake h q' = get_vote_stake h q + (if h = vote_block_hash vote then v_amount v else 0)"
      "finalized_blocks q' = finalized_blocks q \<union>
        (if 0 < get_total_active_stake c \<and>
            get_total_active_stake c * 2 \<le> get_vote_stake (vote_block_hash vote) q' * 3
         then {vote_block_hash vote} else {})"
proof -
  let ?h = "vote_block_hash vote" and ?a = "vote_validator_address vote"
  let ?find = "find (\<lambda>val. v_address val = ?a) (validators c)"
  let ?dup = "list_ex (\<lambda>existing. vote_validator_address existing = ?a) (omap_at [] ?h (block_votes q))"
  note defs = add_vote_def Let_def get_votes_at get_vote_stake_at
  consider (bad) "q' = q" | (dup) "q' = q\<lparr>block_votes := omap_touch [] ?h (block_votes q)\<rparr>"
    | (ok) v where "?find = Some v" "vote_verify_signature ossl vote" "\<not> ?dup" "v_amount v \<noteq> 0"
        "v_public_key v = [] \<or> v_public_key v = vote_public_key vote"
    using assms by (cases ?find) (auto simp: add_vote_def Let_def split: if_splits)
  then show thesis
  proof cases
    case bad
    then show ?thesis by (intro same) simp_all
  next
    case dup
    then show ?thesis by (intro same) (simp_all add: get_votes_at get_vote_stake_at)
  next
    case (ok v)
    from ok(1) have v: "v \<in> set (validators c)" "v_address v = ?a" by (auto simp: find_Some_iff)
    have q': "r" "q' = (let total = omap_at 0 ?h (vote_stake_totals q) + v_amount v;
        q2 = q\<lparr>block_votes := omap_put ?h (omap_at [] ?h (block_votes q) @ [vote])
                  (omap_touch [] ?h (block_votes q)),
               vote_stake_totals := omap_put ?h total (vote_stake_totals q)\<rparr>
        in if get_total_active_stake c > 0 \<and> total * 3 \<ge> get_total_active_stake c * 2
           then q2\<lparr>finalized_blocks := insert ?h (finalized_blocks q2)\<rparr> else q2)"
      using assms ok by (auto simp: add_vote_def Let_def)
    show ?thesis
    proof (rule counted [OF q'(1) v])
      show "valid_vote ossl c ?h vote" using ok v by (auto simp: valid_vote_def)
      show "?a \<notin> voters q ?h" using ok(3) by (auto simp: voters_def get_votes_at list_ex_iff)
      show "get_votes h q' = get_votes h q @ (if h = ?h then [vote] else [])" for h
        by (simp add: q' get_votes_at Let_def)
      show "get_vote_stake h q' = get_vote_stake h q + (if h = ?h then v_amount v else 0)" for h
        by (simp add: q' get_vote_stake_at Let_def)
      show "finalized_blocks q' = finalized_blocks q \<union>
        (if 0 < get_total_active_stake c \<and> get_total_active_stake c * 2 \<le> get_vote_stake ?h q' * 3
         then {?h} else {})"
        by (simp add: q' get_vote_stake_at Let_def)
    qed
  qed
qed

lemma word_quorum:
  assumes "s \<le> t" "3 * t < 2 ^ 64"
  shows "(of_nat t * 2 :: u64) \<le> of_nat s * 3 \<longleftrightarrow> 2 * t \<le> 3 * s"
proof -
  have w: "of_nat t * 2 = (of_nat (2 * t) :: u64)" "of_nat s * 3 = (of_nat (3 * s) :: u64)"
    by (simp_all add: mult.commute)
  have "2 * t < 2 ^ 64" "3 * s < 2 ^ 64" using assms by linarith+
  then have "unat (of_nat (2 * t) :: u64) = 2 * t" "unat (of_nat (3 * s) :: u64) = 3 * s"
    by (simp_all add: unat_of_nat take_bit_nat_eq_self del: of_nat_mult)
  then show ?thesis unfolding w word_le_nat_alt by simp
qed

lemma add_vote_inv:
  assumes inv: "quorum_inv ossl c q"
  shows "quorum_inv ossl c (snd (add_vote ossl vote c q))"
proof -
  obtain r q' where rq: "add_vote ossl vote c q = (r, q')" by (cases "add_vote ossl vote c q")
  from rq have "quorum_inv ossl c q'"
  proof (cases rule: add_vote_cases)
    case same
    with inv show ?thesis by (simp add: quorum_inv_def voters_def)
  next
    case (counted v)
    let ?h = "vote_block_hash vote"
    from inv have fit: "stakes_fit c" by (simp add: quorum_inv_def)
    have voters: "voters q' h = voters q h \<union> (if h = ?h then {v_address v} else {})" for h
      using counted(3) by (auto simp: voters_def counted(6))
    have stake: "stake_of c (voters q' h) = stake_of c (voters q h) + (if h = ?h then unat (v_amount v) else 0)" for h
      using stake_of_insert [of c v "voters q h"] fit counted(2,3,5) by (auto simp: voters stakes_fit_def)
    have words: "get_vote_stake h q' = of_nat (stake_of c (voters q' h))" for h
      using inv by (simp add: quorum_inv_def stake counted(7))
    have final: "2 * total_stake_of c \<le> 3 * stake_of c (voters q' h)" if "h \<in> finalized_blocks q'" for h
    proof (cases "h \<in> finalized_blocks q")
      case True
      with inv have "2 * total_stake_of c \<le> 3 * stake_of c (voters q h)" by (simp add: quorum_inv_def)
      then show ?thesis by (simp add: stake)
    next
      case False
      with that counted(8) have "h = ?h" "get_total_active_stake c * 2 \<le> get_vote_stake h q' * 3"
        by (auto split: if_splits)
      then show ?thesis
        using word_quorum [OF stake_of_le_total, of c "voters q' h"] fit
        by (simp add: words total_active_stake_eq stakes_fit_def)
    qed
    have "distinct (map vote_validator_address (get_votes h q'))" for h
      using inv counted(5) by (auto simp: quorum_inv_def counted(6) voters_def)
    moreover have "list_all (valid_vote ossl c h) (get_votes h q')" for h
      using inv counted(4) by (auto simp: quorum_inv_def counted(6))
    ultimately show ?thesis using fit words final unfolding quorum_inv_def by blast
  qed
  with rq show ?thesis by simp
qed

lemma empty_quorum_inv:
  "stakes_fit c \<Longrightarrow> block_votes q = [] \<Longrightarrow> vote_stake_totals q = [] \<Longrightarrow> finalized_blocks q = {} \<Longrightarrow>
     quorum_inv ossl c q"
  by (simp add: quorum_inv_def get_votes_def get_vote_stake_def voters_def stake_of_def)

interpretation quorum: safe_system
  "\<lambda>q. q = new_collector \<and> stakes_fit c" "quorum_step ossl c" "quorum_inv ossl c" for ossl c
proof
  show "q = new_collector \<and> stakes_fit c \<Longrightarrow> quorum_inv ossl c q" for q
    by (rule empty_quorum_inv) (simp_all add: new_collector_def)
  show "quorum_inv ossl c q \<Longrightarrow> quorum_step ossl c q q' \<Longrightarrow> quorum_inv ossl c q'" for q q'
    by (elim quorum_stepE)
      (auto simp: add_vote_inv clear_quorum_def intro!: empty_quorum_inv, simp add: quorum_inv_def)
qed

section \<open>Finality\<close>

text \<open>C7: Let the validator set stay the same while a collector gathers votes, with different
  addresses and stakes whose total times three stays below 2 to the power 64. A block hash then counts as
  finalized only if validators that hold at least two thirds of the active stake voted for it, each
  counted once; each vote names this hash and a validator with stake, and its signature verifies under
  the key inside the vote, which is the validator's registered key if it registered one (for a
  validator without a registered key any key is accepted, as in the code). The recorded vote stake is
  exactly their stake.
\<close>

theorem finalized_has_two_thirds:
  assumes "reach (\<lambda>q. q = new_collector \<and> stakes_fit c) (quorum_step ossl c) q"
    and "is_block_finalized h q"
  shows "2 * total_stake_of c \<le> 3 * stake_of c (voters q h) \<and>
    distinct (map vote_validator_address (get_votes h q)) \<and>
    list_all (valid_vote ossl c h) (get_votes h q) \<and>
    unat (get_vote_stake h q) = stake_of c (voters q h)"
proof -
  from quorum.reach_inv [OF assms(1)] have inv: "quorum_inv ossl c q" .
  have "stake_of c (voters q h) < 2 ^ 64"
    using stake_of_le_total [of c "voters q h"] inv by (simp add: quorum_inv_def stakes_fit_def)
  then have "unat (of_nat (stake_of c (voters q h)) :: u64) = stake_of c (voters q h)"
    by (simp add: unat_of_nat take_bit_nat_eq_self)
  with inv assms(2) show ?thesis by (simp add: quorum_inv_def is_block_finalized_def)
qed

text \<open>C8: Accountable safety, for a validator set that stays the same while votes are gathered, with different
  addresses and stakes whose total times three stays below 2 to the power 64 (beyond that bound a single small
  validator can finalize a block: \<open>wrapped_quorum_finalizes\<close>). If two block hashes are both finalized, the
  validators that voted for both hold at least a third of the active stake, and the collector holds the
  evidence against each of them: two votes in its name, one per hash, both of which pass the
  checks on signature, key and stake.
\<close>

theorem conflicting_finality_accountable:
  assumes "reach (\<lambda>q. q = new_collector \<and> stakes_fit c) (quorum_step ossl c) q"
    and "is_block_finalized h q" "is_block_finalized h' q"
  shows "total_stake_of c \<le> 3 * stake_of c (voters q h \<inter> voters q h') \<and>
    (\<forall>a\<in>voters q h \<inter> voters q h'. \<exists>vote\<in>set (get_votes h q). \<exists>vote'\<in>set (get_votes h' q).
       vote_validator_address vote = a \<and> vote_validator_address vote' = a \<and>
       valid_vote ossl c h vote \<and> valid_vote ossl c h' vote')"
proof -
  from quorum.reach_inv [OF assms(1)] have inv: "quorum_inv ossl c q" .
  with assms(2,3) have "2 * total_stake_of c \<le> 3 * stake_of c (voters q h)"
    "2 * total_stake_of c \<le> 3 * stake_of c (voters q h')"
    by (auto simp: quorum_inv_def is_block_finalized_def)
  with stake_of_inter_union [of c "voters q h" "voters q h'"]
    stake_of_le_total [of c "voters q h \<union> voters q h'"]
  have "total_stake_of c \<le> 3 * stake_of c (voters q h \<inter> voters q h')" by linarith
  moreover have "valid_vote ossl c g vote" if "vote \<in> set (get_votes g q)" for g vote
    using inv that by (auto simp: quorum_inv_def list_all_iff)
  ultimately show ?thesis by (fastforce simp: voters_def)
qed

definition demo_vote :: "byte \<Rightarrow> string \<Rightarrow> string \<Rightarrow> mermai_block_vote" where
  "demo_vote k who h = snd (vote_sign toy_ossl (Some k)
     \<lparr>vote_validator_address = who, vote_block_hash = h, vote_block_height = 1, vote_timestamp = 30,
      vote_public_key = [], vote_signature = []\<rparr>)"

lemma demo_vote_simps [simp]:
  "vote_validator_address (demo_vote k who h) = who" "vote_block_hash (demo_vote k who h) = h"
  "vote_public_key (demo_vote k who h) = [k]" "vote_verify_signature toy_ossl (demo_vote k who h)"
  by (simp_all add: demo_vote_def vote_sign_def vote_verify_signature_def sign_payload_def
      exported_key_def toy_ossl_def vote_signing_payload_def)

definition demo_collector :: mermai_quorum_collector where
  "demo_collector = foldl (\<lambda>q v. snd (add_vote toy_ossl v two_validators q)) new_collector
     [demo_vote 7 ''alice'' ''x'', demo_vote 9 ''bob'' ''x'', demo_vote 7 ''alice'' ''y'', demo_vote 9 ''bob'' ''y'']"

lemma votes_reach:
  "reach start (quorum_step ossl c) q \<Longrightarrow>
     reach start (quorum_step ossl c) (foldl (\<lambda>q v. snd (add_vote ossl v c q)) q vs)"
  by (induction vs arbitrary: q) (auto intro: reach_step quorum_vote)

lemma demo_collector_reach:
  "reach (\<lambda>q. q = new_collector \<and> stakes_fit two_validators) (quorum_step toy_ossl two_validators) demo_collector"
proof -
  let ?R = "reach (\<lambda>q. q = new_collector \<and> stakes_fit two_validators) (quorum_step toy_ossl two_validators)"
  have "?R new_collector"
    by (rule reach_start) (simp add: stakes_fit_def two_validators_eq total_stake_of_def)
  then show ?thesis unfolding demo_collector_def by (rule votes_reach)
qed

lemma two_validators_total: "get_total_active_stake two_validators = 5000000"
  by (simp add: get_total_active_stake_def two_validators_eq)

lemma demo_collector_final: "finalized_blocks demo_collector = {''x'', ''y''}"
  by (simp add: demo_collector_def new_collector_def add_vote_def two_validators_eq two_validators_total
      Let_def omap_at_def omap_touch_def less_char_def insert_commute)

lemma finalized_has_two_thirds_witness:
  "2 * total_stake_of two_validators \<le> 3 * stake_of two_validators (voters demo_collector ''x'')"
  using finalized_has_two_thirds [OF demo_collector_reach, of "''x''"]
  by (simp add: is_block_finalized_def demo_collector_final)

lemma conflicting_finality_accountable_witness:
  "total_stake_of two_validators \<le>
     3 * stake_of two_validators (voters demo_collector ''x'' \<inter> voters demo_collector ''y'')"
  using conflicting_finality_accountable [OF demo_collector_reach, of "''x''" "''y''"]
  by (simp add: is_block_finalized_def demo_collector_final)

text \<open>
  A validator that registered no key is open to impersonation: a vote in its name is counted
  whatever key signed it.
\<close>

lemma keyless_validator_impersonated:
  assumes "find (\<lambda>val. v_address val = vote_validator_address vote) (validators c) = Some v" "v_public_key v = []"
    and "v_amount v \<noteq> 0" "vote_verify_signature ossl vote"
  shows "vote_validator_address vote \<in> voters (snd (add_vote ossl vote c q)) (vote_block_hash vote)"
proof (cases "vote_validator_address vote \<in> voters q (vote_block_hash vote)")
  case True
  with assms show ?thesis
    by (auto simp: add_vote_def voters_def get_votes_at Let_def list_ex_iff)
next
  case False
  then have "\<not> list_ex (\<lambda>existing. vote_validator_address existing = vote_validator_address vote)
      (omap_at [] (vote_block_hash vote) (block_votes q))"
    unfolding voters_def get_votes_at list_ex_iff by (metis image_eqI)
  with assms show ?thesis by (simp add: add_vote_def voters_def get_votes_at Let_def)
qed

text \<open>
  Above the bound the comparison wraps around: with a total stake of 2 to the power 63 the
  doubled total is 0, and one vote of a validator with the minimum stake finalises a block.
\<close>

definition huge_stakes :: mermai_time_weighted_pos where
  "huge_stakes = set_validators
     [\<lparr>v_address = ''whale'', v_amount = 9223372036853775808, lock_time = 1, last_proposal = 0,
       v_weight = 0, v_public_key = []\<rparr>,
      \<lparr>v_address = ''bob'', v_amount = 1000000, lock_time = 1, last_proposal = 0,
       v_weight = 0, v_public_key = []\<rparr>] new_pos"

lemma huge_stakes_total: "get_total_active_stake huge_stakes = 9223372036854775808"
  by (simp add: get_total_active_stake_def huge_stakes_def)

text \<open>The quorum test is done in 64-bit arithmetic: once the active stakes add up to 2 to the
  power 63, the vote of a single validator with the minimum stake, a fraction of about 1 in 9
  trillion of the total, finalises a block.\<close>
theorem wrapped_quorum_finalizes:
  "is_block_finalized ''x'' (snd (add_vote toy_ossl (demo_vote 9 ''bob'' ''x'') huge_stakes new_collector)) \<and>
   stake_of huge_stakes {''bob''} = 1000000 \<and> total_stake_of huge_stakes = 2 ^ 63"
proof -
  have "validators huge_stakes \<noteq> []" "stake_of huge_stakes {''bob''} = 1000000"
    "total_stake_of huge_stakes = 2 ^ 63"
    by (simp_all add: huge_stakes_def stake_of_def total_stake_of_def)
  moreover have "find (\<lambda>val. v_address val = ''bob'') (validators huge_stakes) =
      Some (validators huge_stakes ! 1)" "v_public_key (validators huge_stakes ! 1) = []"
    "v_amount (validators huge_stakes ! 1) = 1000000"
    by (simp_all add: huge_stakes_def)
  ultimately show ?thesis
    by (simp add: is_block_finalized_def add_vote_def new_collector_def huge_stakes_total Let_def omap_at_def)
qed

end
