(* ===== verification/Mermai_Network.thy ===== *)
theory Mermai_Network
  imports Mermai_P2P Mermai_Ledger Mermai_Quorum
begin

text \<open>
  The peer-to-peer node (second half of \<^verbatim>\<open>src/src/network/mermai_network.cpp\<close>): what a message
  does to the chain, the database, the votes and the peer, and the bookkeeping of peers. The
  objects the node shares with the rest of the program are one record, wired as
  \<^verbatim>\<open>MermaiNode\<close> does it: the network and the chain use the same consensus engine. A message is
  handled for one peer, given and returned; the threads interleave whole handlers.
\<close>

section \<open>Shared state and message handling\<close>

record node_state =
  ns_chain :: "mermai_blockchain option"
  ns_env :: chain_env
  ns_db :: "mermai_db option"
  ns_quorum :: "mermai_quorum_collector option"

text \<open>\<^verbatim>\<open>can_add_block(b) && (!database || apply_block(b)) && add_block(b)\<close>\<close>

definition accept_block :: "'k openssl \<Rightarrow> u64 \<Rightarrow> mermai_block \<Rightarrow> node_state \<Rightarrow> bool \<times> node_state" where
  "accept_block ossl now b w =
     (case ns_chain w of
        None \<Rightarrow> (False, w)
      | Some bc \<Rightarrow>
          let (can_add, env1) = can_add_block ossl now (Some b) bc (ns_env w); w1 = w\<lparr>ns_env := env1\<rparr>
          in if \<not> can_add then (False, w1)
             else let (applied, db) = (case ns_db w of
                        None \<Rightarrow> (True, None)
                      | Some d \<Rightarrow> (case apply_block ossl now (Some b) d of (r, d') \<Rightarrow> (r, Some d')));
                      w2 = w1\<lparr>ns_db := db\<rparr>
               in if \<not> applied then (False, w2)
                  else let (added, bc', env2) = add_block ossl now (Some b) (bc, env1)
                    in (added, w2\<lparr>ns_chain := Some bc', ns_env := env2\<rparr>))"

fun accept_blocks :: "'k openssl \<Rightarrow> u64 \<Rightarrow> mermai_block list \<Rightarrow> node_state \<Rightarrow> bool \<times> node_state" where
  "accept_blocks ossl now [] w = (True, w)"
| "accept_blocks ossl now (b # bs) w =
     (case accept_block ossl now b w of
        (accepted, w') \<Rightarrow> if \<not> accepted then (False, w') else accept_blocks ossl now bs w')"

definition local_blocks :: "mermai_blockchain \<Rightarrow> mermai_block list" where
  "local_blocks bc = List.map_filter (\<lambda>h. get_block bc (of_nat h)) [0..<Suc (unat (get_height bc))]"

text \<open>The comparison of the local chain with the front of a longer candidate.\<close>

definition same_prefix :: "mermai_blockchain \<Rightarrow> mermai_block list \<Rightarrow> bool" where
  "same_prefix bc candidate \<longleftrightarrow>
     list_all (\<lambda>h. case get_block bc (of_nat h) of
         None \<Rightarrow> False
       | Some b \<Rightarrow> serialize_block b = serialize_block (candidate ! h)) [0..<Suc (unat (get_height bc))]"

definition handle_get_blocks :: "u32 \<Rightarrow> mermai_peer \<Rightarrow> node_state \<Rightarrow> mermai_peer" where
  "handle_get_blocks junk_size p w =
     send_message (new_message BLOCKS junk_size (encode_chain_payload
       (case ns_chain w of None \<Rightarrow> [] | Some bc \<Rightarrow> map Some (local_blocks bc)))) p"

definition handle_blocks ::
  "'k openssl \<Rightarrow> u64 \<Rightarrow> bytes \<Rightarrow> mermai_peer \<Rightarrow> node_state \<Rightarrow> mermai_peer \<times> node_state" where
  "handle_blocks ossl now d p w =
     (case ns_chain w of
        None \<Rightarrow> (p, w)
      | Some bc \<Rightarrow>
          let candidate = decode_chain_payload d
          in if candidate = [] then (decrease_reputation 10 p, w)
             else if ns_db w \<noteq> None
             then if length candidate \<le> unat (get_height bc + 1) then (p, w)
                  else if \<not> same_prefix bc candidate then (decrease_reputation 10 p, w)
                  else let (accepted, w') = accept_blocks ossl now (drop (unat (get_height bc) + 1) candidate) w
                    in (if accepted then p else decrease_reputation 10 p, w')
             else let (replaced, bc', env') = replace_chain_if_longer ossl now (map Some candidate) (bc, ns_env w)
               in (if replaced then p else decrease_reputation 10 p, w\<lparr>ns_chain := Some bc', ns_env := env'\<rparr>))"

definition handle_block ::
  "'k openssl \<Rightarrow> u64 \<Rightarrow> bytes \<Rightarrow> mermai_peer \<Rightarrow> node_state \<Rightarrow> mermai_peer \<times> node_state" where
  "handle_block ossl now d p w =
     (case deserialize_block (chars_of_bytes d) of
        Inl _ \<Rightarrow> (decrease_reputation 10 p, w)
      | Inr b \<Rightarrow> (case accept_block ossl now b w of
                    (accepted, w') \<Rightarrow> (if accepted then p else decrease_reputation 10 p, w')))"

definition handle_new_transaction :: "'k openssl \<Rightarrow> u64 \<Rightarrow> bytes \<Rightarrow> node_state \<Rightarrow> node_state" where
  "handle_new_transaction ossl now d w =
     (case deserialize_tx (chars_of_bytes d) of
        Inl _ \<Rightarrow> w
      | Inr tx \<Rightarrow>
          (case ns_db w of
             None \<Rightarrow> w
           | Some db \<Rightarrow> if tx_verify ossl now tx then w\<lparr>ns_db := Some (snd (db_add_to_mempool ossl tx db))\<rparr> else w))"

definition handle_block_vote :: "'k openssl \<Rightarrow> bytes \<Rightarrow> node_state \<Rightarrow> node_state" where
  "handle_block_vote ossl d w =
     (case deserialize_vote (chars_of_bytes d) of
        Inl _ \<Rightarrow> w
      | Inr v \<Rightarrow>
          (case (ns_quorum w, consensus_engine (ns_env w)) of
             (Some q, Some c) \<Rightarrow> w\<lparr>ns_quorum := Some (snd (add_vote ossl v c q))\<rparr>
           | _ \<Rightarrow> w))"

definition handle_message ::
  "'k openssl \<Rightarrow> u64 \<Rightarrow> u32 \<Rightarrow> P2PMessage \<Rightarrow> mermai_peer \<times> node_state \<Rightarrow> mermai_peer \<times> node_state" where
  "handle_message ossl now junk_size m s =
     (case (msg_type m, s) of
        (GET_BLOCKS, (p, w)) \<Rightarrow> (handle_get_blocks junk_size p w, w)
      | (BLOCKS, (p, w)) \<Rightarrow> handle_blocks ossl now (payload m) p w
      | (BLOCK, (p, w)) \<Rightarrow> handle_block ossl now (payload m) p w
      | (NEW_TRANSACTION, (p, w)) \<Rightarrow> (p, handle_new_transaction ossl now (payload m) w)
      | (BLOCK_VOTE, (p, w)) \<Rightarrow> (p, handle_block_vote ossl (payload m) w)
      | (_, (p, w)) \<Rightarrow> (p, w))"

section \<open>The node and its peers\<close>

text \<open>A \<^verbatim>\<open>std::thread\<close> that runs an accept loop: not joinable, in its loop, or past its loop and not yet joined.\<close>

datatype thread_state = No_thread | Accepting | Loop_ended

record mermai_p2p_node =
  node_id :: string
  listen_port :: u16
  node_peers :: "mermai_peer list"
  banned_ips :: "string set"
  listening :: bool
  listen_socket :: nat
  listener_thread :: thread_state
  peer_reputation_map :: "(string, int) omap"
  block_rate_counts :: "(string, int) omap"
  subnet_connection_counts :: "(string, int) omap"

definition MAX_PEERS :: nat where "MAX_PEERS = 100"
definition RATE_LIMIT_PER_WINDOW :: int where "RATE_LIMIT_PER_WINDOW = 15"
definition MAX_PEERS_PER_SUBNET :: int where "MAX_PEERS_PER_SUBNET = 3"

definition new_node :: "u64 \<Rightarrow> u16 \<Rightarrow> mermai_p2p_node" where
  "new_node now port =
     \<lparr>node_id = ''node_'' @ dec_string (unat now), listen_port = port, node_peers = [], banned_ips = {},
      listening = False, listen_socket = 0, listener_thread = No_thread, peer_reputation_map = [], block_rate_counts = [], subnet_connection_counts = []\<rparr>"

definition hello_message :: "u32 \<Rightarrow> string \<Rightarrow> u16 \<Rightarrow> mermai_blockchain option \<Rightarrow> P2PMessage" where
  "hello_message junk_size nid port bc =
     new_message HELLO junk_size (append_u32 1 @ append_string nid @
       [ucast (drop_bit 8 port), ucast port] @ append_u32 (case bc of None \<Rightarrow> 0 | Some c \<Rightarrow> get_height c))"

definition add_peer :: "mermai_peer \<Rightarrow> mermai_p2p_node \<Rightarrow> mermai_p2p_node" where
  "add_peer p n = (if length (node_peers n) < MAX_PEERS then n\<lparr>node_peers := node_peers n @ [p]\<rparr> else n)"

definition remove_peer :: "string \<Rightarrow> mermai_p2p_node \<Rightarrow> mermai_p2p_node" where
  "remove_peer pid n = n\<lparr>node_peers := filter (\<lambda>p. peer_id p \<noteq> pid) (node_peers n)\<rparr>"

definition get_peer :: "string \<Rightarrow> mermai_p2p_node \<Rightarrow> mermai_peer option" where
  "get_peer pid n = find (\<lambda>p. peer_id p = pid) (node_peers n)"

definition get_peer_count :: "mermai_p2p_node \<Rightarrow> u32" where
  "get_peer_count n = of_nat (length (node_peers n))"

definition ban_peer :: "string \<Rightarrow> mermai_p2p_node \<Rightarrow> mermai_p2p_node" where
  "ban_peer addr n = n\<lparr>banned_ips := insert addr (banned_ips n)\<rparr>"

definition is_banned :: "string \<Rightarrow> mermai_p2p_node \<Rightarrow> bool" where
  "is_banned addr n \<longleftrightarrow> addr \<in> banned_ips n"

definition broadcast :: "P2PMessage \<Rightarrow> mermai_p2p_node \<Rightarrow> mermai_p2p_node" where
  "broadcast m n = n\<lparr>node_peers := map (send_message m) (node_peers n)\<rparr>"

definition broadcast_block :: "u32 \<Rightarrow> mermai_block option \<Rightarrow> mermai_p2p_node \<Rightarrow> mermai_p2p_node" where
  "broadcast_block junk_size block = broadcast (new_message BLOCK junk_size
     (case block of None \<Rightarrow> [] | Some b \<Rightarrow> bytes_of_chars (serialize_block b)))"

definition broadcast_transaction :: "u32 \<Rightarrow> mermai_transaction option \<Rightarrow> mermai_p2p_node \<Rightarrow> mermai_p2p_node" where
  "broadcast_transaction junk_size tx = broadcast (new_message NEW_TRANSACTION junk_size
     (case tx of None \<Rightarrow> [] | Some t \<Rightarrow> bytes_of_chars (serialize_tx t)))"

definition broadcast_vote :: "u32 \<Rightarrow> mermai_block_vote \<Rightarrow> mermai_p2p_node \<Rightarrow> mermai_p2p_node" where
  "broadcast_vote junk_size v = broadcast (new_message BLOCK_VOTE junk_size (bytes_of_chars (serialize_vote v)))"

definition sync_blocks :: "u32 \<Rightarrow> mermai_p2p_node \<Rightarrow> bool \<times> mermai_p2p_node" where
  "sync_blocks junk_size n = (True, broadcast (new_message GET_BLOCKS junk_size []) n)"

text \<open>
  Connecting: \<open>dial\<close> is what \<^verbatim>\<open>socket\<close>, \<^verbatim>\<open>inet_pton\<close> and \<^verbatim>\<open>connect\<close> give, \<open>None\<close> for a
  failure. The peer's thread keeps its own handle, so the greeted peer is also the result.
\<close>

definition connect_to_peer ::
  "u64 \<Rightarrow> u32 \<Rightarrow> (string \<Rightarrow> u16 \<Rightarrow> socket option) \<Rightarrow> mermai_blockchain option \<Rightarrow> string \<Rightarrow> u16 \<Rightarrow>
     mermai_p2p_node \<Rightarrow> bool \<times> mermai_peer option \<times> mermai_p2p_node" where
  "connect_to_peer now junk_size dial bc addr port n =
     (if is_banned addr n then (False, None, n)
      else case dial addr port of
             None \<Rightarrow> (False, None, n)
           | Some s \<Rightarrow>
               let p = send_message (hello_message junk_size (node_id n) (listen_port n) bc)
                         (new_peer now (addr @ '':'' @ dec_string (unat port)) addr port (Some s))
               in (True, Some p, add_peer p n))"

definition accept_connection :: "u64 \<Rightarrow> string \<Rightarrow> nat \<Rightarrow> socket \<Rightarrow> mermai_p2p_node \<Rightarrow> mermai_peer option \<times> mermai_p2p_node" where
  "accept_connection now ip handle s n =
     (if is_banned ip n then (None, n)
      else let p = new_peer now (''incoming-'' @ dec_string handle) ''incoming'' 0 (Some s)
        in (Some p, add_peer p n))"

text \<open>One turn of a peer's thread; the result says whether the loop goes on. \<open>junk\<close> is the
  uninitialised memory of the message variable.\<close>

definition outgoing_turn ::
  "'k openssl \<Rightarrow> u64 \<Rightarrow> byte \<times> u32 \<Rightarrow> mermai_peer \<times> node_state \<Rightarrow> bool \<times> mermai_peer \<times> node_state" where
  "outgoing_turn ossl now junk s =
     (case receive_message junk now (fst s) of
        (None, p) \<Rightarrow> (False, p, snd s)
      | (Some m, p) \<Rightarrow>
          if payload m = [] \<and> msg_type m \<noteq> HELLO then (False, p, snd s)
          else (True, handle_message ossl now (snd junk) m (p, snd s)))"

definition incoming_turn ::
  "'k openssl \<Rightarrow> u64 \<Rightarrow> byte \<times> u32 \<Rightarrow> string \<Rightarrow> u16 \<Rightarrow> mermai_peer \<times> node_state \<Rightarrow> bool \<times> mermai_peer \<times> node_state" where
  "incoming_turn ossl now junk nid port s =
     (case receive_message junk now (fst s) of
        (None, p) \<Rightarrow> (False, p, snd s)
      | (Some m, p) \<Rightarrow>
          if msg_type m = HELLO
          then (True, send_message (hello_message (snd junk) nid port (ns_chain (snd s))) p, snd s)
          else if payload m \<noteq> [] then (True, handle_message ossl now (snd junk) m (p, snd s))
          else (False, disconnect p, snd s))"

section \<open>Reputation, rate limits and subnets\<close>

definition update_peer_reputation :: "string \<Rightarrow> int \<Rightarrow> mermai_p2p_node \<Rightarrow> mermai_p2p_node" where
  "update_peer_reputation ip delta n =
     (let r = omap_at 0 ip (peer_reputation_map n) + delta;
          n1 = n\<lparr>peer_reputation_map := omap_put ip r (peer_reputation_map n)\<rparr>
      in if r \<le> - 100 then n1\<lparr>banned_ips := insert ip (banned_ips n1)\<rparr> else n1)"

definition get_peer_reputation :: "string \<Rightarrow> mermai_p2p_node \<Rightarrow> int" where
  "get_peer_reputation ip n = (case omap_find (peer_reputation_map n) ip of Some r \<Rightarrow> r | None \<Rightarrow> 0)"

definition is_peer_banned :: "string \<Rightarrow> mermai_p2p_node \<Rightarrow> bool" where
  "is_peer_banned ip n \<longleftrightarrow> ip \<in> banned_ips n"

text \<open>The counting both limiters share: \<^verbatim>\<open>int& count = counts[key]\<close>.\<close>

definition take_slot :: "int \<Rightarrow> string \<Rightarrow> (string, int) omap \<Rightarrow> bool \<times> (string, int) omap" where
  "take_slot limit key counts =
     (let count = omap_at 0 key counts
      in if count \<ge> limit then (False, omap_touch 0 key counts) else (True, omap_put key (count + 1) counts))"

definition allow_block_from_peer :: "string \<Rightarrow> mermai_p2p_node \<Rightarrow> bool \<times> mermai_p2p_node" where
  "allow_block_from_peer ip n =
     (case take_slot RATE_LIMIT_PER_WINDOW ip (block_rate_counts n) of
        (ok, counts) \<Rightarrow> (ok, n\<lparr>block_rate_counts := counts\<rparr>))"

definition get_subnet :: "string \<Rightarrow> string" where
  "get_subnet ip = (if CHR ''.'' \<in> set ip then rev (drop 1 (dropWhile (\<lambda>c. c \<noteq> CHR ''.'') (rev ip))) else ip)"

definition allow_subnet_connection :: "string \<Rightarrow> mermai_p2p_node \<Rightarrow> bool \<times> mermai_p2p_node" where
  "allow_subnet_connection ip n =
     (case take_slot MAX_PEERS_PER_SUBNET (get_subnet ip) (subnet_connection_counts n) of
        (ok, counts) \<Rightarrow> (ok, n\<lparr>subnet_connection_counts := counts\<rparr>))"

section \<open>Discovery\<close>

record mermai_bootstrap_node =
  boot_address :: string
  boot_port :: u16
  boot_id :: string

definition get_bootstrap_nodes :: "mermai_bootstrap_node list" where
  "get_bootstrap_nodes = [\<lparr>boot_address = ''127.0.0.1'', boot_port = 6333, boot_id = ''bootstrap-node-1''\<rparr>]"

definition discover_peers ::
  "u64 \<Rightarrow> u32 \<Rightarrow> (string \<Rightarrow> u16 \<Rightarrow> socket option) \<Rightarrow> mermai_blockchain option \<Rightarrow> mermai_p2p_node \<Rightarrow> bool \<times> mermai_p2p_node" where
  "discover_peers now junk_size dial bc n =
     (True, foldl (\<lambda>n b. snd (snd (connect_to_peer now junk_size dial bc (boot_address b) (boot_port b) n))) n
        get_bootstrap_nodes)"

section \<open>The chain and the database stay in step\<close>

lemma consult_validator_again:
  assumes "consult_validator ossl b env = (True, env1)"
  shows "consult_validator ossl b env1 = (True, env1)"
proof (cases "consensus_engine env")
  case None
  with assms show ?thesis by (auto simp: consult_validator_def)
next
  case (Some c)
  let ?k = "(height b, slot_of (blk_timestamp b))"
  from assms Some obtain seen' where
      v: "validate_proposal ossl (Some b) (blk_timestamp b) (c, seen_props env) = (True, c, seen')"
    and e: "env1 = env\<lparr>consensus_engine := Some c, seen_props := seen'\<rparr>"
    by (auto simp: consult_validator_def validate_proposal_def Let_def split: prod.splits if_splits option.splits)
  then have "omap_find seen' ?k = Some (block_hash_hex ossl b)"
    by (auto simp: validate_proposal_def Let_def split: if_splits option.splits)
  with v have "validate_proposal ossl (Some b) (blk_timestamp b) (c, seen') = (True, c, seen')"
    by (auto simp: validate_proposal_def Let_def split: if_splits option.splits)
  then show ?thesis by (simp add: consult_validator_def e)
qed

lemma can_add_block_again:
  assumes "can_add_block ossl now (Some b) bc env = (True, env1)"
  shows "can_add_block ossl now (Some b) bc env1 = (True, env1)"
proof -
  from assms obtain v where c: "consult_validator ossl b env = (v, env1)"
    by (auto simp: can_add_block_def Let_def split: if_splits prod.splits)
  with assms have "v" by (auto simp: can_add_block_def Let_def split: if_splits)
  with c have "consult_validator ossl b env1 = (True, env1)" by (simp add: consult_validator_again)
  with assms c \<open>v\<close> show ?thesis by (auto simp: can_add_block_def Let_def split: if_splits)
qed

lemma accept_block_cases:
  assumes "accept_block ossl now b w = (r, w')" "ns_chain w = Some bc" "ns_db w = Some db"
  obtains (refused) "\<not> r" "ns_chain w' = Some bc" "ns_db w' = Some db"
      "\<not> fst (can_add_block ossl now (Some b) bc (ns_env w))"
  | (failed) db' where "\<not> r" "ns_chain w' = Some bc" "ns_db w' = Some db'" "apply_block ossl now (Some b) db = (False, db')"
      "fst (can_add_block ossl now (Some b) bc (ns_env w))"
  | (accepted) db' where "r" "ns_chain w' = Some (bc\<lparr>chain := chain bc @ [b]\<rparr>)" "ns_db w' = Some db'"
      "apply_block ossl now (Some b) db = (True, db')" "fst (can_add_block ossl now (Some b) bc (ns_env w))"
proof -
  obtain can env1 where c: "can_add_block ossl now (Some b) bc (ns_env w) = (can, env1)" by fastforce
  obtain ap db' where a: "apply_block ossl now (Some b) db = (ap, db')" by fastforce
  show thesis
  proof (cases can)
    case False
    with assms c refused show thesis by (auto simp: accept_block_def)
  next
    case True
    show thesis
    proof (cases ap)
      case False
      with assms c a True failed show thesis by (auto simp: accept_block_def)
    next
      case ap: True
      have "add_block ossl now (Some b) (bc, env1) = (True, bc\<lparr>chain := chain bc @ [b]\<rparr>, env1)"
        using can_add_block_again [of ossl now b bc "ns_env w" env1] c True by (simp add: add_block_def)
      with assms c a True ap accepted show thesis by (auto simp: accept_block_def)
    qed
  qed
qed

text \<open>C5: The chain in memory and the database move together, unless SQLite rolls a transaction back on its
  own. Let a block be offered to a node with a database such that no failure of a statement is one by which SQLite
  ends the transaction itself, or the block has no transactions. It is either appended to the
  chain and durably applied, or neither the chain nor the durable tables change: the last of the three calls,
  \<^verbatim>\<open>add_block\<close>, which validates the block a second time, cannot fail once the first two succeeded.
\<close>

theorem accept_block_in_step:
  assumes "accept_block ossl now b w = (r, w')" "ns_chain w = Some bc" "ns_db w = Some db" "atomic_case (Some b) db"
  shows "\<exists>db'. ns_db w' = Some db' \<and>
    (if r then ns_chain w' = Some (bc\<lparr>chain := chain bc @ [b]\<rparr>) \<and> apply_block ossl now (Some b) db = (True, db')
     else ns_chain w' = Some bc \<and> durable db' = durable db)"
  using assms(1-3)
proof (cases rule: accept_block_cases)
  case (failed db')
  with apply_block_failed [OF failed(4) assms(4)] show ?thesis by simp
qed auto

lemma can_add_block_inputs:
  "fst (can_add_block ossl now (Some b) bc env) \<Longrightarrow> list_all (\<lambda>tx. inputs tx \<noteq> []) (transactions b)"
proof -
  assume "fst (can_add_block ossl now (Some b) bc env)"
  then have "check_transactions ossl now {} (transactions b)"
    by (auto simp: can_add_block_def Let_def split: if_splits prod.splits)
  then show ?thesis by (auto simp: check_transactions_iff list_all_iff tx_verify_def)
qed

lemma accept_block_coinless:
  assumes "accept_block ossl now b w = (r, w')" "ns_chain w = Some bc" "ns_db w = Some db" "coinless db"
  shows "(r \<longrightarrow> transactions b = []) \<and> (\<exists>db'. ns_db w' = Some db' \<and> coinless db') \<and>
    (ns_chain w' = Some bc \<or> ns_chain w' = Some (bc\<lparr>chain := chain bc @ [b]\<rparr>) \<and> transactions b = [])"
  using assms(1-3)
proof (cases rule: accept_block_cases)
  case (failed db')
  with coinless_apply_block [OF assms(4) can_add_block_inputs [OF failed(5)], of ossl now] show ?thesis by auto
next
  case (accepted db')
  with coinless_apply_block [OF assms(4) can_add_block_inputs [OF accepted(5)], of ossl now] show ?thesis by auto
qed (use assms(4) in auto)

section \<open>Synchronisation\<close>

lemma get_block_nth: "length (chain bc) < 2 ^ 32 \<Longrightarrow> h < length (chain bc) \<Longrightarrow> get_block bc (of_nat h) = Some (chain bc ! h)"
  by (simp add: get_block_def unat_of_nat take_bit_nat_eq_self)

lemma local_blocks_chain:
  assumes "chain bc \<noteq> []" "length (chain bc) < 2 ^ 32"
  shows "local_blocks bc = chain bc"
proof -
  have n: "Suc (unat (get_height bc)) = length (chain bc)"
    using assms by (simp add: get_height_def unat_of_nat take_bit_nat_eq_self)
  have "List.map_filter (\<lambda>h. get_block bc (of_nat h)) hs = map ((!) (chain bc)) hs"
    if "\<forall>h\<in>set hs. h < length (chain bc)" for hs
    using that assms(2) by (induction hs) (simp_all add: List.map_filter_simps get_block_nth)
  then show ?thesis by (simp add: local_blocks_def n map_nth)
qed

text \<open>Synchronisation never starts. The request that \<^verbatim>\<open>sync_blocks\<close> sends to every peer, a
  \<^verbatim>\<open>GET_BLOCKS\<close> message without payload, makes the receiving side close the connection without an
  answer: the thread of an incoming peer hands only messages with a payload to
  \<^verbatim>\<open>handle_message\<close>.
\<close>

theorem sync_request_disconnects:
  assumes "peer_socket p = Some s" "arriving s = message_serialize (new_message GET_BLOCKS j []) @ rest"
    and "0 \<notin> set (recv_sizes s)"
  shows "\<exists>p'. incoming_turn ossl now junk nid port (p, w) = (False, p', w) \<and> peer_socket p' = None"
proof -
  have ok: "message_ok (new_message GET_BLOCKS j [])"
    by (simp add: message_ok_def new_message_def message_of_byte_def named_messages_def)
  obtain p' where r: "receive_message junk now p = (Some ((new_message GET_BLOCKS j [])\<lparr>payload_size := 0\<rparr>), p')"
    using message_received_frame [OF assms ok, of junk now] by (auto simp: new_message_def)
  then show ?thesis by (simp add: incoming_turn_def new_message_def disconnect_def)
qed

theorem sync_request_disconnects_witness:
  "\<exists>p'. incoming_turn toy_ossl 5 (0, 0) ''n'' 6333
      (new_peer 0 ''p'' ''incoming'' 0 (Some \<lparr>arriving = message_serialize (new_message GET_BLOCKS 0 []), recv_sizes = [2, 3],
         sent = [], send_sizes = []\<rparr>),
       \<lparr>ns_chain = Some (new_blockchain 0), ns_env = \<lparr>consensus_engine = None, seen_props = []\<rparr>, ns_db = None, ns_quorum = None\<rparr>)
     = (False, p', \<lparr>ns_chain = Some (new_blockchain 0), ns_env = \<lparr>consensus_engine = None, seen_props = []\<rparr>, ns_db = None,
         ns_quorum = None\<rparr>) \<and> peer_socket p' = None"
  by (rule sync_request_disconnects [where rest = "[]" and j = 0])
    (simp add: new_peer_def, simp_all)

text \<open>A chain of more than 4096 blocks cannot be handed over: a node that answers a request for its
  blocks with such a chain changes nothing at the receiver except its own reputation, which drops
  by 10.
\<close>

theorem long_chain_penalised:
  assumes "MAX_CHAIN_BLOCKS_PER_MESSAGE < length (chain bc)" "length (chain bc) < 2 ^ 32" "ns_chain w \<noteq> None"
  shows "handle_message ossl now j (new_message BLOCKS j (encode_chain_payload (map Some (local_blocks bc)))) (p, w) =
    (decrease_reputation 10 p, w)"
proof -
  have "chain bc \<noteq> []" using assms(1) by auto
  then have "decode_chain_payload (encode_chain_payload (map Some (local_blocks bc))) = []"
    using long_chain_refused assms(1,2) by (simp add: local_blocks_chain)
  with assms(3) show ?thesis by (auto simp: handle_message_def handle_blocks_def new_message_def)
qed

theorem long_chain_penalised_witness:
  "handle_message toy_ossl 0 0 (new_message BLOCKS 0 (encode_chain_payload (map Some (local_blocks
       \<lparr>chain = replicate 5000 (genesis_block 0), difficulty = 4\<rparr>))))
     (new_peer 0 ''p'' ''incoming'' 0 None,
      \<lparr>ns_chain = Some (new_blockchain 0), ns_env = \<lparr>consensus_engine = None, seen_props = []\<rparr>, ns_db = None, ns_quorum = None\<rparr>)
   = (decrease_reputation 10 (new_peer 0 ''p'' ''incoming'' 0 None),
      \<lparr>ns_chain = Some (new_blockchain 0), ns_env = \<lparr>consensus_engine = None, seen_props = []\<rparr>, ns_db = None, ns_quorum = None\<rparr>)"
  by (rule long_chain_penalised) (simp_all add: p2p_limits)

text \<open>
  A connection that ended: the message variable keeps what was in memory, and if that happens to
  be the byte of \<^verbatim>\<open>HELLO\<close>, the thread answers a greeting nobody sent and reads again, forever.
\<close>

lemma closed_connection_spins:
  assumes "peer_socket p = Some s" "arriving s = []"
  shows "fst (incoming_turn ossl now (0, j) nid port (p, w)) \<and>
    (\<exists>s'. peer_socket (fst (snd (incoming_turn ossl now (0, j) nid port (p, w)))) = Some s' \<and> arriving s' = [])"
proof -
  have r: "receive_all 5 s = (None, s\<lparr>recv_sizes := tl (recv_sizes s)\<rparr>)"
    using assms(2) by (subst receive_all.simps) (auto simp: Let_def)
  have j: "msg_type (junk_message (0, j)) = HELLO"
    by (simp add: junk_message_def new_message_def message_of_byte_def named_messages_def)
  let ?s = "s\<lparr>recv_sizes := tl (recv_sizes s)\<rparr>"
  have "arriving (snd (send_all d ?s)) = []" for d
    using send_all_prefix [of d ?s] assms(2) by auto
  then show ?thesis
    by (simp add: incoming_turn_def receive_message_def assms(1) r j send_message_def)
qed

section \<open>Peers and limits\<close>

lemma add_peer_bound: "length (node_peers n) \<le> MAX_PEERS \<Longrightarrow> length (node_peers (add_peer p n)) \<le> MAX_PEERS"
  by (simp add: add_peer_def)

lemma banned_not_dialled: "is_banned addr n \<Longrightarrow> connect_to_peer now j dial bc addr port n = (False, None, n)"
  by (simp add: connect_to_peer_def)

lemma update_reputation_bans:
  "get_peer_reputation ip (update_peer_reputation ip delta n) = get_peer_reputation ip n + delta"
  "is_peer_banned a (update_peer_reputation ip delta n) \<longleftrightarrow>
     is_peer_banned a n \<or> a = ip \<and> get_peer_reputation ip n + delta \<le> - 100"
  by (auto simp: update_peer_reputation_def get_peer_reputation_def is_peer_banned_def omap_at_def Let_def split: option.splits)

text \<open>How many of a sequence of requests a limiter grants for one key.\<close>

fun granted :: "int \<Rightarrow> string \<Rightarrow> string list \<Rightarrow> (string, int) omap \<Rightarrow> nat" where
  "granted limit k [] counts = 0"
| "granted limit k (x # xs) counts =
     (case take_slot limit x counts of
        (ok, counts') \<Rightarrow> (if ok \<and> x = k then 1 else 0) + granted limit k xs counts')"

lemma granted_bound:
  "omap_at 0 k counts \<le> limit \<Longrightarrow> int (granted limit k xs counts) + omap_at 0 k counts \<le> limit"
proof (induction xs arbitrary: counts)
  case (Cons x xs)
  have le: "omap_at 0 k (snd (take_slot limit x counts)) \<le> limit"
    using Cons.prems by (auto simp: take_slot_def Let_def)
  from Cons.IH [OF le] show ?case by (auto simp: take_slot_def Let_def split: if_splits)
qed simp

lemma omap_at_Nil [simp]: "omap_at d k [] = d"
  by (simp add: omap_at_def)

text \<open>
  The limits hold for the whole life of the node, since no count is ever reset: 15 blocks per
  address, 3 connections per subnet.
\<close>

lemma limits_are_final:
  "granted RATE_LIMIT_PER_WINDOW ip ips [] \<le> 15" "granted MAX_PEERS_PER_SUBNET net nets [] \<le> 3"
  using granted_bound [of ip "[]" RATE_LIMIT_PER_WINDOW ips] granted_bound [of net "[]" MAX_PEERS_PER_SUBNET nets]
  by (simp_all add: RATE_LIMIT_PER_WINDOW_def MAX_PEERS_PER_SUBNET_def)

section \<open>A concrete node\<close>

definition demo_child :: mermai_block where
  "demo_child = (new_block 1640000000 1)\<lparr>prev_block_hash := block_hash_hex toy_ossl (genesis_block 0),
     validator_address := ''v'', validator_stake := 1\<rparr>"

definition demo_node :: node_state where
  "demo_node = \<lparr>ns_chain = Some (new_blockchain 0), ns_env = \<lparr>consensus_engine = None, seen_props = []\<rparr>,
     ns_db = Some (demo_db []), ns_quorum = None\<rparr>"

lemma toy_block_hash: "block_hash_hex toy_ossl b \<noteq> []"
  by (simp add: block_hash_hex_def calculate_hash_def toy_ossl_def hex_byte_def)

lemma demo_accepted: "fst (accept_block toy_ossl 1640000000 demo_child demo_node)"
proof -
  have c: "can_add_block toy_ossl 1640000000 (Some demo_child) (new_blockchain 0) (ns_env demo_node) = (True, ns_env demo_node)"
    using toy_block_hash
    by (simp add: can_add_block_def new_blockchain_def demo_child_def new_block_def genesis_block_def consult_validator_def
        demo_node_def verify_time_weight_pos_def check_merkle_root_def MAX_BLOCK_TRANSACTIONS_def)
  have a: "fst (apply_block toy_ossl 1640000000 (Some demo_child) (demo_db []))"
    by (simp add: apply_block_def db_statements demo_child_def new_block_def demo_db_def empty_tables_def)
  have "fst (add_block toy_ossl 1640000000 (Some demo_child) (new_blockchain 0, ns_env demo_node))"
    by (simp add: add_block_def c)
  with c a show ?thesis
    by (auto simp: accept_block_def demo_node_def split: prod.splits)
qed

theorem accept_block_in_step_witness:
  "ns_chain (snd (accept_block toy_ossl 1640000000 demo_child demo_node)) =
     Some ((new_blockchain 0)\<lparr>chain := chain (new_blockchain 0) @ [demo_child]\<rparr>)"
proof -
  have "accept_block toy_ossl 1640000000 demo_child demo_node = (True, snd (accept_block toy_ossl 1640000000 demo_child demo_node))"
    using demo_accepted by (simp add: prod_eq_iff)
  from accept_block_in_step [OF this, of "new_blockchain 0" "demo_db []"] show ?thesis
    by (auto simp: demo_node_def demo_facts atomic_case_def)
qed

end
