(* ===== verification/Mermai_Json.thy ===== *)
theory Mermai_Json
  imports Mermai_Float Std_Text
begin

text \<open>
  The texts of the JSON-RPC server (\<^verbatim>\<open>src/src/rpc/mermai_rpc.cpp\<close>): the text search that stands for
  a JSON parser, the functions that write replies, and the grammar of JSON, in which the numbers
  the server prints (\<^verbatim>\<open>std::to_string\<close> on integers and floats, \<^verbatim>\<open>operator<<\<close> on a float), its
  escaped strings, objects and arrays are shown to be values.
\<close>

section \<open>Reading requests and writing replies\<close>

definition json_escape :: "char \<Rightarrow> string" where
  "json_escape c =
     (if c = CHR 0x22 then [CHR 0x5C, CHR 0x22]
      else if c = CHR 0x5C then [CHR 0x5C, CHR 0x5C]
      else if c = CHR 0x08 then CHR 0x5C # ''b''
      else if c = CHR 0x0C then CHR 0x5C # ''f''
      else if c = CHR 0x0A then CHR 0x5C # ''n''
      else if c = CHR 0x0D then CHR 0x5C # ''r''
      else if c = CHR 0x09 then CHR 0x5C # ''t''
      else [c])"

definition json_string :: "string \<Rightarrow> string" where
  "json_string s = CHR 0x22 # concat (map json_escape s) @ [CHR 0x22]"

definition json_space :: "char \<Rightarrow> bool" where
  "json_space c \<longleftrightarrow> c = CHR '' '' \<or> c = CHR 0x09 \<or> c = CHR 0x0D \<or> c = CHR 0x0A"

definition rpc_digit :: "char \<Rightarrow> bool" where
  "rpc_digit c \<longleftrightarrow> digit_in 10 c \<noteq> None"

definition rpc_xdigit :: "char \<Rightarrow> bool" where
  "rpc_xdigit c \<longleftrightarrow> digit_in 16 c \<noteq> None"

text \<open>What follows the colon after the first occurrence of the quoted key.\<close>

definition field_text :: "string \<Rightarrow> string \<Rightarrow> string option" where
  "field_text body key = Option.bind (after (CHR 0x22 # key @ [CHR 0x22]) body) (after '':'')"

text \<open>The text up to the next quote, if there is one.\<close>

definition until_quote :: "string \<Rightarrow> string option" where
  "until_quote s = (if CHR 0x22 \<in> set s then Some (takeWhile (\<lambda>c. c \<noteq> CHR 0x22) s) else None)"

definition request_id :: "string \<Rightarrow> string" where
  "request_id body =
     (case field_text body ''id'' of
        None \<Rightarrow> ''null''
      | Some t \<Rightarrow>
          (case dropWhile json_space t of
             [] \<Rightarrow> ''null''
           | c # cs \<Rightarrow>
               if c = CHR 0x22
               then (case until_quote cs of None \<Rightarrow> ''null'' | Some v \<Rightarrow> CHR 0x22 # v @ [CHR 0x22])
               else takeWhile (\<lambda>x. rpc_digit x \<or> x = CHR ''-'' \<or> x = CHR ''.'') (c # cs)))"

definition request_string :: "string \<Rightarrow> string \<Rightarrow> string" where
  "request_string body key =
     (case Option.bind (Option.bind (field_text body key) (after [CHR 0x22])) until_quote of
        None \<Rightarrow> [] | Some v \<Rightarrow> v)"

definition number_value :: "string \<Rightarrow> u64" where
  "number_value t =
     (case (if take 2 t = ''0x'' then stoull ''stoull'' 16 t else stoull ''stoull'' 10 t) of
        Inl _ \<Rightarrow> 0 | Inr v \<Rightarrow> v)"

definition request_number :: "string \<Rightarrow> string \<Rightarrow> u64" where
  "request_number body key =
     (case field_text body key of
        None \<Rightarrow> 0
      | Some t \<Rightarrow>
          (case dropWhile json_space t of
             [] \<Rightarrow> 0
           | c # cs \<Rightarrow>
               if c = CHR 0x22 then (case until_quote cs of None \<Rightarrow> 0 | Some v \<Rightarrow> number_value v)
               else number_value (takeWhile (\<lambda>x. rpc_digit x \<or> x = CHR ''x'' \<or> rpc_xdigit x) (c # cs))))"

text \<open>Pairs of characters, each converted by \<^verbatim>\<open>std::stoul\<close>; a pair that is refused is skipped.\<close>

fun hex_pairs :: "string \<Rightarrow> bytes" where
  "hex_pairs (a # b # rest) =
     (case stoull ''stoul'' 16 [a, b] of Inl _ \<Rightarrow> hex_pairs rest | Inr v \<Rightarrow> ucast v # hex_pairs rest)"
| "hex_pairs _ = []"

definition rpc_hex_to_bytes :: "string \<Rightarrow> bytes" where
  "rpc_hex_to_bytes hex = hex_pairs (if take 2 hex = ''0x'' then drop 2 hex else hex)"

definition json_error :: "int \<Rightarrow> string \<Rightarrow> string" where
  "json_error code message =
     ''{\"error\":{\"code\":'' @ int_string code @ '',\"message\":'' @ json_string message @ ''}}''"

definition result_json :: "string \<Rightarrow> string" where
  "result_json v = ''{\"result\":'' @ v @ ''}''"

definition field_json :: "string \<Rightarrow> string \<Rightarrow> string" where
  "field_json key v = CHR 0x22 # key @ [CHR 0x22, CHR '':''] @ v"

text \<open>\<^verbatim>\<open>std::to_string(float)\<close>: \<^verbatim>\<open>%f\<close>, six digits after the point.\<close>

definition format_f :: "rat \<Rightarrow> string" where
  "format_f x =
     (let n = nat (half_even (\<bar>x\<bar> * 1000000)); ds = dec_string (n mod 1000000)
      in (if x < 0 then ''-'' else []) @ dec_string (n div 1000000) @ ''.'' @ replicate (6 - length ds) CHR ''0'' @ ds)"

text \<open>The commas between the members of an array or an object.\<close>

fun separated :: "string list \<Rightarrow> string" where
  "separated [] = []"
| "separated [x] = x"
| "separated (x # y # xs) = x @ '','' @ separated (y # xs)"

section \<open>The grammar of JSON\<close>

text \<open>
  The grammar of RFC 8259 for texts without white space. One clause is wider than the grammar: the characters of a
  string may be control characters, since \<^verbatim>\<open>json_string\<close> escapes only five of them.
\<close>

definition json_digits :: "string \<Rightarrow> bool" where
  "json_digits ds \<longleftrightarrow> ds \<noteq> [] \<and> list_all rpc_digit ds"

definition json_int :: "string \<Rightarrow> bool" where
  "json_int ds \<longleftrightarrow> json_digits ds \<and> (hd ds = CHR ''0'' \<longrightarrow> ds = ''0'')"

definition json_fraction :: "string \<Rightarrow> bool" where
  "json_fraction f \<longleftrightarrow> f = [] \<or> (\<exists>ds. f = ''.'' @ ds \<and> json_digits ds)"

definition json_exponent :: "string \<Rightarrow> bool" where
  "json_exponent x \<longleftrightarrow> x = [] \<or>
     (\<exists>c sg ds. x = c # sg @ ds \<and> c \<in> {CHR ''e'', CHR ''E''} \<and> sg \<in> {[], ''+'', ''-''} \<and> json_digits ds)"

definition json_number :: "string \<Rightarrow> bool" where
  "json_number w \<longleftrightarrow> (\<exists>sg i f x. w = sg @ i @ f @ x \<and> sg \<in> {[], ''-''} \<and> json_int i \<and> json_fraction f \<and> json_exponent x)"

inductive json_chars :: "string \<Rightarrow> bool" where
  chars_end: "json_chars []"
| chars_plain: "c \<noteq> CHR 0x22 \<Longrightarrow> c \<noteq> CHR 0x5C \<Longrightarrow> json_chars s \<Longrightarrow> json_chars (c # s)"
| chars_escape: "c \<in> {CHR 0x22, CHR 0x5C, CHR ''/'', CHR ''b'', CHR ''f'', CHR ''n'', CHR ''r'', CHR ''t''} \<Longrightarrow>
    json_chars s \<Longrightarrow> json_chars (CHR 0x5C # c # s)"
| chars_unicode: "length ds = 4 \<Longrightarrow> list_all rpc_xdigit ds \<Longrightarrow> json_chars s \<Longrightarrow> json_chars (CHR 0x5C # CHR ''u'' # ds @ s)"

inductive json :: "string \<Rightarrow> bool" where
  json_name: "w \<in> {''true'', ''false'', ''null''} \<Longrightarrow> json w"
| json_num: "json_number w \<Longrightarrow> json w"
| json_text: "json_chars s \<Longrightarrow> json (CHR 0x22 # s @ [CHR 0x22])"
| json_array: "\<forall>w\<in>set ws. json w \<Longrightarrow> json (''['' @ separated ws @ '']'')"
| json_object: "\<forall>m\<in>set ms. json_chars (fst m) \<and> json (snd m) \<Longrightarrow>
    json (''{'' @ separated (map (\<lambda>m. field_json (fst m) (snd m)) ms) @ ''}'')"

named_theorems json_rules \<open>texts that are JSON\<close>

lemma json_chars_simps [simp]:
  "json_chars []"
  "c \<noteq> CHR 0x22 \<Longrightarrow> c \<noteq> CHR 0x5C \<Longrightarrow> json_chars (c # s) \<longleftrightarrow> json_chars s"
  by (auto intro: json_chars.intros elim: json_chars.cases)

lemma json_escape_chars: "json_chars s \<Longrightarrow> json_chars (json_escape c @ s)"
  by (simp add: json_escape_def chars_escape)

lemma json_json_string [json_rules]: "json (json_string s)"
proof -
  have "json_chars (concat (map json_escape s))" by (induction s) (simp_all add: json_escape_chars)
  then show ?thesis by (simp add: json_string_def json_text)
qed

lemma rpc_digit_char: "n < 10 \<Longrightarrow> rpc_digit (char_of (48 + n :: nat))"
  by (simp add: rpc_digit_def digit_in_def)

lemma dec_digit: "list_all rpc_digit (dec_string n)"
proof -
  have "rpc_digit (char_of k)" if "48 \<le> k" "k < 58" for k :: nat using rpc_digit_char [of "k - 48"] that by simp
  with dec_string_digits [of n] show ?thesis by (auto simp: list_all_iff)
qed

lemma zero_text: "dec_string 0 = ''0''"
  by code_simp

lemma json_int_dec: "json_int (dec_string n)"
proof -
  have "hd (dec_string n) = CHR ''0'' \<longrightarrow> dec_string n = ''0''"
  proof (induction n rule: dec_string.induct)
    case (1 n)
    show ?case
    proof (cases "n < 10")
      case True
      have "n = 0" if "char_of (48 + n) = CHR ''0''"
      proof -
        from that have "of_char (char_of (48 + n) :: char) = (of_char CHR ''0'' :: nat)" by (rule arg_cong)
        with True show ?thesis by simp
      qed
      with True show ?thesis by (auto simp: dec_string.simps [of n])
    next
      case False
      have "dec_string (n div 10) \<noteq> ''0''" using False dec_string_inject [of "n div 10" 0] zero_text by simp
      with 1 [OF False] have "hd (dec_string (n div 10)) \<noteq> CHR ''0''" by blast
      with False show ?thesis by (simp add: dec_string.simps [of n])
    qed
  qed
  then show ?thesis by (simp add: json_int_def json_digits_def dec_digit)
qed

lemma json_numberI: "sg \<in> {[], ''-''} \<Longrightarrow> json_int i \<Longrightarrow> json_fraction f \<Longrightarrow> json_exponent x \<Longrightarrow> json (sg @ i @ f @ x)"
  by (rule json_num) (unfold json_number_def, blast)

lemma json_exponentI:
  "c \<in> {CHR ''e'', CHR ''E''} \<Longrightarrow> sg \<in> {[], ''+'', ''-''} \<Longrightarrow> json_digits ds \<Longrightarrow> json_exponent (c # sg @ ds)"
  unfolding json_exponent_def by blast

lemma json_plain: "json_fraction []" "json_exponent []" "json_digits ds \<Longrightarrow> json_fraction (CHR ''.'' # ds)"
  by (auto simp: json_fraction_def json_exponent_def)

lemma json_dec [json_rules]: "json (dec_string n)" "json (int_string i)"
  using json_numberI [of "[]" _ "[]" "[]", OF _ json_int_dec json_plain(1,2)]
    json_numberI [of "''-''" _ "[]" "[]", OF _ json_int_dec json_plain(1,2)]
  by (simp_all add: int_string_def)

lemma json_format_f [json_rules]: "json (format_f x)"
proof -
  define n where "n = nat (half_even (\<bar>x\<bar> * 1000000))"
  define f where "f = replicate (6 - length (dec_string (n mod 1000000))) CHR ''0'' @ dec_string (n mod 1000000)"
  have "json_digits f" using dec_digit by (auto simp: f_def json_digits_def list_all_iff rpc_digit_def digit_in_def)
  with json_numberI [of "if x < 0 then ''-'' else []", OF _ json_int_dec json_plain(3) json_plain(2)] show ?thesis
    by (simp add: format_f_def f_def n_def Let_def)
qed

lemma json_int_take: "json_int ds \<Longrightarrow> 0 < k \<Longrightarrow> json_int (take k ds)"
  by (cases ds; cases k) (auto simp: json_int_def json_digits_def list_all_iff dest: in_set_takeD)

lemma strip_zeros_digits: "list_all rpc_digit ds \<Longrightarrow> list_all rpc_digit (strip_zeros ds)"
  by (auto simp: strip_zeros_def list_all_iff dest: set_dropWhileD)

lemma with_fraction_parts:
  "list_all rpc_digit f \<Longrightarrow> \<exists>g. with_fraction i f = i @ g \<and> json_fraction g"
  using strip_zeros_digits [of f] json_plain by (auto simp: with_fraction_def json_digits_def Let_def)

lemma exponent10_small_nonpos: "exponent10_small n x \<le> 0"
proof (induction n arbitrary: x)
  case (Suc n)
  from Suc [of "x * 10"] show ?case by simp
qed simp

lemma exponent10_small_scale:
  "exponent10_small n x = - int k \<Longrightarrow> k < n \<Longrightarrow> 1 \<le> x * 10 ^ k"
proof (induction n arbitrary: x k)
  case (Suc n)
  show ?case
  proof (cases "1 \<le> x")
    case False
    with Suc.prems obtain j where j: "k = Suc j" using exponent10_small_nonpos [of n "x * 10"] by (cases k) auto
    with Suc.prems False have "exponent10_small n (x * 10) = - int j" "j < n" by auto
    from Suc.IH [OF this] show ?thesis by (simp add: j mult.assoc)
  qed (use Suc.prems in auto)
qed simp

text \<open>In positional form below 1 there is a digit other than zero to print.\<close>

lemma six_digits_small:
  assumes "six_digits x = (n, e)" "- 4 \<le> e" "e < 0"
  shows "0 < n"
proof -
  define d where "d = exponent10 x"
  define m where "m = half_even (x / 10 powi (d - 5))"
  have n: "(n, e) = (if m = 1000000 then (100000, d + 1) else (m, d))"
    using assms(1) by (auto simp: six_digits_def d_def m_def Let_def split: if_splits)
  show ?thesis
  proof (cases "m = 1000000")
    case False
    with n assms(2,3) have d: "- 4 \<le> d" "d < 0" "n = m" by auto
    then have "\<not> 1 \<le> x" by (auto simp: d_def exponent10_def split: if_splits)
    then have "exponent10_small 46 x = - int (nat (- d))" using d by (simp add: d_def exponent10_def)
    then have "1 \<le> x * 10 ^ nat (- d)" by (rule exponent10_small_scale) (use d in linarith)
    moreover have "x / 10 powi (d - 5) = x * 10 ^ nat (- d) * 100000"
    proof -
      have "(10 :: rat) powi (d - 5) = inverse (10 ^ nat (5 - d))" using d by (simp add: power_int_def power_one_over inverse_eq_divide)
      moreover have "nat (5 - d) = nat (- d) + 5" using d by simp
      ultimately show ?thesis by (simp add: power_add field_simps)
    qed
    ultimately have "of_int 100000 \<le> x / 10 powi (d - 5)" by simp
    from half_even_mono [OF this] d show ?thesis by (simp only: m_def half_even_of_int)
  qed (use n in simp)
qed

lemma strip_zeros_Nil: "strip_zeros s = [] \<longleftrightarrow> (\<forall>c\<in>set s. c = CHR ''0'')"
  by (simp add: strip_zeros_def dropWhile_eq_Nil_conv)

lemma json_format_g [json_rules]: "json (format_g x)"
proof (cases "x = 0")
  case True
  have "json_int ''0''" by (simp add: json_int_def json_digits_def rpc_digit_def digit_in_def)
  from json_numberI [of "[]", OF _ this json_plain(1,2)] True show ?thesis by (simp add: format_g_def)
next
  case False
  obtain n e where ne: "six_digits x = (n, e)" by fastforce
  define ds where "ds = dec_string (nat n)"
  have ds: "json_int ds" "list_all rpc_digit (drop k ds)" for k
    using json_int_dec [of "nat n"] dec_digit [of "nat n"] by (auto simp: ds_def list_all_iff dest: in_set_dropD)
  define es where "es = (let es = dec_string (nat \<bar>e\<bar>) in if length es < 2 then CHR ''0'' # es else es)"
  have "json_digits es"
    using dec_digit by (auto simp: es_def json_digits_def Let_def rpc_digit_def digit_in_def)
  then have ex: "json_exponent (''e-'' @ es)" "json_exponent (''e+'' @ es)"
    using json_exponentI [of "CHR ''e''" "''-''" es] json_exponentI [of "CHR ''e''" "''+''" es] by simp_all
  consider (pos) "0 \<le> e" "e < 6" | (small) "- 4 \<le> e" "e < 0" | (exp) "\<not> (- 4 \<le> e \<and> e < 6)" by linarith
  then show ?thesis
  proof cases
    case pos
    obtain g where "with_fraction (take (nat (e + 1)) ds) (drop (nat (e + 1)) ds) = take (nat (e + 1)) ds @ g" "json_fraction g"
      using with_fraction_parts [OF ds(2)] by blast
    with pos False json_numberI [of "[]", OF _ json_int_take [OF ds(1)] _ json_plain(2), of "nat (e + 1)" g] show ?thesis
      by (simp add: format_g_def ne ds_def [symmetric])
  next
    case small
    let ?f = "replicate (nat (- e - 1)) CHR ''0'' @ strip_zeros ds"
    from six_digits_small [OF ne small] have "nat n \<noteq> 0" by simp
    then have "hd ds \<noteq> CHR ''0''" using json_int_dec [of "nat n"] dec_string_inject [of "nat n" 0] zero_text by (auto simp: ds_def json_int_def)
    moreover have "hd ds \<in> set ds" by (simp add: ds_def)
    ultimately have "strip_zeros ds \<noteq> []" unfolding strip_zeros_Nil by blast
    then have "json_digits ?f" using strip_zeros_digits [OF ds(2) [of 0]]
      by (auto simp: json_digits_def list_all_iff rpc_digit_def digit_in_def)
    moreover have "json_int ''0''" by (simp add: json_int_def json_digits_def rpc_digit_def digit_in_def)
    ultimately show ?thesis using small False json_numberI [of "[]" "''0''" _ "[]"] json_plain
      by (simp add: format_g_def ne ds_def [symmetric])
  next
    case exp
    obtain g where "with_fraction (take 1 ds) (drop 1 ds) = take 1 ds @ g" "json_fraction g"
      using with_fraction_parts [OF ds(2)] by blast
    with exp False ex json_numberI [of "[]", OF _ json_int_take [OF ds(1)], of 1 g] show ?thesis
      by (auto simp: format_g_def ne ds_def [symmetric] es_def [symmetric])
  qed
qed
section \<open>Objects, results and errors\<close>

lemma json_members:
  "json_chars k1 \<Longrightarrow> json v1 \<Longrightarrow> json (CHR ''{'' # field_json k1 v1 @ ''}'')"
  "json_chars k1 \<Longrightarrow> json v1 \<Longrightarrow> json_chars k2 \<Longrightarrow> json v2 \<Longrightarrow>
     json (CHR ''{'' # field_json k1 v1 @ CHR '','' # field_json k2 v2 @ ''}'')"
  "json_chars k1 \<Longrightarrow> json v1 \<Longrightarrow> json_chars k2 \<Longrightarrow> json v2 \<Longrightarrow> json_chars k3 \<Longrightarrow> json v3 \<Longrightarrow>
     json (CHR ''{'' # field_json k1 v1 @ CHR '','' # field_json k2 v2 @ CHR '','' # field_json k3 v3 @ ''}'')"
  "json_chars k1 \<Longrightarrow> json v1 \<Longrightarrow> json_chars k2 \<Longrightarrow> json v2 \<Longrightarrow> json_chars k3 \<Longrightarrow> json v3 \<Longrightarrow>
     json_chars k4 \<Longrightarrow> json v4 \<Longrightarrow> json_chars k5 \<Longrightarrow> json v5 \<Longrightarrow>
     json (CHR ''{'' # field_json k1 v1 @ CHR '','' # field_json k2 v2 @ CHR '','' # field_json k3 v3 @ CHR '','' #
       field_json k4 v4 @ CHR '','' # field_json k5 v5 @ ''}'')"
  using json_object [of "[(k1, v1)]"] json_object [of "[(k1, v1), (k2, v2)]"]
    json_object [of "[(k1, v1), (k2, v2), (k3, v3)]"]
    json_object [of "[(k1, v1), (k2, v2), (k3, v3), (k4, v4), (k5, v5)]"] by simp_all

lemmas [json_rules] = json_members

lemma json_array_map [json_rules]:
  "(\<And>x. json (f x)) \<Longrightarrow> json (CHR ''['' # separated (map f xs) @ '']'')"
  using json_array [of "map f xs"] by auto

lemma json_names [json_rules]: "json ''true''" "json ''false''" "json ''null''"
  by (simp_all add: json_name)

lemma json_constant: "json_int w \<Longrightarrow> json w"
  using json_numberI [of "[]" w "[]" "[]"] json_plain by simp

section \<open>The identifier of a request\<close>

lemma until_quote_append: "CHR 0x22 \<notin> set h \<Longrightarrow> until_quote (h @ CHR 0x22 # rest) = Some h"
  unfolding until_quote_def by (induction h) auto

text \<open>
  The identifier is copied from the request. It is a JSON value when the request names none, names
  one in quotes without a backslash, or a decimal number.
\<close>

lemma json_absent_id: "field_text req ''id'' = None \<Longrightarrow> json (request_id req)"
  by (simp add: request_id_def json_rules)

lemma json_quoted_id:
  assumes "field_text req ''id'' = Some (CHR 0x22 # s @ CHR 0x22 # rest)" "CHR 0x22 \<notin> set s" "CHR 0x5C \<notin> set s"
  shows "json (request_id req)"
proof -
  have "json_chars s" using assms(2,3) by (induction s) (auto intro: json_chars.intros)
  moreover have "request_id req = CHR 0x22 # s @ [CHR 0x22]"
    using assms(1,2) by (simp add: request_id_def json_space_def until_quote_append)
  ultimately show ?thesis by (simp add: json_text)
qed

lemma json_number_id:
  assumes "field_text req ''id'' = Some (dec_string n @ c # rest)" "\<not> rpc_digit c" "c \<noteq> CHR ''-''" "c \<noteq> CHR ''.''"
  shows "json (request_id req)"
proof -
  obtain d ds where d: "dec_string n = d # ds" by (cases "dec_string n") auto
  with dec_digit [of n] have "rpc_digit d" and ds: "list_all rpc_digit ds" by simp_all
  then have "\<not> json_space d" "d \<noteq> CHR 0x22" by (auto simp: json_space_def rpc_digit_def digit_in_def)
  moreover have "takeWhile (\<lambda>x. rpc_digit x \<or> x = CHR ''-'' \<or> x = CHR ''.'') (ds @ c # rest) = ds"
    using ds assms(2-4) by (simp add: takeWhile_append2 list_all_iff)
  ultimately have "request_id req = dec_string n"
    using assms(1) \<open>rpc_digit d\<close> by (simp add: request_id_def d)
  then show ?thesis by (simp add: json_rules)
qed

text \<open>An identifier that is neither a text nor a number leaves the reply without one.\<close>

lemma null_id_dropped: "request_id ''{\"id\":null}'' = []"
  by (simp add: request_id_def field_text_def until_quote_def json_space_def rpc_digit_def digit_in_def Let_def)

end
