(* ===== verification/Mermai_RPC.thy ===== *)
theory Mermai_RPC
  imports Mermai_Network Mermai_VM Mermai_Json "HOL-Library.Sublist"
begin

text \<open>
  The JSON-RPC server (\<^verbatim>\<open>src/src/rpc/mermai_rpc.cpp\<close>): every method, the dispatcher and the framing
  of one HTTP exchange, on the texts of \<open>Mermai_Json\<close>. The server works on
  the objects the node shares (\<open>node_state\<close>) and on the peer-to-peer node. A method that runs
  contract code may not return (\<open>No_return\<close>) and may end the process (\<open>Crash\<close>), so an exchange
  has one of three outcomes. The opcode numbers, the default execution context (the header
  \<^verbatim>\<open>mermai_vm.hpp\<close> is not in the repository) and the machine's clock are one parameter.
\<close>

section \<open>The server\<close>

record rpc_state =
  rpc_node :: node_state
  rpc_p2p :: "mermai_p2p_node option"

record machine =
  vm_cfg :: vm_config
  default_context :: mermai_execution_context
  vm_clock :: "nat \<Rightarrow> u64"

datatype rpc_outcome =
    Reply string rpc_state
  | No_return
  | Crash

definition set_db :: "mermai_db \<Rightarrow> rpc_state \<Rightarrow> rpc_state" where
  "set_db db s = s\<lparr>rpc_node := (rpc_node s)\<lparr>ns_db := Some db\<rparr>\<rparr>"

text \<open>\<^verbatim>\<open>if (!db) return json_error(-1, "Database unavailable")\<close>\<close>

definition with_db :: "(mermai_db \<Rightarrow> string \<times> mermai_db) \<Rightarrow> rpc_state \<Rightarrow> string \<times> rpc_state" where
  "with_db f s =
     (case ns_db (rpc_node s) of
        None \<Rightarrow> (json_error (- 1) ''Database unavailable'', s)
      | Some db \<Rightarrow> (case f db of (r, db') \<Rightarrow> (r, set_db db' s)))"

subsection \<open>Blocks\<close>

definition get_block_count :: "rpc_state \<Rightarrow> string \<times> rpc_state" where
  "get_block_count s =
     (case ns_chain (rpc_node s) of
        Some bc \<Rightarrow> (result_json (dec_string (unat (get_height bc))), s)
      | None \<Rightarrow>
          (case ns_db (rpc_node s) of
             None \<Rightarrow> (result_json (dec_string 0), s)
           | Some db \<Rightarrow> (case get_latest_block_height db of
                            (h, db') \<Rightarrow> (result_json (dec_string (unat h)), set_db db' s))))"

definition block_json :: "mermai_block \<Rightarrow> string" where
  "block_json b = result_json (''{'' @ field_json ''height'' (dec_string (unat (height b))) @ '','' @
     field_json ''validator'' (json_string (validator_address b)) @ ''}'')"

definition found_block :: "mermai_block option \<Rightarrow> string" where
  "found_block block = (case block of None \<Rightarrow> json_error (- 1) ''Block not found'' | Some b \<Rightarrow> block_json b)"

definition rpc_get_block :: "u32 \<Rightarrow> rpc_state \<Rightarrow> string \<times> rpc_state" where
  "rpc_get_block h s =
     (case Option.bind (ns_chain (rpc_node s)) (\<lambda>bc. get_block bc h) of
        Some b \<Rightarrow> (found_block (Some b), s)
      | None \<Rightarrow>
          (case ns_db (rpc_node s) of
             None \<Rightarrow> (found_block None, s)
           | Some db \<Rightarrow> (case get_block_by_height h db of (block, db') \<Rightarrow> (found_block block, set_db db' s))))"

definition rpc_get_latest_block :: "rpc_state \<Rightarrow> string \<times> rpc_state" where
  "rpc_get_latest_block s =
     rpc_get_block (case ns_chain (rpc_node s) of None \<Rightarrow> 0 | Some bc \<Rightarrow> get_height bc) s"

definition rpc_get_block_by_hash :: "string \<Rightarrow> rpc_state \<Rightarrow> string \<times> rpc_state" where
  "rpc_get_block_by_hash h = with_db (\<lambda>db. case get_block_by_hash h db of (block, db') \<Rightarrow> (found_block block, db'))"

text \<open>The loop from the tip down, over the heights below \<open>n\<close>.\<close>

fun search_finalized :: "'k openssl \<Rightarrow> mermai_blockchain \<Rightarrow> mermai_quorum_collector option \<Rightarrow> nat \<Rightarrow> (u32 \<times> string) option" where
  "search_finalized ossl bc q 0 = None"
| "search_finalized ossl bc q (Suc h) =
     (case get_block bc (of_nat h) of
        None \<Rightarrow> search_finalized ossl bc q h
      | Some b \<Rightarrow>
          let hash = block_hash_hex ossl b
          in if (case q of None \<Rightarrow> False | Some c \<Rightarrow> is_block_finalized hash c) then Some (height b, hash)
             else search_finalized ossl bc q h)"

definition get_finalized_block :: "'k openssl \<Rightarrow> rpc_state \<Rightarrow> string \<times> rpc_state" where
  "get_finalized_block ossl s =
     (case ns_chain (rpc_node s) of
        None \<Rightarrow> (json_error (- 1) ''Blockchain unavailable'', s)
      | Some bc \<Rightarrow>
          (case search_finalized ossl bc (ns_quorum (rpc_node s)) (nat (sint (get_height bc) + 1)) of
             None \<Rightarrow> (result_json ''{\"height\":0,\"hash\":\"genesis\"}'', s)
           | Some (h, hash) \<Rightarrow> (result_json (''{'' @ field_json ''height'' (dec_string (unat h)) @ '','' @
                 field_json ''hash'' (json_string hash) @ ''}''), s)))"

subsection \<open>Accounts and transactions\<close>

definition rpc_get_account :: "string \<Rightarrow> rpc_state \<Rightarrow> string \<times> rpc_state" where
  "rpc_get_account addr = with_db (\<lambda>db. case get_account addr db of
     (a, db') \<Rightarrow> (result_json (''{'' @ field_json ''address'' (json_string (acc_address a)) @ '','' @
       field_json ''balance'' (dec_string (unat (acc_balance a))) @ '','' @
       field_json ''nonce'' (dec_string (unat (acc_nonce a))) @ ''}''), db'))"

definition get_balance :: "string \<Rightarrow> rpc_state \<Rightarrow> string \<times> rpc_state" where
  "get_balance addr = with_db (\<lambda>db. case get_account addr db of
     (a, db') \<Rightarrow> (result_json (dec_string (unat (acc_balance a))), db'))"

definition get_account_nonce :: "string \<Rightarrow> rpc_state \<Rightarrow> string \<times> rpc_state" where
  "get_account_nonce addr = with_db (\<lambda>db. case get_account addr db of
     (a, db') \<Rightarrow> (result_json (dec_string (unat (acc_nonce a))), db'))"

definition rpc_get_account_transactions :: "'k openssl \<Rightarrow> string \<Rightarrow> rpc_state \<Rightarrow> string \<times> rpc_state" where
  "rpc_get_account_transactions ossl addr = with_db (\<lambda>db. case get_account_transactions ossl addr 100 db of
     (txs, db') \<Rightarrow> (result_json ''[]'', db'))"

definition rpc_get_transaction :: "string \<Rightarrow> rpc_state \<Rightarrow> string \<times> rpc_state" where
  "rpc_get_transaction tid = with_db (\<lambda>db. case db_get_transaction tid db of
     (tx, db') \<Rightarrow> (if tx_id tx = [] then json_error (- 1) ''Transaction not found''
                   else result_json (''{'' @ field_json ''id'' (json_string (tx_id tx)) @ '','' @
                     field_json ''fee'' (dec_string (unat (fee tx))) @ ''}''), db'))"

definition get_transaction_status :: "string \<Rightarrow> rpc_state \<Rightarrow> string \<times> rpc_state" where
  "get_transaction_status tid = with_db (\<lambda>db. case db_get_transaction tid db of
     (tx, db') \<Rightarrow> (result_json (if tx_id tx = [] then ''\"NOT_FOUND\"'' else ''\"CONFIRMED\"''), db'))"

definition raw_transaction :: "string \<Rightarrow> string" where
  "raw_transaction req =
     (let raw = request_string req ''raw''; raw1 = (if raw = [] then request_string req ''serialized'' else raw)
      in if take 2 raw1 = ''0x'' then chars_of_bytes (rpc_hex_to_bytes raw1) else raw1)"

definition submitted_transaction :: "string \<Rightarrow> mermai_transaction result" where
  "submitted_transaction req =
     (let raw = raw_transaction req
      in rbind (if raw = [] then Inr default_transaction else deserialize_tx raw) (\<lambda>tx.
           Inr (if tx_id tx = []
                then tx\<lparr>tx_id := request_string req ''id'', tx_timestamp := request_number req ''timestamp'',
                        fee := request_number req ''fee''\<rparr>
                else tx)))"

definition broadcast_tx_to :: "u32 \<Rightarrow> mermai_transaction \<Rightarrow> rpc_state \<Rightarrow> rpc_state" where
  "broadcast_tx_to junk tx s = s\<lparr>rpc_p2p := map_option (broadcast_transaction junk (Some tx)) (rpc_p2p s)\<rparr>"

definition send_transaction :: "'k openssl \<Rightarrow> u64 \<Rightarrow> u32 \<Rightarrow> string \<Rightarrow> rpc_state \<Rightarrow> string \<times> rpc_state" where
  "send_transaction ossl now junk req s =
     (case submitted_transaction req of
        Inl e \<Rightarrow> (json_error (- 32602) (error_what e), s)
      | Inr tx \<Rightarrow>
          let sent = (\<lambda>s. (result_json (json_string (effective_id ossl tx)), broadcast_tx_to junk tx s))
          in case ns_db (rpc_node s) of
               None \<Rightarrow> sent s
             | Some db \<Rightarrow>
                 (case validate_transaction_inputs ossl now tx db of
                    (valid, db1) \<Rightarrow>
                      if \<not> valid then (json_error (- 32602) ''Invalid transaction inputs'', set_db db1 s)
                      else case db_add_to_mempool ossl tx db1 of
                             (added, db2) \<Rightarrow>
                               if \<not> added then (json_error (- 32000) ''Mempool insertion failed'', set_db db2 s)
                               else sent (set_db db2 s)))"

subsection \<open>Contracts\<close>

definition code_field :: "string \<Rightarrow> string" where
  "code_field req = (let h = request_string req ''bytecode'' in if h = [] then request_string req ''code'' else h)"

text \<open>\<^verbatim>\<open>mermai_vm vm_instance(code, ctx); vm_instance.execute()\<close>\<close>

definition run_code ::
  "machine \<Rightarrow> bytes \<Rightarrow> mermai_execution_context \<Rightarrow> rpc_state \<Rightarrow> (bool \<Rightarrow> mermai_execution_context \<Rightarrow> string) \<Rightarrow> rpc_outcome" where
  "run_code m code ctx s answer =
     (case execute (vm_cfg m) code (vm_clock m) (new_vm ctx) of
        None \<Rightarrow> No_return
      | Some (Stopped r c) \<Rightarrow> Reply (answer r c) s
      | Some _ \<Rightarrow> Crash)"

definition estimate_gas :: "machine \<Rightarrow> string \<Rightarrow> rpc_state \<Rightarrow> rpc_outcome" where
  "estimate_gas m req s =
     (let code = rpc_hex_to_bytes (code_field req)
      in if code = [] then Reply (result_json ''\"0x5208\"'') s
         else run_code m code ((default_context m)\<lparr>gas_limit := 1000000\<rparr>) s
                (\<lambda>r c. result_json (json_string (''0x'' @ hex_string (unat (gas_used c))))))"

definition deploy_contract :: "'k openssl \<Rightarrow> string \<Rightarrow> rpc_state \<Rightarrow> string \<times> rpc_state" where
  "deploy_contract ossl req s =
     (let code = rpc_hex_to_bytes (code_field req)
      in if code = [] then (json_error (- 32602) ''Invalid contract bytecode'', s)
         else let addr = ''0x'' @ hex_encode (take 20 (SHA256 ossl code))
           in case ns_db (rpc_node s) of
                None \<Rightarrow> (result_json (json_string addr), s)
              | Some db \<Rightarrow>
                  (case save_contract_code addr code db of
                     (ok, db') \<Rightarrow> (if ok then result_json (json_string addr)
                                   else json_error (- 32000) ''Failed to save contract'', set_db db' s)))"

text \<open>The code a call runs: what is deployed at the address, else what the request carries.\<close>

definition called_code :: "string \<Rightarrow> rpc_state \<Rightarrow> bytes \<times> rpc_state" where
  "called_code req s =
     (let addr = request_string req ''address'';
          (code, s1) = (case ns_db (rpc_node s) of
              Some db \<Rightarrow> if addr = [] then ([], s) else (case get_contract_code addr db of (c, db') \<Rightarrow> (c, set_db db' s))
            | None \<Rightarrow> ([], s))
      in (if code = [] then rpc_hex_to_bytes (code_field req) else code, s1))"

definition call_contract :: "machine \<Rightarrow> string \<Rightarrow> rpc_state \<Rightarrow> rpc_outcome" where
  "call_contract m req s =
     (case called_code req s of
        (code, s1) \<Rightarrow>
          if code = [] then Reply (json_error (- 1) ''Contract code not found'') s1
          else run_code m code ((default_context m)\<lparr>gas_limit := 1000000, caller_address := request_string req ''from'',
                   contract_address := request_string req ''address''\<rparr>) s1
                 (\<lambda>r c. if \<not> r then json_error (- 32000) ''Execution failed''
                        else result_json (json_string (''0x'' @
                          (case stack c of [] \<Rightarrow> replicate 64 CHR ''0'' | w # _ \<Rightarrow> hex_encode w)))))"

definition rpc_get_contract_storage :: "string \<Rightarrow> string \<Rightarrow> rpc_state \<Rightarrow> string \<times> rpc_state" where
  "rpc_get_contract_storage addr key = with_db (\<lambda>db. case get_contract_storage addr key db of
     (v, db') \<Rightarrow> (result_json (json_string (hex_encode v)), db'))"

definition rpc_get_contract_code :: "string \<Rightarrow> rpc_state \<Rightarrow> string \<times> rpc_state" where
  "rpc_get_contract_code addr = with_db (\<lambda>db. case get_contract_code addr db of
     (code, db') \<Rightarrow> (if code = [] then json_error (- 1) ''Contract not found''
                     else result_json (json_string (''0x'' @ hex_encode code)), db'))"

subsection \<open>Network, validators and votes\<close>

definition rpc_get_peer_count :: "rpc_state \<Rightarrow> string" where
  "rpc_get_peer_count s = result_json (dec_string (case rpc_p2p s of None \<Rightarrow> 0 | Some n \<Rightarrow> unat (get_peer_count n)))"

definition get_network_info :: string where
  "get_network_info = result_json ''{\"chainId\":1337,\"protocolVersion\":\"1.0.0\"}''"

definition get_syncing_status :: string where "get_syncing_status = result_json ''false''"
definition get_chain_id :: string where "get_chain_id = result_json ''1337''"
definition get_protocol_version :: string where "get_protocol_version = result_json ''\"1.0.0\"''"
definition get_mining_difficulty :: string where "get_mining_difficulty = result_json ''4''"

definition suggest_fee :: string where
  "suggest_fee = result_json ''{\"min_fee\":1000,\"median_fee\":5000,\"fast_fee\":10000}''"

definition save_matching :: "string \<Rightarrow> mermai_validator_stake list \<Rightarrow> rpc_state \<Rightarrow> rpc_state" where
  "save_matching addr vs s =
     foldl (\<lambda>s v. case ns_db (rpc_node s) of
                    None \<Rightarrow> s
                  | Some db \<Rightarrow> if v_address v = addr then set_db (snd (save_validator v db)) s else s) s vs"

definition rpc_register_validator :: "'k openssl \<Rightarrow> u64 \<Rightarrow> string \<Rightarrow> rpc_state \<Rightarrow> string \<times> rpc_state" where
  "rpc_register_validator ossl now req s =
     (case consensus_engine (ns_env (rpc_node s)) of
        None \<Rightarrow> (json_error (- 32000) ''Consensus unavailable'', s)
      | Some c \<Rightarrow>
          let addr = request_string req ''address''; stake = request_number req ''stake'';
              key = rpc_hex_to_bytes (request_string req ''public_key'')
          in if addr = [] \<or> stake < 1000000 then (json_error (- 32602) ''Invalid validator registration'', s)
             else case register_validator ossl now addr stake [] key c of
                    (registered, c') \<Rightarrow>
                      if \<not> registered then (json_error (- 32602) ''Invalid validator registration'', s)
                      else (result_json ''true'',
                            save_matching addr (validators c')
                              (s\<lparr>rpc_node := (rpc_node s)\<lparr>ns_env := (ns_env (rpc_node s))\<lparr>consensus_engine := Some c'\<rparr>\<rparr>\<rparr>)))"

definition get_validator_info :: "string \<Rightarrow> rpc_state \<Rightarrow> string \<times> rpc_state" where
  "get_validator_info addr = with_db (\<lambda>db. case get_validator addr db of
     (v, db') \<Rightarrow> (if v_amount v = 0 then json_error (- 1) ''Validator not found''
                   else result_json (''{'' @ field_json ''address'' (json_string (v_address v)) @ '','' @
                     field_json ''amount'' (dec_string (unat (v_amount v))) @ '','' @
                     field_json ''lockTime'' (dec_string (unat (lock_time v))) @ '','' @
                     field_json ''lastProposal'' (dec_string (unat (last_proposal v))) @ '','' @
                     field_json ''weight'' (format_g (v_weight v)) @ ''}''), db'))"

definition rpc_get_all_validators :: "rpc_state \<Rightarrow> string \<times> rpc_state" where
  "rpc_get_all_validators = with_db (\<lambda>db. case get_all_validators db of
     (vs, db') \<Rightarrow> (result_json (''['' @ separated (map (\<lambda>v. ''{'' @ field_json ''address'' (json_string (v_address v)) @ '','' @
         field_json ''amount'' (dec_string (unat (v_amount v))) @ ''}'') vs) @ '']''), db'))"

definition rpc_get_validator_weight :: "string \<Rightarrow> rpc_state \<Rightarrow> string \<times> rpc_state" where
  "rpc_get_validator_weight addr = with_db (\<lambda>db. case get_validator addr db of
     (v, db') \<Rightarrow> (if v_amount v = 0 then json_error (- 1) ''Validator not found''
                   else result_json (format_f (v_weight v)), db'))"

definition submitted_vote :: "string \<Rightarrow> mermai_block_vote" where
  "submitted_vote req =
     \<lparr>vote_validator_address = request_string req ''validator_address'', vote_block_hash = request_string req ''block_hash'',
      vote_block_height = ucast (request_number req ''block_height''), vote_timestamp = request_number req ''timestamp'',
      vote_public_key = rpc_hex_to_bytes (request_string req ''validator_public_key''),
      vote_signature = rpc_hex_to_bytes (request_string req ''signature'')\<rparr>"

definition submit_vote :: "'k openssl \<Rightarrow> u32 \<Rightarrow> string \<Rightarrow> rpc_state \<Rightarrow> string \<times> rpc_state" where
  "submit_vote ossl junk req s =
     (case (ns_quorum (rpc_node s), consensus_engine (ns_env (rpc_node s))) of
        (Some q, Some c) \<Rightarrow>
          (case add_vote ossl (submitted_vote req) c q of
             (accepted, q') \<Rightarrow>
               let s1 = s\<lparr>rpc_node := (rpc_node s)\<lparr>ns_quorum := Some q'\<rparr>\<rparr>
               in if \<not> accepted then (json_error (- 32602) ''Invalid vote signature or unregistered validator'', s1)
                  else (result_json ''true'',
                        s1\<lparr>rpc_p2p := map_option (broadcast_vote junk (submitted_vote req)) (rpc_p2p s1)\<rparr>))
      | _ \<Rightarrow> (json_error (- 32000) ''Quorum service unavailable'', s))"

definition get_quorum_status :: "string \<Rightarrow> rpc_state \<Rightarrow> string" where
  "get_quorum_status h s =
     (case (ns_quorum (rpc_node s), consensus_engine (ns_env (rpc_node s))) of
        (Some q, Some c) \<Rightarrow>
          result_json (''{'' @ field_json ''finalized'' (if is_block_finalized h q then ''true'' else ''false'') @ '','' @
            field_json ''voteStake'' (dec_string (unat (get_vote_stake h q))) @ '','' @
            field_json ''totalStake'' (dec_string (unat (get_total_active_stake c))) @ ''}'')
      | _ \<Rightarrow> json_error (- 32000) ''Quorum service unavailable'')"

definition metric :: "string \<Rightarrow> string \<Rightarrow> string \<Rightarrow> string" where
  "metric name descr v = ''# HELP '' @ name @ '' '' @ descr @ [CHR 0x0A] @ ''# TYPE '' @ name @ '' gauge'' @ [CHR 0x0A] @
     name @ '' '' @ v @ [CHR 0x0A]"

definition get_metrics :: "rpc_state \<Rightarrow> string" where
  "get_metrics s =
     metric ''mermai_block_height'' ''Current chain tip height''
       (dec_string (case ns_chain (rpc_node s) of None \<Rightarrow> 0 | Some bc \<Rightarrow> unat (get_height bc))) @ [CHR 0x0A] @
     metric ''mermai_validators_active'' ''Number of active validators''
       (dec_string (case consensus_engine (ns_env (rpc_node s)) of None \<Rightarrow> 0 | Some c \<Rightarrow> unat (get_active_validator_count c))) @ [CHR 0x0A] @
     metric ''mermai_peers_connected'' ''Number of connected P2P peers''
       (dec_string (case rpc_p2p s of None \<Rightarrow> 0 | Some n \<Rightarrow> unat (get_peer_count n))) @ [CHR 0x0A] @
     metric ''mermai_mempool_size'' ''Number of unconfirmed transactions'' ''0''"

subsection \<open>Dispatch\<close>

definition get_param_str :: "string \<Rightarrow> string \<Rightarrow> string" where
  "get_param_str req key = (let v = request_string req key in if v = [] then request_string req ''params'' else v)"

definition requested_height :: "string \<Rightarrow> u32" where
  "requested_height req =
     ucast (let n = request_number req ''height'' in if n = 0 then request_number req ''params'' else n)"

definition requested_tx :: "string \<Rightarrow> string" where
  "requested_tx req =
     (let a = request_string req ''txHash''; b = (if a = [] then request_string req ''tx_id'' else a);
          c = (if b = [] then request_string req ''hash'' else b)
      in if c = [] then request_string req ''params'' else c)"

definition replies :: "string \<times> rpc_state \<Rightarrow> rpc_outcome" where
  "replies p = (case p of (r, s) \<Rightarrow> Reply r s)"

definition dispatch ::
  "'k openssl \<Rightarrow> machine \<Rightarrow> u64 \<Rightarrow> u32 \<Rightarrow> string \<Rightarrow> string \<Rightarrow> rpc_state \<Rightarrow> rpc_outcome" where
  "dispatch ossl m now junk method req s =
     (if method = ''mrm_blockNumber'' \<or> method = ''eth_blockNumber'' then replies (get_block_count s)
      else if method = ''mrm_getBlockByNumber'' \<or> method = ''eth_getBlockByNumber''
        then replies (rpc_get_block (requested_height req) s)
      else if method = ''mrm_getBlockByHash'' \<or> method = ''eth_getBlockByHash''
        then replies (rpc_get_block_by_hash (get_param_str req ''hash'') s)
      else if method = ''mrm_getFinalizedBlock'' then replies (get_finalized_block ossl s)
      else if method = ''mrm_getBalance'' \<or> method = ''eth_getBalance''
        then replies (get_balance (get_param_str req ''address'') s)
      else if method = ''mrm_getTransactionCount'' \<or> method = ''eth_getTransactionCount''
        then replies (get_account_nonce (get_param_str req ''address'') s)
      else if method = ''mrm_getTransaction'' \<or> method = ''mrm_getTransactionByHash'' \<or> method = ''eth_getTransactionByHash''
        then replies (rpc_get_transaction (requested_tx req) s)
      else if method = ''mrm_sendRawTransaction'' \<or> method = ''eth_sendRawTransaction'' \<or> method = ''mrm_sendTransaction''
        then replies (send_transaction ossl now junk req s)
      else if method = ''mrm_suggestFee'' \<or> method = ''eth_gasPrice'' then Reply suggest_fee s
      else if method = ''mrm_getMetrics'' then Reply (get_metrics s) s
      else if method = ''mrm_registerValidator'' then replies (rpc_register_validator ossl now req s)
      else if method = ''mrm_getValidatorInfo'' then replies (get_validator_info (get_param_str req ''address'') s)
      else if method = ''mrm_getAllValidators'' then replies (rpc_get_all_validators s)
      else if method = ''mrm_getValidatorWeight'' then replies (rpc_get_validator_weight (get_param_str req ''address'') s)
      else if method = ''mrm_submitVote'' then replies (submit_vote ossl junk req s)
      else if method = ''mrm_getQuorumStatus'' then Reply (get_quorum_status (get_param_str req ''hash'') s) s
      else if method = ''mrm_deployContract'' then replies (deploy_contract ossl req s)
      else if method = ''mrm_getContractCode'' \<or> method = ''eth_getCode''
        then replies (rpc_get_contract_code (get_param_str req ''address'') s)
      else if method = ''mrm_callContract'' \<or> method = ''eth_call'' then call_contract m req s
      else if method = ''mrm_estimateGas'' \<or> method = ''eth_estimateGas'' then estimate_gas m req s
      else if method = ''mrm_peerCount'' \<or> method = ''net_peerCount'' then Reply (rpc_get_peer_count s) s
      else if method = ''mrm_chainId'' \<or> method = ''eth_chainId'' then Reply get_chain_id s
      else Reply (json_error (- 32601) ''Method not found'') s)"

definition wrap_response :: "string \<Rightarrow> string \<Rightarrow> string" where
  "wrap_response rid response =
     (if prefix ''{\"error\"'' response \<or> prefix ''{\"result\"'' response
      then ''{\"jsonrpc\":\"2.0\",'' @ take (length response - 2) (drop 1 response) @ '',\"id\":'' @ rid @ ''}''
      else response)"

definition handle_request :: "'k openssl \<Rightarrow> machine \<Rightarrow> u64 \<Rightarrow> u32 \<Rightarrow> string \<Rightarrow> rpc_state \<Rightarrow> rpc_outcome" where
  "handle_request ossl m now junk req s =
     (case dispatch ossl m now junk (request_string req ''method'') req s of
        Reply response s' \<Rightarrow> Reply (wrap_response (request_id req) response) s'
      | No_return \<Rightarrow> No_return
      | Crash \<Rightarrow> Crash)"

text \<open>One connection: a single \<^verbatim>\<open>recv\<close> of at most 4095 bytes, the body after the empty line of the
  header, and the reply. When nothing was received the thread ends without a reply.\<close>

definition http_body :: "string \<Rightarrow> string" where
  "http_body request =
     (case after [CHR 0x0D, CHR 0x0A, CHR 0x0D, CHR 0x0A] request of Some body \<Rightarrow> body | None \<Rightarrow> request)"

definition http_response :: "string \<Rightarrow> string" where
  "http_response body =
     ''HTTP/1.1 200 OK'' @ [CHR 0x0D, CHR 0x0A] @ ''Content-Type: application/json'' @ [CHR 0x0D, CHR 0x0A] @
     ''Content-Length: '' @ dec_string (length body) @ [CHR 0x0D, CHR 0x0A, CHR 0x0D, CHR 0x0A] @ body"

definition serve_client :: "'k openssl \<Rightarrow> machine \<Rightarrow> u64 \<Rightarrow> u32 \<Rightarrow> string \<Rightarrow> rpc_state \<Rightarrow> rpc_outcome" where
  "serve_client ossl m now junk received s =
     (let request = take 4095 received
      in if request = [] then Reply [] s
         else case handle_request ossl m now junk (http_body request) s of
                Reply body s' \<Rightarrow> Reply (http_response body) s'
              | No_return \<Rightarrow> No_return
              | Crash \<Rightarrow> Crash)"

section \<open>The form of every reply\<close>

text \<open>An object whose only member is a result or an error.\<close>

definition rpc_shaped :: "string \<Rightarrow> bool" where
  "rpc_shaped r \<longleftrightarrow> (\<exists>k v. r = ''{'' @ field_json k v @ ''}'' \<and> k \<in> {''result'', ''error''} \<and> json v)"

named_theorems rpc_shape \<open>replies that are a result or an error object\<close>

lemma shaped_result [rpc_shape]: "json v \<Longrightarrow> rpc_shaped (result_json v)"
  unfolding rpc_shaped_def by (intro exI [of _ "''result''"] exI [of _ v]) (simp add: result_json_def field_json_def)

lemma shaped_error [rpc_shape]: "rpc_shaped (json_error code message)"
proof -
  let ?v = "''{'' @ field_json ''code'' (int_string code) @ '','' @ field_json ''message'' (json_string message) @ ''}''"
  have "json ?v" by (simp add: json_rules)
  then show ?thesis
    unfolding rpc_shaped_def by (intro exI [of _ "''error''"] exI [of _ ?v]) (simp add: json_error_def field_json_def)
qed

lemma json_constants [json_rules]:
  "json ''1337''" "json ''\"0x5208\"''" "json ''{\"height\":0,\"hash\":\"genesis\"}''"
  "json ''{\"min_fee\":1000,\"median_fee\":5000,\"fast_fee\":10000}''"
proof -
  have n: "json ''1337''" "json ''0''" "json ''1000''" "json ''5000''" "json ''10000''"
    by (rule json_constant, simp add: json_int_def json_digits_def rpc_digit_def digit_in_def)+
  have t: "json ''\"0x5208\"''" "json ''\"genesis\"''" using json_text [of "''0x5208''"] json_text [of "''genesis''"] by simp_all
  show "json ''1337''" "json ''\"0x5208\"''" by (rule n t)+
  show "json ''{\"height\":0,\"hash\":\"genesis\"}''"
    using json_members(2) [of "''height''" "''0''" "''hash''" "''\"genesis\"''"] n t by (simp add: field_json_def)
  show "json ''{\"min_fee\":1000,\"median_fee\":5000,\"fast_fee\":10000}''"
    using json_members(3) [of "''min_fee''" "''1000''" "''median_fee''" "''5000''" "''fast_fee''" "''10000''"] n
    by (simp add: field_json_def)
qed

lemma shaped_with_db [rpc_shape]: "(\<And>db. rpc_shaped (fst (f db))) \<Longrightarrow> rpc_shaped (fst (with_db f s))"
  by (auto simp: with_db_def rpc_shape case_prod_beta split: option.splits)

lemma shaped_found [rpc_shape]: "rpc_shaped (found_block block)"
  by (auto simp: found_block_def block_json_def rpc_shape json_rules split: option.splits)

definition shaped_reply :: "rpc_outcome \<Rightarrow> bool" where
  "shaped_reply out \<longleftrightarrow> (case out of Reply r s \<Rightarrow> rpc_shaped r | _ \<Rightarrow> True)"

lemma shaped_Reply [rpc_shape]: "rpc_shaped r \<Longrightarrow> shaped_reply (Reply r s)"
  by (simp add: shaped_reply_def)

lemma shaped_replies [rpc_shape]: "rpc_shaped (fst p) \<Longrightarrow> shaped_reply (replies p)"
  by (simp add: shaped_reply_def replies_def case_prod_beta)

lemma shaped_run [rpc_shape]: "(\<And>r c. rpc_shaped (answer r c)) \<Longrightarrow> shaped_reply (run_code m code ctx s answer)"
  by (auto simp: shaped_reply_def run_code_def split: option.splits vm_outcome.splits)

lemma shaped_block_methods [rpc_shape]:
  "rpc_shaped (fst (get_block_count s))" "rpc_shaped (fst (rpc_get_block h s))"
  "rpc_shaped (fst (rpc_get_block_by_hash hash s))" "rpc_shaped (fst (get_finalized_block ossl s))"
  by (auto simp: get_block_count_def rpc_get_block_def rpc_get_block_by_hash_def get_finalized_block_def
      case_prod_beta rpc_shape json_rules split: option.splits)

lemma shaped_account_methods [rpc_shape]:
  "rpc_shaped (fst (get_balance addr s))" "rpc_shaped (fst (get_account_nonce addr s))"
  "rpc_shaped (fst (rpc_get_transaction tid s))" "rpc_shaped (fst (send_transaction ossl now junk req s))"
  by (auto simp: get_balance_def get_account_nonce_def rpc_get_transaction_def send_transaction_def
      case_prod_beta rpc_shape json_rules Let_def split: option.splits sum.splits)

lemma shaped_validator_methods [rpc_shape]:
  "rpc_shaped (fst (rpc_register_validator ossl now req s))" "rpc_shaped (fst (get_validator_info addr s))"
  "rpc_shaped (fst (rpc_get_all_validators s))" "rpc_shaped (fst (rpc_get_validator_weight addr s))"
  "rpc_shaped (fst (submit_vote ossl junk req s))" "rpc_shaped (get_quorum_status h s)"
  by (auto simp: rpc_register_validator_def get_validator_info_def rpc_get_all_validators_def rpc_get_validator_weight_def
      submit_vote_def get_quorum_status_def case_prod_beta rpc_shape json_rules Let_def split: option.splits)

lemma shaped_contract_methods [rpc_shape]:
  "rpc_shaped (fst (deploy_contract ossl req s))" "rpc_shaped (fst (rpc_get_contract_code addr s))"
  "shaped_reply (call_contract m req s)" "shaped_reply (estimate_gas m req s)"
  by (auto simp: deploy_contract_def rpc_get_contract_code_def call_contract_def estimate_gas_def
      case_prod_beta rpc_shape json_rules Let_def split: option.splits)

lemma shaped_constants [rpc_shape]:
  "rpc_shaped suggest_fee" "rpc_shaped get_chain_id" "rpc_shaped (rpc_get_peer_count s)"
  by (simp_all add: suggest_fee_def get_chain_id_def rpc_get_peer_count_def rpc_shape json_rules)

lemma shaped_dispatch: "method \<noteq> ''mrm_getMetrics'' \<Longrightarrow> shaped_reply (dispatch ossl m now junk method req s)"
  unfolding dispatch_def by (simp only: if_split) (simp add: rpc_shape)

definition envelope :: "string \<Rightarrow> string \<Rightarrow> string \<Rightarrow> string" where
  "envelope k v rid =
     ''{'' @ separated [field_json ''jsonrpc'' ''\"2.0\"'', field_json k v, field_json ''id'' rid] @ ''}''"

lemma json_envelope:
  assumes "json_chars k" "json v" "json rid"
  shows "json (envelope k v rid)"
proof -
  have "json ''\"2.0\"''" using json_text [of "''2.0''"] by simp
  with assms show ?thesis by (simp add: envelope_def json_members(3))
qed

lemma wrap_shaped:
  assumes "rpc_shaped r"
  shows "\<exists>k v. wrap_response rid r = envelope k v rid \<and> k \<in> {''result'', ''error''} \<and> json v"
proof -
  from assms obtain k v where r: "r = ''{'' @ field_json k v @ ''}''" and k: "k \<in> {''result'', ''error''}" and v: "json v"
    by (auto simp: rpc_shaped_def)
  from k have "prefix ''{\"error\"'' r \<or> prefix ''{\"result\"'' r" by (auto simp: r field_json_def prefix_def)
  then have "wrap_response rid r = envelope k v rid"
    by (simp add: wrap_response_def r envelope_def field_json_def)
  with k v show ?thesis by blast
qed

text \<open>C32: Every reply is a JSON-RPC 2.0 envelope. Whatever the request and the state of the node, a request
  other than the one for the metrics (which answers with plain text) that returns at all is answered
  by the text of an object with exactly three members: the protocol version, a \<^verbatim>\<open>result\<close> or an
  \<^verbatim>\<open>error\<close> whose value is a JSON text, and an \<^verbatim>\<open>id\<close> with the characters taken from the request.
  The whole reply is a JSON text if these characters are one (as for a request without an identifier, with a
  quoted one without backslashes, or with a decimal number; an identifier such as \<^verbatim>\<open>null\<close> yields no
  characters and a reply that is not JSON, \<open>null_id_dropped\<close>). JSON is the grammar of RFC 8259, with
  control characters allowed in strings.
\<close>

theorem replies_are_envelopes:
  assumes "handle_request ossl m now junk req s = Reply r s'" "request_string req ''method'' \<noteq> ''mrm_getMetrics''"
  shows "\<exists>k v. r = envelope k v (request_id req) \<and> k \<in> {''result'', ''error''} \<and> json v \<and>
    (json (request_id req) \<longrightarrow> json r)"
proof -
  from assms(1) obtain r0 where d: "dispatch ossl m now junk (request_string req ''method'') req s = Reply r0 s'"
    and r: "r = wrap_response (request_id req) r0"
    by (auto simp: handle_request_def split: rpc_outcome.splits)
  from shaped_dispatch [OF assms(2), of ossl m now junk req s] have "rpc_shaped r0" by (simp add: d shaped_reply_def)
  from wrap_shaped [OF this, of "request_id req"] obtain k v
    where e: "r = envelope k v (request_id req)" "k \<in> {''result'', ''error''}" "json v" unfolding r by blast
  then have "json_chars k" by auto
  with e json_envelope [of k v "request_id req"] show ?thesis by blast
qed

section \<open>Contract code in requests\<close>

lemma digit_in_hex: "n < 16 \<Longrightarrow> digit_in 16 (hex_digit n) = Some n"
  by (simp add: digit_in_def hex_digit_def Let_def)

lemma hex_digit_no_mark:
  assumes "n < 16"
  shows "\<not> is_space (hex_digit n)" "hex_digit n \<noteq> CHR ''-''" "hex_digit n \<noteq> CHR ''+''"
    "hex_digit n \<noteq> CHR ''x''" "hex_digit n \<noteq> CHR ''X''" "hex_digit n \<noteq> CHR 0x22"
proof -
  define k where "k = (of_char (hex_digit n) :: nat)"
  have k: "k = (if n < 10 then 48 + n else 87 + n)" using assms by (simp add: k_def hex_digit_def)
  show "\<not> is_space (hex_digit n)" using assms k by (auto simp: is_space_def Let_def k_def [symmetric] split: if_splits)
  have "hex_digit n \<noteq> c" if "(of_char c :: nat) \<noteq> k" for c using that by (auto simp: k_def)
  then show "hex_digit n \<noteq> CHR ''-''" "hex_digit n \<noteq> CHR ''+''" "hex_digit n \<noteq> CHR ''x''"
    "hex_digit n \<noteq> CHR ''X''" "hex_digit n \<noteq> CHR 0x22"
    using assms k by (auto split: if_splits)
qed

lemma stoul_hex_byte: "stoull ''stoul'' 16 (hex_byte b) = Inr (of_nat (unat b))"
proof -
  let ?h = "unat b div 16" and ?l = "unat b mod 16"
  have "16 * ?h + ?l = unat b" by simp
  then show ?thesis using hex_byte_nibbles [of b] unat_byte_less [of b]
    by (simp add: stoull_def hex_byte_def hex_digit_no_mark unsigned_literal_def hex_prefixed_def starts_digit_def digit_in_hex
        Let_def mult.commute)
qed

lemma hex_pairs_encode: "hex_pairs (hex_encode bs) = bs"
proof (induction bs)
  case (Cons b bs)
  obtain x y where h: "hex_byte b = [x, y]" by (simp add: hex_byte_def)
  have "(ucast (of_nat (unat b) :: u64) :: byte) = b" by (rule bit_word_eqI) (simp add: bit_simps)
  with Cons stoul_hex_byte [of b] h show ?case by simp
qed simp

lemma hex_encode_no_prefix: "take 2 (hex_encode bs) \<noteq> ''0x''"
  using hex_digit_no_mark(4) [OF hex_byte_nibbles(2)] by (cases bs) (auto simp: hex_byte_def)

lemma hex_round_trip: "rpc_hex_to_bytes (hex_encode bs) = bs" "rpc_hex_to_bytes (''0x'' @ hex_encode bs) = bs"
  using hex_encode_no_prefix [of bs] by (simp_all add: rpc_hex_to_bytes_def hex_pairs_encode)

lemma c_str_hex_address [simp]: "c_str (''0x'' @ hex_encode bs) = ''0x'' @ hex_encode bs"
  using c_str_hex [of bs] by (simp add: c_str_def)

text \<open>A contract that was deployed is read back: for every non-empty code that a request carries in
  hexadecimal, \<^verbatim>\<open>mrm_deployContract\<close> answers with an address, and \<^verbatim>\<open>mrm_getContractCode\<close> for that
  address answers with the same code.
\<close>

theorem deployed_code_read_back:
  assumes "request_string req ''bytecode'' = ''0x'' @ hex_encode code" "code \<noteq> []"
    and "ns_db (rpc_node s) = Some db" "no_faults db" "''contracts'' \<in> set (schema db)" "db_connection db"
  shows "\<exists>addr s'. deploy_contract ossl req s = (result_json (json_string addr), s') \<and>
    fst (rpc_get_contract_code addr s') = result_json (json_string (''0x'' @ hex_encode code))"
proof -
  let ?addr = "''0x'' @ hex_encode (take 20 (SHA256 ossl code))"
  let ?db = "db\<lparr>tables := (tables db)\<lparr>contracts_table := omap_put ?addr code (contracts_table (tables db))\<rparr>\<rparr>"
  have c: "rpc_hex_to_bytes (code_field req) = code" using assms(1) hex_round_trip(2) by (simp add: code_field_def)
  have saved: "save_contract_code ?addr code db = (True, ?db)"
    using assms(2,4-6) c_str_hex_address [of "take 20 (SHA256 ossl code)"] by (simp add: save_contract_code_def update_no_faults)
  have "no_faults ?db" using assms(4) by (simp add: no_faults_def)
  then have "fst (get_contract_code ?addr ?db) = code"
    using assms(5,6) c_str_hex_address [of "take 20 (SHA256 ossl code)"]
    by (simp add: get_contract_code_def query_no_faults done_or_def omap_at_def)
  then have "fst (rpc_get_contract_code ?addr (set_db ?db s)) = result_json (json_string (''0x'' @ hex_encode code))"
    using assms(2) by (simp add: rpc_get_contract_code_def with_db_def set_db_def case_prod_beta)
  moreover have "deploy_contract ossl req s = (result_json (json_string ?addr), set_db ?db s)"
    using assms(2,3) c saved by (simp add: deploy_contract_def Let_def)
  ultimately show ?thesis by blast
qed

definition calls_code :: "string \<Rightarrow> bytes \<Rightarrow> bool" where
  "calls_code req code \<longleftrightarrow> request_string req ''method'' = ''eth_call'' \<and> request_string req ''address'' = [] \<and>
     request_string req ''bytecode'' = ''0x'' @ hex_encode code"




definition demo_machine :: machine where
  "demo_machine = \<lparr>vm_cfg = demo_config, default_context = demo_context, vm_clock = (\<lambda>n. 0)\<rparr>"

definition call_request :: "bytes \<Rightarrow> string" where
  "call_request code = ''{\"from\":\"eve\",\"method\":\"eth_call\",\"bytecode\":\"0x'' @ hex_encode code @ ''\"}''"

lemma hex_no_quote: "CHR 0x22 \<notin> set (hex_encode bs)"
proof (induction bs)
  case (Cons b bs)
  have "CHR 0x22 \<noteq> hex_digit (unat b div 16)" "CHR 0x22 \<noteq> hex_digit (unat b mod 16)"
    using hex_digit_no_mark(6) [OF hex_byte_nibbles(1), of b] hex_digit_no_mark(6) [OF hex_byte_nibbles(2), of b] by metis+
  with Cons show ?case by (auto simp: hex_byte_def)
qed simp

lemma after_skip: "c \<notin> set h \<Longrightarrow> after (c # cs) (h @ rest) = after (c # cs) rest"
  by (induction h) auto

lemma call_request_calls:
  "calls_code (call_request code) code" "request_string (call_request code) ''from'' = ''eve''"
proof -
  note q = hex_no_quote [of code]
  have "until_quote (''0x'' @ hex_encode code @ ''\"}'') = Some (''0x'' @ hex_encode code)"
    using until_quote_append [of "''0x'' @ hex_encode code" "''}''"] q by simp
  moreover have "until_quote (''eth_call'' @ CHR 0x22 # rest) = Some ''eth_call''"
    "until_quote (''eve'' @ CHR 0x22 # rest) = Some ''eve''" for rest
    by (rule until_quote_append, simp)+
  ultimately show "calls_code (call_request code) code" "request_string (call_request code) ''from'' = ''eve''"
    using after_skip [OF q, of _ "''\"}''"] q
    by (simp_all add: calls_code_def call_request_def request_string_def field_text_def)
qed


definition demo_rpc :: rpc_state where
  "demo_rpc = \<lparr>rpc_node = demo_node\<lparr>ns_db := Some ((demo_db [])\<lparr>schema := [''contracts'']\<rparr>)\<rparr>, rpc_p2p = None\<rparr>"

theorem deployed_code_read_back_witness:
  "\<exists>addr s'. deploy_contract toy_ossl (call_request [1, 2]) demo_rpc = (result_json (json_string addr), s') \<and>
    fst (rpc_get_contract_code addr s') = result_json (json_string (''0x'' @ hex_encode [1, 2]))"
  using call_request_calls [of "[1, 2]"]
  by (intro deployed_code_read_back [where db = "(demo_db [])\<lparr>schema := [''contracts'']\<rparr>"])
    (simp_all add: calls_code_def demo_rpc_def no_faults_def demo_db_def)

theorem replies_are_envelopes_witness:
  "\<exists>r k v. handle_request toy_ossl demo_machine 0 0 ''{\"id\":7,\"method\":\"eth_chainId\"}'' demo_rpc = Reply r demo_rpc \<and>
    r = envelope k v ''7'' \<and> k \<in> {''result'', ''error''} \<and> json v \<and> json r"
proof -
  let ?req = "''{\"id\":7,\"method\":\"eth_chainId\"}''"
  have f: "request_string ?req ''method'' = ''eth_chainId''" "request_id ?req = ''7''"
    by (simp_all add: request_string_def request_id_def field_text_def until_quote_def json_space_def rpc_digit_def digit_in_def)
  have "dispatch toy_ossl demo_machine 0 0 ''eth_chainId'' ?req demo_rpc = Reply (result_json ''1337'') demo_rpc"
    by (simp add: dispatch_def get_chain_id_def)
  then obtain r where h: "handle_request toy_ossl demo_machine 0 0 ?req demo_rpc = Reply r demo_rpc"
    unfolding handle_request_def f by simp
  have "json ''7''" by (rule json_constant) (simp add: json_int_def json_digits_def rpc_digit_def digit_in_def)
  with replies_are_envelopes [OF h] h f show ?thesis by auto
qed

section \<open>The finalized tip\<close>

lemma sint_small_u32: "k < 2 ^ 31 \<Longrightarrow> sint (of_nat k :: u32) = int k"
  by (simp add: signed_of_nat signed_take_bit_int_eq_self)

lemma search_finalized_find:
  "n \<le> length (chain bc) \<Longrightarrow> length (chain bc) < 2 ^ 32 \<Longrightarrow>
   search_finalized ossl bc (Some q) n =
     map_option (\<lambda>b. (height b, block_hash_hex ossl b))
       (find (\<lambda>b. is_block_finalized (block_hash_hex ossl b) q) (rev (take n (chain bc))))"
proof (induction n)
  case (Suc n)
  then have "get_block bc (of_nat n) = Some (chain bc ! n)" by (simp add: get_block_nth)
  moreover have "take (Suc n) (chain bc) = take n (chain bc) @ [chain bc ! n]" using Suc.prems by (simp add: take_Suc_conv_app_nth)
  ultimately show ?case using Suc by (simp add: Let_def)
qed simp

text \<open>\<^verbatim>\<open>mrm_getFinalizedBlock\<close> reports the last finalized block: on a chain of at most 2^31 blocks
  the answer is the height and the hash of the block nearest to the tip that the quorum collector
  holds as finalized, and the text for the genesis block exactly when there is none.
\<close>

theorem finalized_tip_reported:
  assumes "ns_chain (rpc_node s) = Some bc" "ns_quorum (rpc_node s) = Some q"
    and "chain bc \<noteq> []" "length (chain bc) \<le> 2 ^ 31"
  shows "get_finalized_block ossl s =
    ((case find (\<lambda>b. is_block_finalized (block_hash_hex ossl b) q) (rev (chain bc)) of
        None \<Rightarrow> result_json ''{\"height\":0,\"hash\":\"genesis\"}''
      | Some b \<Rightarrow> result_json (''{'' @ field_json ''height'' (dec_string (unat (height b))) @ '','' @
          field_json ''hash'' (json_string (block_hash_hex ossl b)) @ ''}'')), s)"
proof -
  have "length (chain bc) - 1 < 2 ^ 31" using assms(3,4) by (cases "chain bc") auto
  then have "sint (get_height bc) = int (length (chain bc) - 1)"
    using assms(3) sint_small_u32 [of "length (chain bc) - 1"] by (simp add: get_height_def)
  moreover have "0 < length (chain bc)" using assms(3) by simp
  ultimately have n: "nat (sint (get_height bc) + 1) = length (chain bc)" by simp
  have "length (chain bc) < 2 ^ 32" using assms(4) by simp
  with n assms(1,2) search_finalized_find [of "length (chain bc)" bc ossl q] show ?thesis
    by (simp add: get_finalized_block_def split: option.splits)
qed

theorem finalized_tip_reported_witness:
  "fst (get_finalized_block toy_ossl (demo_rpc\<lparr>rpc_node := demo_node\<lparr>ns_quorum := Some (new_collector\<lparr>finalized_blocks :=
      {block_hash_hex toy_ossl (genesis_block 0)}\<rparr>)\<rparr>\<rparr>)) =
    result_json (''{'' @ field_json ''height'' (dec_string 0) @ '','' @
      field_json ''hash'' (json_string (block_hash_hex toy_ossl (genesis_block 0))) @ ''}'')"
  by (subst finalized_tip_reported [where bc = "new_blockchain 0" and q = "new_collector\<lparr>finalized_blocks :=
      {block_hash_hex toy_ossl (genesis_block 0)}\<rparr>"])
    (simp_all add: demo_rpc_def demo_node_def new_blockchain_def is_block_finalized_def genesis_block_def new_block_def)

section \<open>Fields of a request\<close>

text \<open>A text value is read back when its key does not occur earlier and the value has no quote.\<close>

lemma after_at:
  assumes "\<not> sublist needle (pre @ butlast needle)" "needle \<noteq> []"
  shows "after needle (pre @ needle @ rest) = Some rest"
  using assms(1)
proof (induction pre)
  case Nil
  obtain c cs where n: "needle = c # cs" using assms(2) by (cases needle) auto
  show ?case by (simp add: n)
next
  case (Cons x pre)
  have ih: "\<not> sublist needle (pre @ butlast needle)" using Cons.prems by (auto simp: sublist_Cons_right)
  have "take (length needle) (x # pre @ needle @ rest) \<noteq> needle"
  proof
    assume t: "take (length needle) (x # pre @ needle @ rest) = needle"
    let ?l = "x # pre @ butlast needle"
    have "length needle \<le> length ?l" using assms(2) by (cases needle) auto
    moreover have "x # pre @ needle @ rest = ?l @ last needle # rest" using assms(2) by simp
    ultimately have "take (length needle) ?l = needle" using t by (metis append_Nil2 diff_is_0_eq take0 take_append)
    then have "prefix needle ?l" by (metis take_is_prefix)
    with Cons.prems show False by (auto dest: prefix_imp_sublist)
  qed
  with Cons.IH [OF ih] show ?case by simp
qed

lemma request_string_field:
  assumes "\<not> sublist (CHR 0x22 # key @ [CHR 0x22]) (pre @ CHR 0x22 # key)" "CHR 0x22 \<notin> set v"
  shows "request_string (pre @ CHR 0x22 # key @ [CHR 0x22] @ '':'' @ CHR 0x22 # v @ CHR 0x22 # post) key = v"
proof -
  have "after (CHR 0x22 # key @ [CHR 0x22]) (pre @ (CHR 0x22 # key @ [CHR 0x22]) @ '':'' @ CHR 0x22 # v @ CHR 0x22 # post) =
      Some ('':'' @ CHR 0x22 # v @ CHR 0x22 # post)"
    by (rule after_at) (use assms(1) in \<open>simp_all add: butlast_append\<close>)
  then show ?thesis using until_quote_append [OF assms(2), of post]
    by (simp add: request_string_def field_text_def)
qed

text \<open>
  The search does not know the structure of the request: with a numeric identifier in front, the
  identifier of a transaction is taken from the next quoted text, here the name of the member that
  follows.
\<close>

lemma transaction_id_misread:
  "request_string ''{\"id\":1,\"method\":\"mrm_sendTransaction\",\"params\":{\"id\":\"t1\"}}'' ''id'' = ''method''"
  by (simp add: request_string_def field_text_def until_quote_def)

end
