(* ===== verification/Mermai_Server.thy ===== *)
theory Mermai_Server
  imports Mermai_RPC
begin

text \<open>
  The two servers of the node: the listener of the peer-to-peer node
  (\<^verbatim>\<open>src/src/network/mermai_network.cpp\<close>) and the JSON-RPC server (\<^verbatim>\<open>src/src/rpc/mermai_rpc.cpp\<close>): starting
  to listen, one turn of the accept loop, the thread of one RPC connection, stopping, destruction. The model is the
  POSIX build (the branches \<^verbatim>\<open>#else\<close> of the sources). What the operating system answers is given from outside:
  \<open>net_os\<close> for \<^verbatim>\<open>socket\<close>, \<^verbatim>\<open>bind\<close> and \<^verbatim>\<open>listen\<close>, and the result of each \<^verbatim>\<open>accept\<close>. A list of descriptors
  holds the sockets the two servers own (the socket of an accepted peer belongs to that peer). A call may also end
  the process (assigning to a \<^verbatim>\<open>std::thread\<close> that still has to be joined) or wait for ever (joining a thread
  that waits in \<^verbatim>\<open>accept\<close>: whether closing the socket makes that call return is up to the system).
\<close>

section \<open>Sockets\<close>

datatype 'a call = Returns 'a | Terminates | Blocks

definition call_bind :: "'a call \<Rightarrow> ('a \<Rightarrow> 'b call) \<Rightarrow> 'b call" where
  "call_bind r f = (case r of Returns x \<Rightarrow> f x | Terminates \<Rightarrow> Terminates | Blocks \<Rightarrow> Blocks)"

lemma call_bind_simps [simp]: "call_bind (Returns x) f = f x" "call_bind Terminates f = Terminates" "call_bind Blocks f = Blocks"
  by (simp_all add: call_bind_def)

lemma call_bind_Returns: "call_bind r f = Returns y \<longleftrightarrow> (\<exists>x. r = Returns x \<and> f x = Returns y)"
  by (cases r) auto

record net_os =
  os_socket :: "nat list \<Rightarrow> nat option"
  os_bind :: "nat list \<Rightarrow> u16 \<Rightarrow> bool"
  os_listen :: "nat list \<Rightarrow> u16 \<Rightarrow> bool"

record client =
  client_handle :: nat
  client_ip :: string
  client_socket :: socket

text \<open>\<^verbatim>\<open>socket\<close> returns a descriptor that is not in use; standard input is taken to be open, so that it
  is not 0, which the code reads as no socket.\<close>

definition fresh_handle :: "nat \<Rightarrow> nat list \<Rightarrow> bool" where
  "fresh_handle h fds \<longleftrightarrow> h \<noteq> 0 \<and> h \<notin> set fds"

definition sockets_fresh :: "net_os \<Rightarrow> nat list \<Rightarrow> bool" where
  "sockets_fresh os fds \<longleftrightarrow> (case os_socket os fds of None \<Rightarrow> True | Some h \<Rightarrow> fresh_handle h fds)"

definition close_socket :: "nat \<Rightarrow> nat list \<Rightarrow> nat list" where
  "close_socket h fds = (if h = 0 then fds else remove1 h fds)"

section \<open>The listener of the peer-to-peer node\<close>

definition start_listening :: "net_os \<Rightarrow> mermai_p2p_node \<times> nat list \<Rightarrow> (bool \<times> mermai_p2p_node \<times> nat list) call" where
  "start_listening os s =
     (case s of (n, fds) \<Rightarrow>
        if listening n then Returns (False, n, fds)
        else case os_socket os fds of
               None \<Rightarrow> Returns (False, n, fds)
             | Some h \<Rightarrow>
                 if \<not> os_bind os fds (listen_port n) \<or> \<not> os_listen os fds (listen_port n)
                 then Returns (False, n, close_socket h (h # fds))
                 else if listener_thread n \<noteq> No_thread then Terminates
                 else Returns (True, n\<lparr>listen_socket := h, listening := True, listener_thread := Accepting\<rparr>, h # fds))"

text \<open>What the loop does with the result of \<^verbatim>\<open>accept\<close>.\<close>

definition p2p_accepted :: "u64 \<Rightarrow> client option \<Rightarrow> mermai_p2p_node \<times> nat list \<Rightarrow> mermai_p2p_node \<times> nat list" where
  "p2p_accepted now got s =
     (case s of (n, fds) \<Rightarrow>
        case got of
          None \<Rightarrow> (n\<lparr>listener_thread := Loop_ended\<rparr>, fds)
        | Some c \<Rightarrow>
            (case accept_connection now (client_ip c) (client_handle c) (client_socket c) n of
               (None, n') \<Rightarrow> (n', close_socket (client_handle c) (client_handle c # fds))
             | (Some p, n') \<Rightarrow> (n', fds)))"

definition listener_turn :: "u64 \<Rightarrow> client option \<Rightarrow> mermai_p2p_node \<times> nat list \<Rightarrow> mermai_p2p_node \<times> nat list" where
  "listener_turn now got s =
     (if listener_thread (fst s) \<noteq> Accepting then s
      else if \<not> listening (fst s) then ((fst s)\<lparr>listener_thread := Loop_ended\<rparr>, snd s)
      else p2p_accepted now got s)"

text \<open>\<open>pending\<close> is what becomes of the \<^verbatim>\<open>accept\<close> the thread waits in when its socket is closed: it never returns
  (\<open>None\<close>), or it returns a last result, after which the loop ends since \<^verbatim>\<open>listening\<close> is false.\<close>

definition p2p_stop :: "u64 \<Rightarrow> client option option \<Rightarrow> mermai_p2p_node \<times> nat list \<Rightarrow> (mermai_p2p_node \<times> nat list) call" where
  "p2p_stop now pending s =
     (case s of (n, fds) \<Rightarrow>
        if \<not> listening n then Returns (n, fds)
        else let s1 = (n\<lparr>listening := False, listen_socket := 0\<rparr>, close_socket (listen_socket n) fds);
                 joined = (\<lambda>(n', fds'). Returns (n'\<lparr>listener_thread := No_thread\<rparr>, fds'))
          in case (listener_thread n, pending) of
               (Accepting, None) \<Rightarrow> Blocks
             | (Accepting, Some got) \<Rightarrow> joined (p2p_accepted now got s1)
             | _ \<Rightarrow> joined s1)"

definition destroy_p2p_node :: "u64 \<Rightarrow> client option option \<Rightarrow> mermai_p2p_node \<times> nat list \<Rightarrow> (mermai_p2p_node \<times> nat list) call" where
  "destroy_p2p_node now pending s =
     call_bind (p2p_stop now pending s) (\<lambda>(n, fds).
       Returns (n\<lparr>node_peers := map disconnect (node_peers n)\<rparr>, fds))"

section \<open>The JSON-RPC server\<close>

record mermai_rpc_server =
  server_port :: u16
  server_running :: bool
  server_socket :: nat
  server_thread :: thread_state

definition new_rpc_server :: "u16 \<Rightarrow> mermai_rpc_server" where
  "new_rpc_server rpc_port =
     \<lparr>server_port = rpc_port, server_running = False, server_socket = 0, server_thread = No_thread\<rparr>"

definition start_server :: "net_os \<Rightarrow> mermai_rpc_server \<times> nat list \<Rightarrow> (bool \<times> mermai_rpc_server \<times> nat list) call" where
  "start_server os s =
     (case s of (r, fds) \<Rightarrow>
        if server_running r then Returns (False, r, fds)
        else case os_socket os fds of
               None \<Rightarrow> Returns (False, r, fds)
             | Some h \<Rightarrow>
                 if \<not> os_bind os fds (server_port r) \<or> \<not> os_listen os fds (server_port r)
                 then Returns (False, r, remove1 h (h # fds))
                 else if server_thread r \<noteq> No_thread then Terminates
                 else Returns (True, r\<lparr>server_socket := h, server_running := True, server_thread := Accepting\<rparr>, h # fds))"

text \<open>An accepted client gets a detached thread of its own, \<open>client_thread\<close> below.\<close>

definition rpc_accepted :: "client option \<Rightarrow> mermai_rpc_server \<times> nat list \<Rightarrow> mermai_rpc_server \<times> nat list" where
  "rpc_accepted got s =
     (case s of (r, fds) \<Rightarrow>
        case got of
          None \<Rightarrow> (r\<lparr>server_thread := Loop_ended\<rparr>, fds)
        | Some c \<Rightarrow> (r, client_handle c # fds))"

definition server_turn :: "client option \<Rightarrow> mermai_rpc_server \<times> nat list \<Rightarrow> mermai_rpc_server \<times> nat list" where
  "server_turn got s =
     (if server_thread (fst s) \<noteq> Accepting then s
      else if \<not> server_running (fst s) then ((fst s)\<lparr>server_thread := Loop_ended\<rparr>, snd s)
      else rpc_accepted got s)"

text \<open>The thread of one connection: the reply that is sent, and the descriptors after it. The socket is closed only
  when something was received.\<close>

definition client_thread ::
  "'k openssl \<Rightarrow> machine \<Rightarrow> u64 \<Rightarrow> u32 \<Rightarrow> string \<Rightarrow> nat \<Rightarrow> rpc_state \<times> nat list \<Rightarrow> (string \<times> rpc_state \<times> nat list) call" where
  "client_thread ossl m now junk received h s =
     (case s of (w, fds) \<Rightarrow>
        case serve_client ossl m now junk received w of
          No_return \<Rightarrow> Blocks
        | Crash \<Rightarrow> Terminates
        | Reply text w' \<Rightarrow> Returns (text, w', if received = [] then fds else remove1 h fds))"

definition stop_server :: "client option option \<Rightarrow> mermai_rpc_server \<times> nat list \<Rightarrow> (mermai_rpc_server \<times> nat list) call" where
  "stop_server pending s =
     (case s of (r, fds) \<Rightarrow>
        if \<not> server_running r then Returns (r, fds)
        else let s1 = (r\<lparr>server_running := False, server_socket := 0\<rparr>,
                       if server_socket r \<noteq> 0 then remove1 (server_socket r) fds else fds);
                 joined = (\<lambda>(r', fds'). Returns (r'\<lparr>server_thread := No_thread\<rparr>, fds'))
          in case (server_thread r, pending) of
               (Accepting, None) \<Rightarrow> Blocks
             | (Accepting, Some got) \<Rightarrow> joined (rpc_accepted got s1)
             | _ \<Rightarrow> joined s1)"

definition destroy_rpc_server :: "client option option \<Rightarrow> mermai_rpc_server \<times> nat list \<Rightarrow> (mermai_rpc_server \<times> nat list) call" where
  "destroy_rpc_server = stop_server"

section \<open>The contract of a server\<close>

text \<open>A running server owns its socket and has a thread to join; one that is not running has neither.\<close>

definition owned :: "('s \<Rightarrow> bool) \<Rightarrow> ('s \<Rightarrow> nat) \<Rightarrow> 's \<Rightarrow> nat set" where
  "owned running sock s = (if running s then {sock s} else {})"

definition server_ok :: "('s \<Rightarrow> bool) \<Rightarrow> ('s \<Rightarrow> nat) \<Rightarrow> ('s \<Rightarrow> thread_state) \<Rightarrow> 's \<Rightarrow> nat list \<Rightarrow> bool" where
  "server_ok running sock worker s fds \<longleftrightarrow>
     (if running s then sock s \<in> set fds \<and> worker s \<noteq> No_thread else sock s = 0 \<and> worker s = No_thread)"

definition handles_ok :: "nat list \<Rightarrow> bool" where
  "handles_ok fds \<longleftrightarrow> distinct fds \<and> 0 \<notin> set fds"

definition client_fresh :: "client option \<Rightarrow> nat list \<Rightarrow> bool" where
  "client_fresh got fds \<longleftrightarrow> (case got of None \<Rightarrow> True | Some c \<Rightarrow> fresh_handle (client_handle c) fds)"

definition pending_fresh :: "client option option \<Rightarrow> nat list \<Rightarrow> bool" where
  "pending_fresh pending fds \<longleftrightarrow> (case pending of None \<Rightarrow> True | Some got \<Rightarrow> client_fresh got fds)"

locale tcp_server =
  fixes running :: "'s \<Rightarrow> bool" and sock :: "'s \<Rightarrow> nat" and worker :: "'s \<Rightarrow> thread_state"
    and start :: "net_os \<Rightarrow> 's \<times> nat list \<Rightarrow> (bool \<times> 's \<times> nat list) call"
    and turn :: "client option \<Rightarrow> 's \<times> nat list \<Rightarrow> 's \<times> nat list"
    and stop :: "client option option \<Rightarrow> 's \<times> nat list \<Rightarrow> ('s \<times> nat list) call"
  assumes start_running: "running s \<Longrightarrow> start os (s, fds) = Returns (False, s, fds)"
    and start_idle: "\<not> running s \<Longrightarrow> worker s = No_thread \<Longrightarrow>
      (\<exists>fds'. start os (s, fds) = Returns (False, s, fds') \<and> (sockets_fresh os fds \<longrightarrow> fds' = fds)) \<or>
      (\<exists>s' h. os_socket os fds = Some h \<and> start os (s, fds) = Returns (True, s', h # fds) \<and>
         running s' \<and> sock s' = h \<and> worker s' = Accepting)"
    and turn_dead: "worker s \<noteq> Accepting \<Longrightarrow> turn got (s, fds) = (s, fds)"
    and turn_frame: "running s \<Longrightarrow> worker s = Accepting \<Longrightarrow> client_fresh got fds \<Longrightarrow> turn got (s, fds) = (s', fds') \<Longrightarrow>
      running s' \<and> sock s' = sock s \<and> worker s' = (if got = None then Loop_ended else Accepting) \<and>
      (fds' = fds \<or> (\<exists>c. got = Some c \<and> fds' = client_handle c # fds))"
    and turn_failed: "running s \<Longrightarrow> turn None (s, fds) = (s', fds') \<Longrightarrow> fds' = fds"
    and stop_idle: "\<not> running s \<Longrightarrow> stop pending (s, fds) = Returns (s, fds)"
    and stop_blocks: "stop pending (s, fds) = Blocks \<longleftrightarrow> running s \<and> worker s = Accepting \<and> pending = None"
    and stop_frame: "running s \<Longrightarrow> sock s \<noteq> 0 \<Longrightarrow> pending_fresh pending fds \<Longrightarrow> stop pending (s, fds) = Returns (s', fds') \<Longrightarrow>
      \<not> running s' \<and> sock s' = 0 \<and> worker s' = No_thread \<and>
      (fds' = remove1 (sock s) fds \<or>
        (\<exists>c. pending = Some (Some c) \<and> fds' = client_handle c # remove1 (sock s) fds))"
    and stop_returns: "stop pending (s, fds) \<noteq> Terminates"
begin

abbreviation ok :: "'s \<Rightarrow> nat list \<Rightarrow> bool" where
  "ok s fds \<equiv> handles_ok fds \<and> server_ok running sock worker s fds"

text \<open>Each operation keeps the contract, and takes from or gives to the descriptors only its own.\<close>

lemma start_keeps:
  assumes "ok s fds" "sockets_fresh os fds"
  shows "\<exists>b s' fds'. start os (s, fds) = Returns (b, s', fds') \<and> ok s' fds' \<and> set fds \<subseteq> set fds' \<and>
    set fds' - owned running sock s' = set fds - owned running sock s"
proof (cases "running s")
  case True
  then show ?thesis using assms start_running by auto
next
  case False
  with assms start_idle [of s os fds] show ?thesis
    by (fastforce simp: server_ok_def handles_ok_def owned_def sockets_fresh_def fresh_handle_def)
qed

lemma turn_keeps:
  assumes "ok s fds" "client_fresh got fds" "turn got (s, fds) = (s', fds')"
  shows "ok s' fds' \<and> set fds \<subseteq> set fds' \<and> owned running sock s' = owned running sock s"
proof (cases "worker s = Accepting")
  case True
  with assms show ?thesis using turn_frame [of s got fds s' fds']
    by (cases got) (auto simp: server_ok_def handles_ok_def owned_def client_fresh_def fresh_handle_def split: if_splits)
next
  case False
  with assms turn_dead show ?thesis by simp
qed

lemma stop_keeps:
  assumes "ok s fds" "pending_fresh pending fds" "stop pending (s, fds) = Returns (s', fds')"
  shows "ok s' fds' \<and> \<not> running s' \<and> set fds - owned running sock s \<subseteq> set fds'"
proof (cases "running s")
  case True
  with assms(1) have h: "sock s \<noteq> 0" "sock s \<in> set fds"
    by (metis server_ok_def handles_ok_def)+
  from stop_frame [OF True h(1) assms(2,3)] assms(1,2) True show ?thesis
    by (auto simp: server_ok_def handles_ok_def owned_def pending_fresh_def client_fresh_def fresh_handle_def)
next
  case False
  with assms stop_idle show ?thesis by (auto simp: owned_def)
qed

text \<open>So descriptors of others, \<open>B\<close>, stay open and stay theirs.\<close>

lemma others_kept:
  assumes "ok s fds" "B \<subseteq> set fds" "B \<inter> owned running sock s = {}"
  shows "sockets_fresh os fds \<Longrightarrow> start os (s, fds) = Returns (b, s', fds') \<Longrightarrow>
      ok s' fds' \<and> B \<subseteq> set fds' \<and> B \<inter> owned running sock s' = {}"
    and "client_fresh got fds \<Longrightarrow> turn got (s, fds) = (s', fds') \<Longrightarrow>
      ok s' fds' \<and> B \<subseteq> set fds' \<and> B \<inter> owned running sock s' = {}"
    and "pending_fresh pending fds \<Longrightarrow> stop pending (s, fds) = Returns (s', fds') \<Longrightarrow>
      ok s' fds' \<and> B \<subseteq> set fds' \<and> B \<inter> owned running sock s' = {}"
proof -
  show "ok s' fds' \<and> B \<subseteq> set fds' \<and> B \<inter> owned running sock s' = {}"
    if step: "sockets_fresh os fds" "start os (s, fds) = Returns (b, s', fds')"
  proof -
    have kept: "ok s' fds'" "set fds \<subseteq> set fds'" "set fds' - owned running sock s' = set fds - owned running sock s"
      using start_keeps [OF assms(1) step(1)] step(2) by auto
    then show ?thesis using assms(2,3) by blast
  qed
  show "ok s' fds' \<and> B \<subseteq> set fds' \<and> B \<inter> owned running sock s' = {}"
    if "client_fresh got fds" "turn got (s, fds) = (s', fds')"
    using turn_keeps [OF assms(1) that] assms(2,3) by (metis order_trans)
  show "ok s' fds' \<and> B \<subseteq> set fds' \<and> B \<inter> owned running sock s' = {}"
    if "pending_fresh pending fds" "stop pending (s, fds) = Returns (s', fds')"
    using stop_keeps [OF assms(1) that] assms(2,3) by (auto simp: owned_def)
qed

text \<open>A server that was started and is stopped before a client came gives back what it took.\<close>

lemma start_stop:
  assumes "ok s fds" "sockets_fresh os fds" "start os (s, fds) = Returns (True, s', fds')"
  shows "\<exists>s''. stop (Some None) (s', fds') = Returns (s'', fds) \<and> \<not> running s''"
proof -
  have idle: "\<not> running s" "worker s = No_thread" using assms(1,3) start_running [of s os fds] by (auto simp: server_ok_def split: if_splits)
  with assms start_idle [OF idle, of os fds] obtain h where
    h: "os_socket os fds = Some h" "fds' = h # fds" "running s'" "sock s' = h" "worker s' = Accepting" by auto
  have "h \<noteq> 0" using h(1) assms(2) by (simp add: sockets_fresh_def fresh_handle_def)
  moreover obtain s'' fds'' where st: "stop (Some None) (s', fds') = Returns (s'', fds'')"
    using stop_returns stop_blocks by (cases "stop (Some None) (s', fds')") auto
  ultimately show ?thesis using stop_frame [OF h(3) _ _ st] h by (simp add: pending_fresh_def client_fresh_def)
qed

text \<open>After a failed \<^verbatim>\<open>accept\<close> a server is deaf: it still runs, so it cannot be started, and no client is served.\<close>

lemma failed_accept_deafens:
  assumes "running s" "worker s = Accepting" "turn None (s, fds) = (s', fds')"
  shows "running s' \<and> fds' = fds \<and> fold turn gots (s', fds) = (s', fds) \<and> start os (s', fds) = Returns (False, s', fds)"
proof -
  have dead: "running s'" "worker s' = Loop_ended"
    using turn_frame [OF assms(1,2) _ assms(3)] by (simp_all add: client_fresh_def)
  moreover have "fold turn gots (s', fds) = (s', fds)"
    by (induction gots) (simp_all add: turn_dead dead(2))
  ultimately show ?thesis using turn_failed [OF assms(1,3)] start_running by simp
qed

end

section \<open>Both servers keep the contract\<close>

lemma accept_connection_frame [simp]:
  "listening (snd (accept_connection now ip h sk n)) = listening n"
  "listen_socket (snd (accept_connection now ip h sk n)) = listen_socket n"
  "listener_thread (snd (accept_connection now ip h sk n)) = listener_thread n"
  by (simp_all add: accept_connection_def add_peer_def Let_def)

lemma p2p_accepted_cases:
  "p2p_accepted now got (n, fds) =
     (if got = None then (n\<lparr>listener_thread := Loop_ended\<rparr>, fds)
      else (snd (accept_connection now (client_ip (the got)) (client_handle (the got)) (client_socket (the got)) n),
            if client_handle (the got) = 0 \<and> is_banned (client_ip (the got)) n then 0 # fds else fds))"
  by (cases got) (auto simp: p2p_accepted_def accept_connection_def close_socket_def Let_def)

interpretation p2p: tcp_server listening listen_socket listener_thread start_listening "listener_turn now" "p2p_stop now"
  for now
proof
  fix s :: mermai_p2p_node and os fds
  assume "\<not> listening s" "listener_thread s = No_thread"
  then show "(\<exists>fds'. start_listening os (s, fds) = Returns (False, s, fds') \<and> (sockets_fresh os fds \<longrightarrow> fds' = fds)) \<or>
      (\<exists>s' h. os_socket os fds = Some h \<and> start_listening os (s, fds) = Returns (True, s', h # fds) \<and>
         listening s' \<and> listen_socket s' = h \<and> listener_thread s' = Accepting)"
    by (auto simp: start_listening_def sockets_fresh_def fresh_handle_def close_socket_def split: option.split)
qed (auto simp: start_listening_def listener_turn_def p2p_accepted_cases p2p_stop_def close_socket_def client_fresh_def
    pending_fresh_def fresh_handle_def Let_def split: if_splits thread_state.splits option.splits)

interpretation rpc: tcp_server server_running server_socket server_thread start_server server_turn stop_server
proof
  fix s :: mermai_rpc_server and os fds
  assume "\<not> server_running s" "server_thread s = No_thread"
  then show "(\<exists>fds'. start_server os (s, fds) = Returns (False, s, fds') \<and> (sockets_fresh os fds \<longrightarrow> fds' = fds)) \<or>
      (\<exists>s' h. os_socket os fds = Some h \<and> start_server os (s, fds) = Returns (True, s', h # fds) \<and>
         server_running s' \<and> server_socket s' = h \<and> server_thread s' = Accepting)"
    by (auto simp: start_server_def sockets_fresh_def fresh_handle_def split: option.split)
qed (auto simp: start_server_def server_turn_def rpc_accepted_def stop_server_def client_fresh_def
    pending_fresh_def fresh_handle_def Let_def split: if_splits thread_state.splits option.splits)

section \<open>The life of the two servers\<close>

text \<open>The servers of one process share its descriptors. Starting, accepting, serving and stopping come in any order;
  the descriptors the system hands out are fresh, and a connection thread has the descriptor of its client.\<close>

type_synonym servers = "mermai_p2p_node \<times> mermai_rpc_server \<times> nat list"

inductive server_step :: "'k openssl \<Rightarrow> machine \<Rightarrow> servers \<Rightarrow> servers \<Rightarrow> bool" for ossl m where
  p2p_starts: "sockets_fresh os fds \<Longrightarrow> start_listening os (n, fds) = Returns (b, n', fds') \<Longrightarrow>
    server_step ossl m (n, r, fds) (n', r, fds')"
| p2p_accepts: "client_fresh got fds \<Longrightarrow> listener_turn now got (n, fds) = (n', fds') \<Longrightarrow>
    server_step ossl m (n, r, fds) (n', r, fds')"
| p2p_stops: "pending_fresh pending fds \<Longrightarrow> p2p_stop now pending (n, fds) = Returns (n', fds') \<Longrightarrow>
    server_step ossl m (n, r, fds) (n', r, fds')"
| rpc_starts: "sockets_fresh os fds \<Longrightarrow> start_server os (r, fds) = Returns (b, r', fds') \<Longrightarrow>
    server_step ossl m (n, r, fds) (n, r', fds')"
| rpc_accepts: "client_fresh got fds \<Longrightarrow> server_turn got (r, fds) = (r', fds') \<Longrightarrow>
    server_step ossl m (n, r, fds) (n, r', fds')"
| rpc_serves: "h \<noteq> listen_socket n \<Longrightarrow> h \<noteq> server_socket r \<Longrightarrow>
    client_thread ossl m now junk received h (w, fds) = Returns (reply, w', fds') \<Longrightarrow>
    server_step ossl m (n, r, fds) (n, r, fds')"
| rpc_stops: "pending_fresh pending fds \<Longrightarrow> stop_server pending (r, fds) = Returns (r', fds') \<Longrightarrow>
    server_step ossl m (n, r, fds) (n, r', fds')"

definition servers_start :: "servers \<Rightarrow> bool" where
  "servers_start s \<longleftrightarrow> (\<exists>now p2p_port rpc_port. s = (new_node now p2p_port, new_rpc_server rpc_port, []))"

definition servers_ok :: "servers \<Rightarrow> bool" where
  "servers_ok s \<longleftrightarrow>
     (case s of (n, r, fds) \<Rightarrow>
        distinct fds \<and> 0 \<notin> set fds \<and>
        (if listening n then listen_socket n \<in> set fds \<and> listener_thread n \<noteq> No_thread
         else listen_socket n = 0 \<and> listener_thread n = No_thread) \<and>
        (if server_running r then server_socket r \<in> set fds \<and> server_thread r \<noteq> No_thread
         else server_socket r = 0 \<and> server_thread r = No_thread) \<and>
        (listening n \<and> server_running r \<longrightarrow> listen_socket n \<noteq> server_socket r))"

abbreviation p2p_ok :: "mermai_p2p_node \<Rightarrow> nat list \<Rightarrow> bool" where
  "p2p_ok \<equiv> server_ok listening listen_socket listener_thread"

abbreviation rpc_ok :: "mermai_rpc_server \<Rightarrow> nat list \<Rightarrow> bool" where
  "rpc_ok \<equiv> server_ok server_running server_socket server_thread"

abbreviation p2p_owned :: "mermai_p2p_node \<Rightarrow> nat set" where
  "p2p_owned \<equiv> owned listening listen_socket"

abbreviation rpc_owned :: "mermai_rpc_server \<Rightarrow> nat set" where
  "rpc_owned \<equiv> owned server_running server_socket"

lemma servers_ok_split:
  "servers_ok (n, r, fds) \<longleftrightarrow>
     handles_ok fds \<and> p2p_ok n fds \<and> rpc_ok r fds \<and> p2p_owned n \<inter> rpc_owned r = {}"
  by (auto simp: servers_ok_def handles_ok_def server_ok_def owned_def)

text \<open>An operation of one server that keeps the descriptor of the other keeps the contract of both.\<close>

lemma server_ok_frame:
  assumes "server_ok running sock worker s fds" "owned running sock s \<subseteq> set fds'"
  shows "server_ok running sock worker s fds'"
  using assms by (auto simp: server_ok_def owned_def split: if_splits)

lemma server_ok_owned: "server_ok running sock worker s fds \<Longrightarrow> owned running sock s \<subseteq> set fds"
  by (auto simp: server_ok_def owned_def split: if_splits)

lemma servers_okD:
  assumes "servers_ok (n, r, fds)"
  shows "handles_ok fds \<and> p2p_ok n fds" "handles_ok fds \<and> rpc_ok r fds" "rpc_owned r \<inter> p2p_owned n = {}"
    "p2p_owned n \<inter> rpc_owned r = {}" "p2p_owned n \<subseteq> set fds" "rpc_owned r \<subseteq> set fds"
  using assms unfolding servers_ok_split by (auto dest: server_ok_owned)

lemma servers_okI:
  assumes "servers_ok (n, r, fds)"
  shows "handles_ok fds' \<and> p2p_ok n' fds' \<Longrightarrow> rpc_owned r \<subseteq> set fds' \<Longrightarrow> rpc_owned r \<inter> p2p_owned n' = {} \<Longrightarrow> servers_ok (n', r, fds')"
    and "handles_ok fds' \<and> rpc_ok r' fds' \<Longrightarrow> p2p_owned n \<subseteq> set fds' \<Longrightarrow> p2p_owned n \<inter> rpc_owned r' = {} \<Longrightarrow> servers_ok (n, r', fds')"
  using assms unfolding servers_ok_split by (blast intro: server_ok_frame)+

lemma client_thread_frame:
  assumes "servers_ok (n, r, fds)" "h \<noteq> listen_socket n" "h \<noteq> server_socket r"
    "client_thread ossl m now junk received h (w, fds) = Returns (reply, w', fds')"
  shows "servers_ok (n, r, fds')"
proof -
  have "fds' = (if received = [] then fds else remove1 h fds)"
    using assms(4) by (auto simp: client_thread_def split: rpc_outcome.splits)
  with assms(1-3) show ?thesis by (simp add: servers_ok_def)
qed

lemma server_step_ok: "server_step ossl m s t \<Longrightarrow> servers_ok s \<Longrightarrow> servers_ok t"
proof (induction rule: server_step.induct)
  case (p2p_starts os fds n b n' fds' r)
  note ok = servers_okD [OF p2p_starts(3)]
  show ?case using p2p.others_kept(1) [OF ok(1,6,3) p2p_starts(1,2)] by (intro servers_okI(1) [OF p2p_starts(3)]) blast+
next
  case (p2p_accepts got fds now n n' fds' r)
  note ok = servers_okD [OF p2p_accepts(3)]
  show ?case using p2p.others_kept(2) [OF ok(1,6,3) p2p_accepts(1,2)] by (intro servers_okI(1) [OF p2p_accepts(3)]) blast+
next
  case (p2p_stops pending fds now n n' fds' r)
  note ok = servers_okD [OF p2p_stops(3)]
  show ?case using p2p.others_kept(3) [OF ok(1,6,3) p2p_stops(1,2)] by (intro servers_okI(1) [OF p2p_stops(3)]) blast+
next
  case (rpc_starts os fds r b r' fds' n)
  note ok = servers_okD [OF rpc_starts(3)]
  show ?case using rpc.others_kept(1) [OF ok(2,5,4) rpc_starts(1,2)] by (intro servers_okI(2) [OF rpc_starts(3)]) blast+
next
  case (rpc_accepts got fds r r' fds' n)
  note ok = servers_okD [OF rpc_accepts(3)]
  show ?case using rpc.others_kept(2) [OF ok(2,5,4) rpc_accepts(1,2)] by (intro servers_okI(2) [OF rpc_accepts(3)]) blast+
next
  case (rpc_serves h n r now junk received w fds reply w' fds')
  then show ?case by (rule client_thread_frame [rotated])
next
  case (rpc_stops pending fds r r' fds' n)
  note ok = servers_okD [OF rpc_stops(3)]
  show ?case using rpc.others_kept(3) [OF ok(2,5,4) rpc_stops(1,2)] by (intro servers_okI(2) [OF rpc_stops(3)]) blast+
qed

interpretation servers: safe_system servers_start "server_step ossl m" servers_ok for ossl m
proof
  show "servers_ok s" if "servers_start s" for s
    using that by (auto simp: servers_start_def servers_ok_def new_node_def new_rpc_server_def)
qed (blast intro: server_step_ok)

section \<open>Properties\<close>

text \<open>C29: The life of the servers is sound. In whatever order the two servers of a node are started, accept, serve,
  fail and are stopped, a server that runs holds an open socket of its own and a thread to join, one that does not run
  holds neither, no descriptor is held twice; so starting a server never ends the process by overwriting a thread that
  was not joined, and a server that runs is never started twice.\<close>

theorem server_lifecycle:
  assumes "reach servers_start (server_step ossl m) (n, r, fds)" "sockets_fresh os fds"
  shows "servers_ok (n, r, fds) \<and>
    (\<exists>b n' fds'. start_listening os (n, fds) = Returns (b, n', fds') \<and> (b \<longrightarrow> \<not> listening n \<and> listening n')) \<and>
    (\<exists>b r' fds'. start_server os (r, fds) = Returns (b, r', fds') \<and> (b \<longrightarrow> \<not> server_running r \<and> server_running r'))"
proof -
  have ok: "servers_ok (n, r, fds)" by (rule servers.reach_inv [OF assms(1)])
  note both = servers_okD [OF this]
  have "\<exists>b n' fds'. start_listening os (n, fds) = Returns (b, n', fds') \<and> (b \<longrightarrow> \<not> listening n \<and> listening n')"
    using p2p.start_running [of n os fds] p2p.start_idle [of n os fds] both(1)
    by (cases "listening n") (auto simp: server_ok_def)
  moreover have "\<exists>b r' fds'. start_server os (r, fds) = Returns (b, r', fds') \<and> (b \<longrightarrow> \<not> server_running r \<and> server_running r')"
    using rpc.start_running [of r os fds] rpc.start_idle [of r os fds] both(2)
    by (cases "server_running r") (auto simp: server_ok_def)
  ultimately show ?thesis using ok by blast
qed

theorem server_lifecycle_witness: "servers_ok ((new_node 0 6333)\<lparr>listen_socket := 3, listening := True, listener_thread := Accepting\<rparr>,
    new_rpc_server 6334, [3])"
proof -
  let ?os = "\<lparr>os_socket = (\<lambda>fds. Some (3 + length fds)), os_bind = (\<lambda>fds p. True), os_listen = (\<lambda>fds p. True)\<rparr>"
  let ?n = "(new_node 0 6333)\<lparr>listen_socket := 3, listening := True, listener_thread := Accepting\<rparr>"
  have "reach servers_start (server_step toy_ossl demo_machine) (new_node 0 6333, new_rpc_server 6334, [])"
    by (rule reach_start) (auto simp: servers_start_def)
  moreover have "server_step toy_ossl demo_machine (new_node 0 6333, new_rpc_server 6334, []) (?n, new_rpc_server 6334, [3])"
    by (rule p2p_starts [where os = ?os and b = True]) (simp_all add: sockets_fresh_def fresh_handle_def start_listening_def new_node_def)
  ultimately have "reach servers_start (server_step toy_ossl demo_machine) (?n, new_rpc_server 6334, [3])" by (rule reach_step)
  then show ?thesis using server_lifecycle [where os = ?os] by (fastforce simp: sockets_fresh_def fresh_handle_def)
qed

text \<open>One failed \<^verbatim>\<open>accept\<close> makes a server deaf for good. The loop leaves on the first error of \<^verbatim>\<open>accept\<close> (running out
  of descriptors, a client that gave up), but the server counts as running: no later client is accepted, and starting
  it again is refused; only a stop, which returns at once as the thread has ended, makes it possible to start it anew.\<close>

theorem failed_accept_deafens_servers:
  assumes "listening n" "listener_thread n = Accepting" "server_running r" "server_thread r = Accepting"
  shows "\<exists>n' r'. listener_turn now None (n, fds) = (n', fds) \<and> server_turn None (r, fds) = (r', fds) \<and>
    listening n' \<and> server_running r' \<and>
    (\<forall>clients. fold (listener_turn now) clients (n', fds) = (n', fds) \<and> fold server_turn clients (r', fds) = (r', fds)) \<and>
    (\<forall>os. start_listening os (n', fds) = Returns (False, n', fds) \<and> start_server os (r', fds) = Returns (False, r', fds)) \<and>
    p2p_stop now None (n', fds) = Returns (n\<lparr>listening := False, listen_socket := 0, listener_thread := No_thread\<rparr>,
      close_socket (listen_socket n) fds) \<and>
    stop_server None (r', fds) = Returns (r\<lparr>server_running := False, server_socket := 0, server_thread := No_thread\<rparr>,
      close_socket (server_socket r) fds)"
proof -
  let ?n = "n\<lparr>listener_thread := Loop_ended\<rparr>" and ?r = "r\<lparr>server_thread := Loop_ended\<rparr>"
  have turns: "listener_turn now None (n, fds) = (?n, fds)" "server_turn None (r, fds) = (?r, fds)"
    using assms by (simp_all add: listener_turn_def p2p_accepted_def server_turn_def rpc_accepted_def)
  have "p2p_stop now None (?n, fds) = Returns (n\<lparr>listening := False, listen_socket := 0, listener_thread := No_thread\<rparr>,
      close_socket (listen_socket n) fds)"
    using assms by (cases n) (simp add: p2p_stop_def)
  moreover have "stop_server None (?r, fds) = Returns (r\<lparr>server_running := False, server_socket := 0, server_thread := No_thread\<rparr>,
      close_socket (server_socket r) fds)"
    using assms by (cases r) (simp add: stop_server_def close_socket_def)
  ultimately show ?thesis
    using turns p2p.failed_accept_deafens [OF assms(1,2) turns(1)] rpc.failed_accept_deafens [OF assms(3,4) turns(2)] by blast
qed

definition deaf_node :: mermai_p2p_node where
  "deaf_node = (new_node 0 6333)\<lparr>listen_socket := 3, listening := True, listener_thread := Accepting\<rparr>"

definition deaf_server :: mermai_rpc_server where
  "deaf_server = (new_rpc_server 6334)\<lparr>server_socket := 4, server_running := True, server_thread := Accepting\<rparr>"

theorem failed_accept_deafens_servers_witness:
  "\<exists>n' r'. listener_turn 0 None (deaf_node, [4, 3]) = (n', [4, 3]) \<and> server_turn None (deaf_server, [4, 3]) = (r', [4, 3]) \<and>
    (\<forall>clients. fold (listener_turn 0) clients (n', [4, 3]) = (n', [4, 3])) \<and> stop_server None (r', [4, 3]) = Returns (new_rpc_server 6334, [3])"
proof -
  have "listening deaf_node" "listener_thread deaf_node = Accepting" "server_running deaf_server" "server_thread deaf_server = Accepting"
    by (simp_all add: deaf_node_def deaf_server_def)
  from failed_accept_deafens_servers [OF this, of 0 "[4, 3]"] show ?thesis
    by (auto simp: deaf_server_def new_rpc_server_def close_socket_def)
qed

text \<open>A client that connects and sends nothing keeps its descriptor for ever; one that sends anything has it closed.\<close>

lemma silent_client_leaks:
  assumes "server_running r" "server_thread r = Accepting" "fresh_handle (client_handle c) fds"
  shows "server_turn (Some c) (r, fds) = (r, client_handle c # fds)"
    "client_thread ossl m now junk [] (client_handle c) (w, client_handle c # fds) = Returns ([], w, client_handle c # fds)"
    "received \<noteq> [] \<Longrightarrow> client_thread ossl m now junk received (client_handle c) (w, client_handle c # fds) = Returns (text, w', fds') \<Longrightarrow> fds' = fds"
  using assms
  by (auto simp: server_turn_def rpc_accepted_def client_thread_def serve_client_def split: rpc_outcome.splits)

end
