(* ===== verification/Mermai_Backup.thy ===== *)
theory Mermai_Backup
  imports Mermai_DB
begin

text \<open>
  The file of the database (\<^verbatim>\<open>src/src/db/mermai_db.cpp\<close>): the copy that \<^verbatim>\<open>backup\<close> makes, the size of the
  file, and what closing the connection leaves in it. A file is its schema and its tables; a path with no
  database is the empty file. SQLite documents that a backup step fails with \<^verbatim>\<open>SQLITE_LOCKED\<close> while the
  source connection is in a write transaction (every \<^verbatim>\<open>BEGIN\<close> of the program is \<^verbatim>\<open>BEGIN IMMEDIATE\<close>), that
  finishing an incomplete backup rolls the target back, and that closing a connection rolls its open
  transaction back; the other failures are the record \<open>backup_env\<close>.
\<close>

section \<open>Operations\<close>

type_synonym db_content = "string list \<times> db_tables"

record backup_env =
  target_opens :: bool
  backup_inits :: bool
  backup_steps :: bool

definition backup :: "backup_env \<Rightarrow> string \<Rightarrow> mermai_db \<Rightarrow> (string \<Rightarrow> db_content) \<Rightarrow> string \<Rightarrow> db_content" where
  "backup env backup_path db files =
     (if \<not> db_connection db then files
      else if \<not> target_opens env then files
      else if \<not> backup_inits env then files
      else if backup_steps env \<and> saved db = None then files(c_str backup_path := (schema db, tables db))
      else files)"

definition get_db_size :: "(string \<Rightarrow> nat option) \<Rightarrow> string \<Rightarrow> u64" where
  "get_db_size file_size db_path = (case file_size db_path of None \<Rightarrow> 0 | Some n \<Rightarrow> of_nat n)"

text \<open>The destructor. A connection that was never opened leaves the file as it was.\<close>

definition close_db :: "mermai_db \<Rightarrow> db_content" where
  "close_db db = (if db_connection db then (schema db, durable db) else (schema db, tables db))"

definition open_db :: "bool \<Rightarrow> sqlite_fault list \<Rightarrow> db_content \<Rightarrow> bool \<times> mermai_db" where
  "open_db opened fs content = db_initialize opened (new_db (fst content) (snd content) fs)"

section \<open>Opening a file again\<close>

definition all_tables :: "string list" where
  "all_tables = [''blocks'', ''transactions'', ''utxos'', ''accounts'', ''validators'', ''contract_storage'',
     ''contracts'', ''mempool'', ''state_roots'']"

definition schema_complete :: "('t, 'x) connection_scheme \<Rightarrow> bool" where
  "schema_complete db \<longleftrightarrow> list_all (\<lambda>n. n \<in> set (schema db)) (''validators.public_key'' # all_tables)"

text \<open>A statement that succeeds adds its tables to the schema and drops none.\<close>

definition adds_tables :: "string list \<Rightarrow> (mermai_db \<Rightarrow> bool \<times> mermai_db) \<Rightarrow> bool" where
  "adds_tables names f \<longleftrightarrow>
     (\<forall>db db'. f db = (True, db') \<longrightarrow> set names \<union> set (schema db) \<subseteq> set (schema db'))"

lemma run_schema: "schema (snd (run needs f db)) = schema db"
  by (simp add: run_def roll_back_def Let_def split: option.split)

lemma update_schema [simp]: "schema (snd (update needs u db)) = schema db"
  by (simp add: update_def run_schema case_prod_beta)

lemma adds_update [intro]: "adds_tables [] (update needs u)"
  by (simp add: adds_tables_def) (metis snd_conv subset_refl update_schema)

lemma adds_create_table [intro]: "adds_tables [name] (create_table (name # names))"
proof -
  have "set [name] \<union> set (schema db) \<subseteq> set (schema db')" if created: "create_table (name # names) db = (True, db')" for db db'
  proof -
    obtain db1 where "update [] (\<lambda>t. t) db = (True, db1)"
        "db' = (if name \<notin> set (schema db1) then db1\<lparr>schema := schema db1 @ name # names\<rparr> else db1)"
      using created by (cases "update [] (\<lambda>t. t) db") (simp add: create_table_def split: if_splits)
    with update_schema [of "[]" "\<lambda>t. t" db] show ?thesis by (auto split: if_splits)
  qed
  then show ?thesis unfolding adds_tables_def by blast
qed

lemma exec_all_schema:
  assumes "list_all2 adds_tables nss fs" "exec_all fs db = (True, db')"
  shows "set (concat nss) \<union> set (schema db) \<subseteq> set (schema db')"
  using assms
proof (induction arbitrary: db rule: list_all2_induct)
  case (Cons ns nss f fs)
  obtain db1 where f: "f db = (True, db1)" "exec_all fs db1 = (True, db')"
    using Cons.prems by (cases "f db") (simp split: if_splits)
  have "set ns \<union> set (schema db) \<subseteq> set (schema db1)" using Cons.hyps(1) f(1) unfolding adds_tables_def by blast
  with Cons.IH [OF f(2)] show ?case by (simp add: subset_iff)
qed simp

lemma schema_statements_add:
  "list_all2 adds_tables
     [[], [''blocks''], [''transactions''], [''utxos''], [], [''accounts''], [''validators''], [''contract_storage''],
      [''contracts''], [''mempool''], [''state_roots'']] schema_statements"
  unfolding schema_statements_def by (auto simp: adds_create_table)

lemma has_column_found: "has_column name db = (True, db') \<Longrightarrow> name \<in> set (schema db) \<and> schema db' = schema db"
  unfolding has_column_def query_def
  by (auto simp: case_prod_beta run_schema) (auto simp: run_def done_or_def Let_def split: if_splits)

lemma has_column_schema: "schema (snd (has_column name db)) = schema db"
  by (simp add: has_column_def query_def case_prod_beta run_schema)

lemma add_public_key_column_found:
  "add_public_key_column db = (True, db') \<Longrightarrow>
     ''validators.public_key'' \<in> set (schema db') \<and> set (schema db) \<subseteq> set (schema db')"
  unfolding add_public_key_column_def by (auto simp: case_prod_beta)

text \<open>A database that was initialized has every table.\<close>

lemma db_initialize_complete:
  assumes "db_initialize opened db = (True, db')"
  shows "schema_complete db'"
proof -
  obtain db2 found db3 where step: "opened" "exec_all schema_statements (db\<lparr>db_connection := opened\<rparr>) = (True, db2)"
      "has_column ''validators.public_key'' db2 = (found, db3)"
      "(if found then (True, db3) else add_public_key_column db3) = (True, db')"
    using assms by (auto simp: db_initialize_def Let_def split: prod.splits if_splits)
  have tabs: "set all_tables \<subseteq> set (schema db2)"
    using exec_all_schema [OF schema_statements_add step(2)] by (auto simp: all_tables_def)
  have same: "schema db3 = schema db2" using has_column_schema [of _ db2] step(3) by (metis snd_conv)
  have "''validators.public_key'' \<in> set (schema db') \<and> set (schema db3) \<subseteq> set (schema db')"
    using step(3,4) has_column_found add_public_key_column_found [of db3 db'] same by (cases found) auto
  then show ?thesis using tabs same by (auto simp: schema_complete_def list_all_iff)
qed

text \<open>On a complete schema, when no statement fails, initializing changes nothing.\<close>

lemma update_nothing [simp]:
  assumes "faults db = []" "list_all (\<lambda>n. n \<in> set (schema db)) needs"
  shows "update needs (\<lambda>t. t) db = (True, db)"
  using assms by (cases db) (simp add: update_def run_def next_fault_def)

lemma create_existing [simp]:
  "faults db = [] \<Longrightarrow> name \<in> set (schema db) \<Longrightarrow> create_table (name # names) db = (True, db)"
  by (simp add: create_table_def)

lemma has_column_existing [simp]:
  "faults db = [] \<Longrightarrow> name \<in> set (schema db) \<Longrightarrow> has_column name db = (True, db)"
  by (cases db) (simp add: has_column_def query_def run_def next_fault_def done_or_def)

lemma db_initialize_again:
  assumes "schema_complete db" "faults db = []"
  shows "db_initialize True db = (True, db\<lparr>db_connection := True\<rparr>)"
proof -
  have "exec_all schema_statements (db\<lparr>db_connection := True\<rparr>) = (True, db\<lparr>db_connection := True\<rparr>)"
    using assms by (simp add: schema_statements_def schema_complete_def all_tables_def)
  then show ?thesis using assms by (simp add: db_initialize_def schema_complete_def)
qed

lemma open_complete:
  assumes "schema_complete db" "db_connection db"
  shows "open_db True [] (schema db, t) = (True, db\<lparr>tables := t, saved := None, faults := []\<rparr>)"
proof -
  have "schema_complete (new_db (schema db) t [])" using assms(1) by (simp add: schema_complete_def new_db_def)
  then show ?thesis using assms(2) db_initialize_again [of "new_db (schema db) t []"]
    by (cases db) (simp add: open_db_def new_db_def)
qed

section \<open>Restoring a backup, and a restart\<close>

text \<open>C30: The file gives the state back. Take a database that was opened successfully and any state it reached since
  (its tables changed by whatever statements, its connection open). Closing it and opening the file again yields
  exactly the durable state: everything that was committed and nothing of an open transaction. A backup made outside a
  transaction is a file that opens to the same tables, and leaves all other files alone; inside a transaction (the
  state a failed commit of \<^verbatim>\<open>apply_block\<close> leaves behind) no file changes and no error is reported.\<close>

theorem backup_round_trip:
  assumes "db_initialize True db0 = (True, db1)" "schema db = schema db1" "db_connection db"
  shows "open_db True [] (close_db db) = (True, db\<lparr>tables := durable db, saved := None, faults := []\<rparr>) \<and>
    (saved db = None \<and> target_opens env \<and> backup_inits env \<and> backup_steps env \<longrightarrow>
      open_db True [] (backup env path db files (c_str path)) = (True, db\<lparr>faults := []\<rparr>) \<and>
      (\<forall>other. other \<noteq> c_str path \<longrightarrow> backup env path db files other = files other)) \<and>
    (saved db \<noteq> None \<longrightarrow> backup env path db files = files)"
proof -
  have "schema_complete db"
    using db_initialize_complete [OF assms(1)] assms(2) by (simp add: schema_complete_def)
  note reopened = open_complete [OF this assms(3)]
  have "open_db True [] (close_db db) = (True, db\<lparr>tables := durable db, saved := None, faults := []\<rparr>)"
    using reopened assms(3) by (simp add: close_db_def)
  moreover have "saved db = None \<Longrightarrow> db\<lparr>tables := tables db, saved := None, faults := []\<rparr> = db\<lparr>faults := []\<rparr>"
    by (cases db) simp
  ultimately show ?thesis using reopened [of "tables db"] assms(3) by (auto simp: backup_def)
qed

text \<open>A new database with one stored contract, backed up, and with a transaction left open.\<close>

definition backup_demo :: mermai_db where
  "backup_demo = snd (save_contract_code ''mrm1a'' [1, 2] (snd (db_initialize True (new_db [] empty_tables []))))"

theorem backup_round_trip_witness:
  "open_db True [] (backup \<lparr>target_opens = True, backup_inits = True, backup_steps = True\<rparr> ''copy.db'' backup_demo
     (\<lambda>_. ([], empty_tables)) ''copy.db'') = (True, backup_demo\<lparr>faults := []\<rparr>) \<and>
   omap_find (contracts_table (tables backup_demo)) ''mrm1a'' = Some [1, 2] "
proof -
  have db: "db_initialize True (new_db [] empty_tables []) = (True, snd (db_initialize True (new_db [] empty_tables [])))"
      "schema backup_demo = schema (snd (db_initialize True (new_db [] empty_tables [])))" "db_connection backup_demo"
      "saved backup_demo = None" "omap_find (contracts_table (tables backup_demo)) ''mrm1a'' = Some [1, 2]"
      "c_str ''copy.db'' = ''copy.db''"
    by code_simp+
  show ?thesis
    using db backup_round_trip [OF db(1,2,3), of "\<lparr>target_opens = True, backup_inits = True, backup_steps = True\<rparr>"
        "''copy.db''" "\<lambda>_. ([], empty_tables)"] by simp
qed

end
