(* ===== verification/Mermai_Node.thy ===== *)
theory Mermai_Node
  imports Mermai_Server Mermai_Backup
begin

text \<open>
  The node (\<^verbatim>\<open>src/src/mermai_main.cpp\<close>): the command line, starting up from the database, one
  turn of the block production loop and of the synchronisation loop, shutting down and destruction. What
  the operating system contributes (the database file, whether it opens, the sockets, what becomes of a
  pending \<^verbatim>\<open>accept\<close> when its socket is closed, the genesis file) is the record \<open>platform\<close>. The threads of
  the node interleave whole turns and handlers, which is the step relation at the end.
\<close>

section \<open>Command line\<close>

record settings =
  set_p2p_port :: u16
  set_rpc_port :: u16
  set_db_name :: string
  set_genesis :: string

definition default_settings :: settings where
  "default_settings = \<lparr>set_p2p_port = 6333, set_rpc_port = 6334, set_db_name = ''mermai.db'', set_genesis = []\<rparr>"

datatype command =
    Show_help
  | Run_with settings
  | Uncaught cpp_error

definition port_of :: "string \<Rightarrow> u16 result" where
  "port_of v = rbind (stoi v) (\<lambda>i. Inr (word_of_int i))"

function (sequential) parse_args :: "settings \<Rightarrow> string list \<Rightarrow> command" where
  "parse_args st [] = Run_with st"
| "parse_args st (arg # rest) =
     (if arg = ''--p2p-port'' \<and> rest \<noteq> []
      then (case port_of (hd rest) of Inl e \<Rightarrow> Uncaught e | Inr p \<Rightarrow> parse_args (st\<lparr>set_p2p_port := p\<rparr>) (tl rest))
      else if arg = ''--rpc-port'' \<and> rest \<noteq> []
      then (case port_of (hd rest) of Inl e \<Rightarrow> Uncaught e | Inr p \<Rightarrow> parse_args (st\<lparr>set_rpc_port := p\<rparr>) (tl rest))
      else if arg = ''--db'' \<and> rest \<noteq> [] then parse_args (st\<lparr>set_db_name := hd rest\<rparr>) (tl rest)
      else if arg = ''--genesis'' \<and> rest \<noteq> [] then parse_args (st\<lparr>set_genesis := hd rest\<rparr>) (tl rest)
      else if arg = ''--help'' then Show_help
      else parse_args st rest)"
  by pat_completeness auto
termination by (relation "measure (length \<circ> snd)") auto

section \<open>The node\<close>

record MermaiNode =
  mn_state :: node_state
  mn_p2p :: "mermai_p2p_node option"
  mn_rpc :: "mermai_rpc_server option"
  mn_fds :: "nat list"
  mn_settings :: settings
  mn_running :: bool

record platform =
  db_file :: "string \<Rightarrow> string list \<times> db_tables \<times> sqlite_fault list"
  db_opens :: bool
  net :: net_os
  p2p_pending :: "client option option"
  rpc_pending :: "client option option"
  genesis_file :: "string \<Rightarrow> string option"

text \<open>Before \<^verbatim>\<open>initialize\<close> every pointer is null.\<close>

definition new_mermai_node :: "settings \<Rightarrow> MermaiNode" where
  "new_mermai_node st =
     \<lparr>mn_state = \<lparr>ns_chain = None, ns_env = \<lparr>consensus_engine = None, seen_props = []\<rparr>, ns_db = None, ns_quorum = None\<rparr>,
      mn_p2p = None, mn_rpc = None, mn_fds = [], mn_settings = st, mn_running = False\<rparr>"

text \<open>The content of the genesis file is read and not used.\<close>

definition load_genesis :: "platform \<Rightarrow> string \<Rightarrow> bool" where
  "load_genesis pf path \<longleftrightarrow> genesis_file pf path \<noteq> None"

fun restore_all :: "mermai_validator_stake list \<Rightarrow> mermai_time_weighted_pos \<Rightarrow> bool \<times> mermai_time_weighted_pos" where
  "restore_all [] c = (True, c)"
| "restore_all (v # vs) c =
     (case restore_validator v c of (restored, c') \<Rightarrow> if \<not> restored then (False, c') else restore_all vs c')"

text \<open>The persisted blocks at the heights from \<open>h\<close>, \<open>n\<close> of them; \<open>None\<close> where one is missing. (For the stored
  height \<open>2^32 - 1\<close>, with a block at every height, the counter of the loop would wrap around.)\<close>

fun load_blocks :: "u32 \<Rightarrow> nat \<Rightarrow> mermai_db \<Rightarrow> mermai_block list option \<times> mermai_db" where
  "load_blocks h 0 db = (Some [], db)"
| "load_blocks h (Suc n) db =
     (case get_block_by_height h db of
        (None, db') \<Rightarrow> (None, db')
      | (Some b, db') \<Rightarrow>
          (case load_blocks (h + 1) n db' of
             (None, db2) \<Rightarrow> (None, db2)
           | (Some bs, db2) \<Rightarrow> (Some (b # bs), db2)))"

text \<open>The chain, if the database holds blocks: the new genesis block and the persisted blocks.\<close>

definition restore_chain ::
  "'k openssl \<Rightarrow> u64 \<Rightarrow> mermai_db \<Rightarrow> mermai_blockchain \<times> chain_env \<Rightarrow> bool \<times> mermai_db \<times> mermai_blockchain \<times> chain_env" where
  "restore_chain ossl now db s =
     (case get_latest_block_height db of
        (stored, db1) \<Rightarrow>
          if \<not> stored > 0 then (True, db1, s)
          else case load_blocks 1 (unat stored) db1 of
                 (None, db2) \<Rightarrow> (False, db2, s)
               | (Some bs, db2) \<Rightarrow>
                   (case replace_chain_if_longer ossl now (get_block (fst s) 0 # map Some bs) s of
                      (replaced, s') \<Rightarrow> (replaced, db2, s')))"

text \<open>The call of \<^verbatim>\<open>load_genesis\<close> comes before the chain is restored; its result is ignored and it changes
  nothing. \<open>ns_env\<close> holds the validator set, which the node, the chain and the two servers share.\<close>

definition load_state :: "'k openssl \<Rightarrow> u64 \<Rightarrow> platform \<Rightarrow> MermaiNode \<Rightarrow> bool \<times> MermaiNode" where
  "load_state ossl now pf node =
     (let st = mn_settings node; (names, t, fs) = db_file pf (set_db_name st);
          (opened, db1) = db_initialize (db_opens pf) (new_db names t fs);
          objects = (\<lambda>bc env db. node\<lparr>mn_state :=
            \<lparr>ns_chain = Some bc, ns_env = env, ns_db = Some db, ns_quorum = Some new_collector\<rparr>\<rparr>);
          bc = new_blockchain now; env0 = \<lparr>consensus_engine = Some new_pos, seen_props = []\<rparr>
      in if \<not> opened then (False, objects bc env0 db1)
         else let (vs, db2) = get_all_validators db1; (restored, c) = restore_all vs new_pos;
                  env1 = env0\<lparr>consensus_engine := Some c\<rparr>
           in if \<not> restored then (False, objects bc env1 db2)
              else let (ok, db3, bc', env2) = restore_chain ossl now db2 (bc, env1)
                in (ok, objects bc' env2 db3))"

text \<open>The second half of \<^verbatim>\<open>initialize\<close>: the two servers.\<close>

definition start_servers :: "u64 \<Rightarrow> platform \<Rightarrow> MermaiNode \<Rightarrow> (bool \<times> MermaiNode) call" where
  "start_servers now pf node =
     call_bind (start_listening (net pf) (new_node now (set_p2p_port (mn_settings node)), mn_fds node)) (\<lambda>(up, n, fds).
       let node1 = node\<lparr>mn_p2p := Some n, mn_fds := fds\<rparr>
       in if \<not> up then Returns (False, node1)
          else call_bind (start_server (net pf) (new_rpc_server (set_rpc_port (mn_settings node)), fds)) (\<lambda>(up, r, fds).
                 Returns (up, node1\<lparr>mn_rpc := Some r, mn_fds := fds\<rparr>)))"

definition initialize :: "'k openssl \<Rightarrow> u64 \<Rightarrow> platform \<Rightarrow> MermaiNode \<Rightarrow> (bool \<times> MermaiNode) call" where
  "initialize ossl now pf node =
     (case load_state ossl now pf node of
        (ok, node1) \<Rightarrow> if \<not> ok then Returns (False, node1) else start_servers now pf node1)"

definition start_node :: "MermaiNode \<Rightarrow> MermaiNode" where
  "start_node node = node\<lparr>mn_running := True\<rparr>"

text \<open>The destructor of the node, which runs when \<^verbatim>\<open>main\<close> returns: its members go in the reverse order of their
  declaration, so the RPC server, then the peer-to-peer node, then the database, of which the content of its file
  remains (if there was one).\<close>

definition destroy_node :: "u64 \<Rightarrow> platform \<Rightarrow> MermaiNode \<Rightarrow> (nat list \<times> db_content option) call" where
  "destroy_node now pf node =
     call_bind (case mn_rpc node of
         None \<Rightarrow> Returns (mn_fds node)
       | Some r \<Rightarrow> call_bind (destroy_rpc_server (rpc_pending pf) (r, mn_fds node)) (\<lambda>(r, fds). Returns fds)) (\<lambda>fds.
     call_bind (case mn_p2p node of
         None \<Rightarrow> Returns fds
       | Some n \<Rightarrow> call_bind (destroy_p2p_node now (p2p_pending pf) (n, fds)) (\<lambda>(n, fds). Returns fds)) (\<lambda>fds.
     Returns (fds, map_option close_db (ns_db (mn_state node)))))"

datatype main_result =
    Exit_code int
  | Running_node MermaiNode
  | Uncaught_exception cpp_error
  | Aborted
  | Hangs

definition main_program :: "'k openssl \<Rightarrow> u64 \<Rightarrow> platform \<Rightarrow> string list \<Rightarrow> main_result" where
  "main_program ossl now pf args =
     (case parse_args default_settings args of
        Show_help \<Rightarrow> Exit_code 0
      | Uncaught e \<Rightarrow> Uncaught_exception e
      | Run_with st \<Rightarrow>
          (case initialize ossl now pf (new_mermai_node st) of
             Terminates \<Rightarrow> Aborted
           | Blocks \<Rightarrow> Hangs
           | Returns (True, node) \<Rightarrow> Running_node (start_node node)
           | Returns (False, node) \<Rightarrow>
               (case destroy_node now pf node of
                  Returns _ \<Rightarrow> Exit_code 1 | Terminates \<Rightarrow> Aborted | Blocks \<Rightarrow> Hangs)))"

section \<open>Loops\<close>

text \<open>The block the loop builds for the current slot; it carries no transactions and no signature.\<close>

definition produced_block :: "'k openssl \<Rightarrow> u64 \<Rightarrow> mermai_time_weighted_pos \<Rightarrow> string \<Rightarrow> mermai_blockchain \<Rightarrow> mermai_block \<Rightarrow> mermai_block" where
  "produced_block ossl now c proposer bc latest =
     (let slot_time = slot_of now;
          b = (new_block now (get_height bc + 1))\<lparr>blk_timestamp := slot_time,
                prev_block_hash := block_hash_hex ossl latest, validator_address := proposer\<rparr>
      in case find (\<lambda>v. v_address v = proposer) (validators c) of
           None \<Rightarrow> b
         | Some v \<Rightarrow> b\<lparr>validator_stake := v_amount v,
             validator_age := (if slot_time > lock_time v then slot_time - lock_time v else 0),
             validator_public_key := v_public_key v\<rparr>)"

definition finish_block :: "u32 \<Rightarrow> mermai_block \<Rightarrow> string \<Rightarrow> MermaiNode \<Rightarrow> MermaiNode" where
  "finish_block junk b proposer node =
     node\<lparr>mn_state := (mn_state node)\<lparr>ns_env := (ns_env (mn_state node))\<lparr>consensus_engine :=
            map_option (finalize_block (Some b) proposer) (consensus_engine (ns_env (mn_state node)))\<rparr>\<rparr>,
          mn_p2p := map_option (broadcast_block junk (Some b)) (mn_p2p node)\<rparr>"

text \<open>One turn of \<^verbatim>\<open>consensus_loop\<close>; the result says whether a block was produced. The node was
  initialised, so none of the pointers is null.\<close>

definition consensus_turn :: "'k openssl \<Rightarrow> u64 \<Rightarrow> u32 \<Rightarrow> MermaiNode \<Rightarrow> bool \<times> MermaiNode" where
  "consensus_turn ossl now junk node =
     (case (consensus_engine (ns_env (mn_state node)), ns_chain (mn_state node)) of
        (Some c, Some bc) \<Rightarrow>
          let proposer = select_block_proposer ossl c (slot_of now)
          in if proposer = [] then (False, node)
             else (case get_latest_block bc of
                     None \<Rightarrow> (False, node)
                   | Some latest \<Rightarrow>
                       let b = produced_block ossl now c proposer bc latest
                       in case accept_block ossl now b (mn_state node) of
                            (accepted, w) \<Rightarrow>
                              let node1 = node\<lparr>mn_state := w\<rparr>
                              in if accepted then (True, finish_block junk b proposer node1) else (False, node1))
      | _ \<Rightarrow> (False, node))"

text \<open>One turn of \<^verbatim>\<open>network_sync_loop\<close>.\<close>

definition sync_turn :: "u64 \<Rightarrow> u32 \<Rightarrow> (string \<Rightarrow> u16 \<Rightarrow> socket option) \<Rightarrow> MermaiNode \<Rightarrow> MermaiNode" where
  "sync_turn now junk dial node =
     (case mn_p2p node of
        None \<Rightarrow> node
      | Some n \<Rightarrow>
          let n1 = (if get_peer_count n < 8 then snd (discover_peers now junk dial (ns_chain (mn_state node)) n) else n)
          in node\<lparr>mn_p2p := Some (snd (sync_blocks junk n1))\<rparr>)"

text \<open>The loops themselves, for the clock readings (and what else comes from outside) of their turns. A loop ends
  at the first turn that finds \<^verbatim>\<open>running\<close> false.\<close>

fun consensus_loop :: "'k openssl \<Rightarrow> (u64 \<times> u32) list \<Rightarrow> MermaiNode \<Rightarrow> MermaiNode" where
  "consensus_loop ossl [] node = node"
| "consensus_loop ossl ((now, junk) # turns) node =
     (if \<not> mn_running node then node else consensus_loop ossl turns (snd (consensus_turn ossl now junk node)))"

fun network_sync_loop :: "(u64 \<times> u32 \<times> (string \<Rightarrow> u16 \<Rightarrow> socket option)) list \<Rightarrow> MermaiNode \<Rightarrow> MermaiNode" where
  "network_sync_loop [] node = node"
| "network_sync_loop ((now, junk, dial) # turns) node =
     (if \<not> mn_running node then node else network_sync_loop turns (sync_turn now junk dial node))"

text \<open>\<^verbatim>\<open>stop\<close> does not stop the peer-to-peer node.\<close>

definition stop_node :: "client option option \<Rightarrow> MermaiNode \<Rightarrow> MermaiNode call" where
  "stop_node pending node =
     call_bind (case mn_rpc node of
         None \<Rightarrow> Returns (node\<lparr>mn_running := False\<rparr>)
       | Some r \<Rightarrow> call_bind (stop_server pending (r, mn_fds node)) (\<lambda>(r, fds).
           Returns (node\<lparr>mn_running := False, mn_rpc := Some r, mn_fds := fds\<rparr>))) (\<lambda>node1.
     Returns (case ns_db (mn_state node1) of
         None \<Rightarrow> node1
       | Some db \<Rightarrow> node1\<lparr>mn_state := (mn_state node1)\<lparr>ns_db := Some (snd (db_sync db))\<rparr>\<rparr>))"

text \<open>Everything that happens to a node once its servers run: the start of its loops, block production,
  synchronisation, a connection of a peer, a message of some peer, a connection and a request of an RPC client, and
  the stop. The peer that sends a message is arbitrary, and what handling it does to the record of that peer is not kept.\<close>

inductive node_step :: "'k openssl \<Rightarrow> machine \<Rightarrow> MermaiNode \<Rightarrow> MermaiNode \<Rightarrow> bool" for ossl m where
  node_starts: "node_step ossl m node (start_node node)"
| node_produces: "mn_running node \<Longrightarrow> node_step ossl m node (snd (consensus_turn ossl now junk node))"
| node_syncs: "mn_running node \<Longrightarrow> node_step ossl m node (sync_turn now junk dial node)"
| node_accepts: "mn_p2p node = Some n \<Longrightarrow> listener_turn now got (n, mn_fds node) = (n', fds) \<Longrightarrow>
    node_step ossl m node (node\<lparr>mn_p2p := Some n', mn_fds := fds\<rparr>)"
| node_hears: "handle_message ossl now junk msg (p, mn_state node) = (p', w) \<Longrightarrow>
    node_step ossl m node (node\<lparr>mn_state := w\<rparr>)"
| node_rpc_accepts: "mn_rpc node = Some r \<Longrightarrow> server_turn got (r, mn_fds node) = (r', fds) \<Longrightarrow>
    node_step ossl m node (node\<lparr>mn_rpc := Some r', mn_fds := fds\<rparr>)"
| node_serves: "client_thread ossl m now junk received h (\<lparr>rpc_node = mn_state node, rpc_p2p = mn_p2p node\<rparr>, mn_fds node) =
      Returns (reply, s, fds) \<Longrightarrow>
    node_step ossl m node (node\<lparr>mn_state := rpc_node s, mn_p2p := rpc_p2p s, mn_fds := fds\<rparr>)"
| node_stops: "stop_node pending node = Returns node' \<Longrightarrow> node_step ossl m node node'"

section \<open>What every reachable node satisfies\<close>

definition engine_ok :: "chain_env \<Rightarrow> bool" where
  "engine_ok env \<longleftrightarrow> (\<exists>c. consensus_engine env = Some c \<and> registry_inv c)"

definition node_ok :: "'k openssl \<Rightarrow> node_state \<Rightarrow> bool" where
  "node_ok ossl w \<longleftrightarrow> engine_ok (ns_env w) \<and>
     (\<exists>bc. ns_chain w = Some bc \<and> chain_ok ossl (chain bc) \<and> list_all (\<lambda>b. transactions b = []) (chain bc)) \<and>
     (\<exists>db. ns_db w = Some db \<and> coinless db)"

lemma consult_engine_ok: "engine_ok env \<Longrightarrow> engine_ok (snd (consult_validator ossl b env))"
  by (auto simp: engine_ok_def consult_validator_def validate_proposal_Some Let_def penalties_inv split: option.splits if_splits)

lemma can_add_engine_ok: "engine_ok env \<Longrightarrow> engine_ok (snd (can_add_block ossl now block bc env))"
  by (cases block) (simp_all add: can_add_block_def Let_def case_prod_beta consult_engine_ok)

lemma add_block_engine_ok: "engine_ok env \<Longrightarrow> engine_ok (snd (snd (add_block ossl now block (bc, env))))"
  by (auto simp: add_block_def Let_def case_prod_beta can_add_engine_ok split: bool.splits option.splits)

lemma accept_block_engine_ok: "engine_ok (ns_env w) \<Longrightarrow> engine_ok (ns_env (snd (accept_block ossl now b w)))"
  by (auto simp: accept_block_def Let_def case_prod_beta can_add_engine_ok add_block_engine_ok split: option.splits)

lemma accept_block_node_ok:
  assumes "node_ok ossl w"
  shows "node_ok ossl (snd (accept_block ossl now b w))"
proof -
  from assms obtain bc db where w: "ns_chain w = Some bc" "ns_db w = Some db"
    and ok: "chain_ok ossl (chain bc)" "list_all (\<lambda>b. transactions b = []) (chain bc)" "coinless db" "engine_ok (ns_env w)"
    by (auto simp: node_ok_def)
  obtain r w' where a: "accept_block ossl now b w = (r, w')" by fastforce
  from accept_block_coinless [OF a w ok(3)] obtain db' where db': "ns_db w' = Some db'" "coinless db'" by auto
  have e: "engine_ok (ns_env w')" using accept_block_engine_ok [OF ok(4), of ossl now b] by (simp add: a)
  have "\<exists>bc'. ns_chain w' = Some bc' \<and> chain_ok ossl (chain bc') \<and> list_all (\<lambda>b. transactions b = []) (chain bc')"
    using a w
  proof (cases rule: accept_block_cases)
    case (accepted db'')
    then obtain env' where "can_add_block ossl now (Some b) bc (ns_env w) = (True, env')" by (metis prod.collapse)
    then have "add_block ossl now (Some b) (bc, ns_env w) = (True, bc\<lparr>chain := chain bc @ [b]\<rparr>, env')" by (simp add: add_block_def)
    from add_block_chain_ok [OF ok(1) this] accepted accept_block_coinless [OF a w ok(3)] ok(2) show ?thesis by auto
  qed (use ok in auto)
  with e db' show ?thesis by (simp add: a node_ok_def)
qed

lemma accept_blocks_node_ok: "node_ok ossl w \<Longrightarrow> node_ok ossl (snd (accept_blocks ossl now bs w))"
proof (induction bs arbitrary: w)
  case (Cons b bs)
  from accept_block_node_ok [OF Cons.prems, of now b] Cons.IH show ?case by (auto simp: case_prod_beta)
qed simp

lemma node_ok_quorum: "node_ok ossl (w\<lparr>ns_quorum := q\<rparr>) = node_ok ossl w"
  by (simp add: node_ok_def)

lemma node_ok_db: "node_ok ossl w \<Longrightarrow> coinless db \<Longrightarrow> node_ok ossl (w\<lparr>ns_db := Some db\<rparr>)"
  by (auto simp: node_ok_def)

lemma node_ok_engine: "node_ok ossl w \<Longrightarrow> registry_inv c \<Longrightarrow> node_ok ossl (w\<lparr>ns_env := (ns_env w)\<lparr>consensus_engine := Some c\<rparr>\<rparr>)"
  by (auto simp: node_ok_def engine_ok_def)

lemma coinless_mempool: "coinless db \<Longrightarrow> coinless (snd (db_add_to_mempool ossl tx db))"
  by (simp add: db_add_to_mempool_def coinless_update)

lemma handle_message_node_ok: "node_ok ossl w \<Longrightarrow> node_ok ossl (snd (handle_message ossl now junk m (p, w)))"
proof -
  assume ok: "node_ok ossl w"
  then obtain bc db where w: "ns_chain w = Some bc" "ns_db w = Some db" "coinless db" by (auto simp: node_ok_def)
  have "node_ok ossl (snd (handle_blocks ossl now (payload m) p w))"
    using ok accept_blocks_node_ok [OF ok] by (auto simp: handle_blocks_def w(1,2) Let_def case_prod_beta)
  moreover have "node_ok ossl (snd (handle_block ossl now (payload m) p w))"
    using ok accept_block_node_ok [OF ok] by (auto simp: handle_block_def case_prod_beta split: sum.splits)
  moreover have "node_ok ossl (handle_new_transaction ossl now (payload m) w)"
    using ok node_ok_db [OF ok coinless_mempool [OF w(3)]] by (auto simp: handle_new_transaction_def w(2) split: sum.splits)
  moreover have "node_ok ossl (handle_block_vote ossl (payload m) w)"
    using ok by (auto simp: handle_block_vote_def node_ok_quorum split: sum.splits option.splits)
  ultimately show ?thesis using ok by (simp add: handle_message_def split: mermai_message_type.splits)
qed

section \<open>Requests keep the node sound\<close>

lemma with_db_ok:
  assumes "node_ok ossl (rpc_node s)" "\<And>db. coinless db \<Longrightarrow> coinless (snd (f db))"
  shows "node_ok ossl (rpc_node (snd (with_db f s)))"
  using assms by (auto simp: with_db_def set_db_def node_ok_db case_prod_beta split: option.splits) (auto simp: node_ok_def)

lemma coinless_reads:
  assumes "coinless db"
  shows "coinless (snd (get_latest_block_height db))" "coinless (snd (get_block_by_height h db))"
    "coinless (snd (get_block_by_hash hash db))" "coinless (snd (get_account addr db))"
    "coinless (snd (get_validator addr db))" "coinless (snd (get_all_validators db))"
    "coinless (snd (get_contract_code addr db))"
  using assms
  by (auto simp: get_latest_block_height_def get_block_by_height_def get_block_by_hash_def get_account_def get_validator_def
      get_all_validators_def get_contract_code_def Let_def case_prod_beta split: outcome.splits option.splits)

lemma coinless_get_transaction: "coinless db \<Longrightarrow> coinless (snd (db_get_transaction tid db))"
proof -
  assume c: "coinless db"
  have l: "coinless (snd (load_transaction name table tid d))" if "coinless d" for name table d
    using coinless_query [OF that, of "[name]" "\<lambda>t. omap_find (table t) (c_str tid)"]
    by (auto simp: load_transaction_def case_prod_beta split: prod.splits outcome.splits option.splits)
  from c l show ?thesis by (auto simp: db_get_transaction_def case_prod_beta)
qed

lemma coinless_validate: "coinless db \<Longrightarrow> coinless (snd (validate_transaction_inputs ossl now tx db))"
proof -
  assume c: "coinless db"
  have "coinless (snd (sum_inputs ossl n is d))" if "coinless d" for n "is" d
    using that
  proof (induction "is" arbitrary: n d)
    case (Cons i "is")
    let ?q = "query [''utxos''] (find_utxo (prev_tx_hash i) (prev_output_idx i)) d"
    have q: "coinless (snd ?q)" using Cons.prems by simp
    obtain o' d' where p: "?q = (o', d')" by fastforce
    with q have "coinless d'" by simp
    with Cons.IH [OF this] show ?case by (auto simp: p Let_def split: outcome.splits option.splits)
  qed simp
  with c show ?thesis by (auto simp: validate_transaction_inputs_def case_prod_beta split: option.splits)
qed

lemma save_matching_ok: "node_ok ossl (rpc_node s) \<Longrightarrow> node_ok ossl (rpc_node (save_matching addr vs s))"
proof (induction vs arbitrary: s)
  case (Cons v vs)
  from Cons.prems obtain db where db: "ns_db (rpc_node s) = Some db" "coinless db" by (auto simp: node_ok_def)
  have "coinless (snd (save_validator v db))" using db(2) by (simp add: save_validator_def coinless_update)
  with Cons.prems have "node_ok ossl (rpc_node (set_db (snd (save_validator v db)) s))" by (simp add: set_db_def node_ok_db)
  with Cons db(1) show ?case by (simp add: save_matching_def)
qed (simp add: save_matching_def)

definition rpc_keeps :: "'k openssl \<Rightarrow> rpc_outcome \<Rightarrow> bool" where
  "rpc_keeps ossl out \<longleftrightarrow> (case out of Reply r s \<Rightarrow> node_ok ossl (rpc_node s) | _ \<Rightarrow> True)"

lemma rpc_keeps_simps [simp]:
  "rpc_keeps ossl (Reply r s) = node_ok ossl (rpc_node s)" "rpc_keeps ossl (replies q) = node_ok ossl (rpc_node (snd q))"
  "node_ok ossl (rpc_node s) \<Longrightarrow> rpc_keeps ossl (run_code m code ctx s answer)"
  by (auto simp: rpc_keeps_def replies_def run_code_def split: prod.splits option.splits vm_outcome.splits)

lemmas coinless_ops = coinless_reads coinless_get_transaction coinless_validate coinless_mempool

lemma reads_ok:
  assumes "node_ok ossl (rpc_node s)"
  shows "node_ok ossl (rpc_node (snd (rpc_get_block_by_hash hash s)))"
    "node_ok ossl (rpc_node (snd (get_balance addr s)))" "node_ok ossl (rpc_node (snd (get_account_nonce addr s)))"
    "node_ok ossl (rpc_node (snd (rpc_get_transaction tid s)))" "node_ok ossl (rpc_node (snd (get_validator_info addr s)))"
    "node_ok ossl (rpc_node (snd (rpc_get_all_validators s)))" "node_ok ossl (rpc_node (snd (rpc_get_validator_weight addr s)))"
    "node_ok ossl (rpc_node (snd (rpc_get_contract_code addr s)))"
  unfolding rpc_get_block_by_hash_def get_balance_def get_account_nonce_def rpc_get_transaction_def get_validator_info_def
    rpc_get_all_validators_def rpc_get_validator_weight_def rpc_get_contract_code_def
  by (rule with_db_ok [OF assms], simp add: case_prod_beta coinless_ops)+

lemma chain_reads_ok:
  assumes "node_ok ossl (rpc_node s)"
  shows "node_ok ossl (rpc_node (snd (get_block_count s)))" "node_ok ossl (rpc_node (snd (rpc_get_block h s)))"
    "node_ok ossl (rpc_node (snd (get_finalized_block ossl s)))"
proof -
  from assms obtain bc db where w: "ns_chain (rpc_node s) = Some bc" "ns_db (rpc_node s) = Some db" "coinless db"
    by (auto simp: node_ok_def)
  note d = coinless_reads [OF w(3)]
  show "node_ok ossl (rpc_node (snd (get_block_count s)))" using assms by (simp add: get_block_count_def w(1))
  show "node_ok ossl (rpc_node (snd (rpc_get_block h s)))"
    using assms d by (auto simp: rpc_get_block_def w(1,2) set_db_def node_ok_db case_prod_beta split: option.splits)
  show "node_ok ossl (rpc_node (snd (get_finalized_block ossl s)))"
    using assms by (auto simp: get_finalized_block_def w(1) split: option.splits)
qed

lemma writes_ok:
  assumes "node_ok ossl (rpc_node s)"
  shows "node_ok ossl (rpc_node (snd (send_transaction ossl now junk req s)))"
    "node_ok ossl (rpc_node (snd (deploy_contract ossl req s)))"
    "node_ok ossl (rpc_node (snd (submit_vote ossl junk req s)))"
    "node_ok ossl (rpc_node (snd (rpc_register_validator ossl now req s)))"
    "node_ok ossl (rpc_node (snd (called_code req s)))"
proof -
  from assms obtain db c where w: "ns_db (rpc_node s) = Some db" "coinless db"
      "consensus_engine (ns_env (rpc_node s)) = Some c" "registry_inv c"
    by (auto simp: node_ok_def engine_ok_def)
  have b: "rpc_node (broadcast_tx_to j tx s') = rpc_node s'" for j tx s' by (simp add: broadcast_tx_to_def)
  have sdb: "node_ok ossl (rpc_node (set_db d s))" if "coinless d" for d
    using that assms by (simp add: set_db_def node_ok_db)
  have "coinless (snd (save_contract_code a code db))" for a code
    using w(2) by (auto simp: save_contract_code_def coinless_update)
  then show "node_ok ossl (rpc_node (snd (deploy_contract ossl req s)))"
    using assms sdb by (auto simp: deploy_contract_def w(1) Let_def case_prod_beta)
  show "node_ok ossl (rpc_node (snd (send_transaction ossl now junk req s)))"
    using assms by (auto simp: send_transaction_def w(1) b Let_def case_prod_beta coinless_validate coinless_mempool w(2)
        intro!: sdb split: sum.splits)
  show "node_ok ossl (rpc_node (snd (submit_vote ossl junk req s)))"
    using assms by (auto simp: submit_vote_def Let_def case_prod_beta node_ok_quorum split: option.splits)
  show "node_ok ossl (rpc_node (snd (rpc_register_validator ossl now req s)))"
    using assms node_ok_engine [OF assms register_validator_inv [OF w(4)]]
    by (auto simp: rpc_register_validator_def w(3) Let_def case_prod_beta intro!: save_matching_ok)
  show "node_ok ossl (rpc_node (snd (called_code req s)))"
    using assms sdb coinless_reads(7) [OF w(2)] by (auto simp: called_code_def w(1) Let_def case_prod_beta)
qed

lemma contract_calls_ok:
  assumes "node_ok ossl (rpc_node s)"
  shows "rpc_keeps ossl (call_contract m req s)" "rpc_keeps ossl (estimate_gas m req s)"
  using assms writes_ok(5) [OF assms, of req] by (auto simp: call_contract_def estimate_gas_def Let_def case_prod_beta)

lemma handle_request_node_ok:
  assumes "node_ok ossl (rpc_node s)"
  shows "rpc_keeps ossl (handle_request ossl m now junk req s)"
proof -
  have "rpc_keeps ossl (dispatch ossl m now junk name req s)" for name
    unfolding dispatch_def
    by (simp only: if_split) (simp add: assms reads_ok chain_reads_ok writes_ok contract_calls_ok)
  from this [of "request_string req ''method''"] show ?thesis
    by (auto simp: handle_request_def rpc_keeps_def split: rpc_outcome.splits)
qed

section \<open>Starting up\<close>

definition fresh_db :: "mermai_db \<Rightarrow> bool" where
  "fresh_db db \<longleftrightarrow> saved db = None \<and> blocks_table (tables db) = [] \<and> utxos_table (tables db) = []"

lemma fresh_coinless: "fresh_db db \<Longrightarrow> coinless db"
  by (simp add: fresh_db_def coinless_def)

lemma fresh_run:
  assumes "fresh_db db" "\<And>t x t'. f t = Some (x, t') \<Longrightarrow> blocks_table t' = blocks_table t \<and> utxos_table t' = utxos_table t"
  shows "fresh_db (snd (run needs f db))"
  using assms(1) assms(2) [of "tables db"]
  by (cases "f (tables db)") (auto simp: fresh_db_def run_def roll_back_def Let_def)

lemma fresh_query: "fresh_db db \<Longrightarrow> fresh_db (snd (query needs q db))"
  unfolding query_def by (erule fresh_run) auto

lemma fresh_update:
  "fresh_db db \<Longrightarrow> (\<And>t. blocks_table (u t) = blocks_table t \<and> utxos_table (u t) = utxos_table t) \<Longrightarrow>
     fresh_db (snd (update needs u db))"
  using fresh_run [of db "\<lambda>t. Some ((), u t)" needs] by (auto simp: update_def case_prod_beta)

lemma fresh_create: "fresh_db db \<Longrightarrow> fresh_db (snd (create_table names db))"
  using fresh_update [of db "\<lambda>t. t" "[]"] by (auto simp: create_table_def case_prod_beta fresh_db_def)

lemma fresh_exec_all: "fresh_db db \<Longrightarrow> (\<And>f d. f \<in> set fs \<Longrightarrow> fresh_db d \<Longrightarrow> fresh_db (snd (f d))) \<Longrightarrow> fresh_db (snd (exec_all fs db))"
  by (induction fs arbitrary: db) (auto simp: case_prod_beta)

lemma fresh_initialize: "fresh_db db \<Longrightarrow> fresh_db (snd (db_initialize opened db))"
proof -
  assume "fresh_db db"
  then have 0: "fresh_db (db\<lparr>db_connection := opened\<rparr>)" by (simp add: fresh_db_def)
  have s: "fresh_db (snd (exec_all schema_statements d))" if "fresh_db d" for d
    by (rule fresh_exec_all [OF that]) (auto simp: schema_statements_def fresh_create fresh_update)
  have h: "fresh_db (snd (has_column c d))" if "fresh_db d" for c d
    using fresh_query [OF that] by (simp add: has_column_def case_prod_beta)
  have a: "fresh_db (snd (add_public_key_column d))" if "fresh_db d" for d
    using fresh_update [OF that, of "\<lambda>t. t\<lparr>validators_table := map (\<lambda>(a, r). (a, r\<lparr>row_public_key := []\<rparr>)) (validators_table t)\<rparr>"]
    by (auto simp: add_public_key_column_def case_prod_beta fresh_db_def)
  show ?thesis using 0 s h a by (auto simp: db_initialize_def Let_def case_prod_beta)
qed

lemma fresh_height: "fresh_db db \<Longrightarrow> fst (get_latest_block_height db) = 0 \<and> fresh_db (snd (get_latest_block_height db))"
proof -
  assume f: "fresh_db db"
  let ?q = "query [''blocks''] (\<lambda>t. if blocks_table t = [] then 0 else Max (set (map (row_height \<circ> snd) (blocks_table t)))) db"
  obtain r d where q: "?q = (r, d)" by fastforce
  have "x = 0" if "r = Done x" for x
    using query_Done [OF q [unfolded that]] f by (simp add: fresh_db_def)
  then have "done_or 0 r = (0 :: int)" by (auto simp: done_or_def split: outcome.splits)
  moreover have "fresh_db (snd ?q)" by (rule fresh_query [OF f])
  then have "fresh_db d" by (simp add: q)
  ultimately show ?thesis using f q by (simp add: get_latest_block_height_def)
qed

lemma restore_all_inv: "registry_inv c \<Longrightarrow> registry_inv (snd (restore_all vs c))"
  by (induction vs arbitrary: c) (auto simp: case_prod_beta restore_validator_inv)

lemma new_pos_inv: "registry_inv new_pos"
  by (simp add: new_pos_def registry_inv_def)

text \<open>A platform on which the node runs for the first time: the database holds no blocks and no coins.\<close>

definition first_run :: "platform \<Rightarrow> settings \<Rightarrow> bool" where
  "first_run pf st \<longleftrightarrow> (case db_file pf (set_db_name st) of (names, t, fs) \<Rightarrow> blocks_table t = [] \<and> utxos_table t = [])"

lemma genesis_chain_ok: "chain_ok ossl (chain (new_blockchain now)) \<and> list_all (\<lambda>b. transactions b = []) (chain (new_blockchain now))"
  using chain_system.start_inv [of "(new_blockchain now, undefined)" ossl]
  by (auto simp: new_blockchain_def genesis_block_def new_block_def)

lemma load_state_node_ok:
  assumes "first_run pf (mn_settings node)"
  shows "node_ok ossl (mn_state (snd (load_state ossl now pf node)))"
proof -
  obtain names t fs where f: "db_file pf (set_db_name (mn_settings node)) = (names, t, fs)" by (metis prod_cases3)
  obtain opened db1 where i: "db_initialize (db_opens pf) (new_db names t fs) = (opened, db1)" by fastforce
  have "fresh_db (new_db names t fs)" using assms f by (simp add: first_run_def fresh_db_def new_db_def)
  from fresh_initialize [OF this, of "db_opens pf"] have d1: "fresh_db db1" by (simp add: i)
  obtain vs db2 where v: "get_all_validators db1 = (vs, db2)" by fastforce
  have "fresh_db (snd (get_all_validators db1))"
    by (simp add: get_all_validators_def case_prod_beta fresh_query d1)
  then have d2: "fresh_db db2" by (simp add: v)
  obtain restored c where r: "restore_all vs new_pos = (restored, c)" by fastforce
  have c: "registry_inv c" using restore_all_inv [OF new_pos_inv, of vs] by (simp add: r)
  from fresh_height [OF d2] obtain db3 where h: "get_latest_block_height db2 = (0, db3)" "fresh_db db3" by (metis prod.collapse)
  note g = genesis_chain_ok [of ossl now]
  show ?thesis using d1 d2 h c g new_pos_inv
    by (auto simp: load_state_def f i v r restore_chain_def Let_def node_ok_def engine_ok_def fresh_coinless)
qed

lemma start_servers_state: "start_servers now pf node = Returns (ok, node') \<Longrightarrow> mn_state node' = mn_state node"
  by (auto simp: start_servers_def call_bind_Returns Let_def split: if_splits)

lemma initialize_state:
  assumes "initialize ossl now pf node = Returns (ok, node')"
  shows "mn_state node' = mn_state (snd (load_state ossl now pf node))"
  using assms start_servers_state [of now pf] by (auto simp: initialize_def split: prod.splits if_splits)

lemma initialize_node_ok:
  assumes "first_run pf (mn_settings node)" "initialize ossl now pf node = Returns (ok, node')"
  shows "node_ok ossl (mn_state node')"
  unfolding initialize_state [OF assms(2)] by (rule load_state_node_ok [OF assms(1)])

lemma consensus_turn_node_ok: "node_ok ossl (mn_state node) \<Longrightarrow> node_ok ossl (mn_state (snd (consensus_turn ossl now junk node)))"
proof -
  assume ok: "node_ok ossl (mn_state node)"
  have fin: "node_ok ossl (mn_state (finish_block j b p n))" if "node_ok ossl (mn_state n)" for j b p n
    using that by (auto simp: finish_block_def node_ok_def engine_ok_def penalties_inv)
  show ?thesis using ok accept_block_node_ok [OF ok] fin
    by (auto simp: consensus_turn_def Let_def case_prod_beta split: option.splits)
qed

lemma client_thread_node_ok:
  assumes "node_ok ossl (mn_state node)"
    "client_thread ossl m now junk received h (\<lparr>rpc_node = mn_state node, rpc_p2p = mn_p2p node\<rparr>, fds) = Returns (reply, s, fds')"
  shows "node_ok ossl (rpc_node s)"
  using assms handle_request_node_ok [of ossl "\<lparr>rpc_node = mn_state node, rpc_p2p = mn_p2p node\<rparr>" m now junk "http_body (take 4095 received)"]
  by (auto simp: client_thread_def serve_client_def rpc_keeps_def Let_def split: rpc_outcome.splits if_splits)

lemma stop_node_ok:
  assumes "stop_node pending node = Returns node'" "node_ok ossl (mn_state node)"
  shows "node_ok ossl (mn_state node')"
proof -
  have "ns_chain (mn_state node') = ns_chain (mn_state node) \<and> ns_env (mn_state node') = ns_env (mn_state node) \<and>
      ns_db (mn_state node') = map_option (snd \<circ> db_sync) (ns_db (mn_state node))"
    using assms(1) by (cases "ns_db (mn_state node)"; cases "mn_rpc node") (auto simp: stop_node_def call_bind_Returns)
  moreover have "coinless (snd (db_sync db))" if "coinless db" for db
    using that by (auto simp: db_sync_def update_def run_def roll_back_def coinless_def Let_def split: option.splits)
  ultimately show ?thesis using assms(2) by (auto simp: node_ok_def)
qed

interpretation running_node: safe_system
  "\<lambda>node. \<exists>now pf node0. first_run pf (mn_settings node0) \<and> initialize ossl now pf node0 = Returns (True, node)"
  "node_step ossl m" "\<lambda>node. node_ok ossl (mn_state node)"
proof
  show "node_ok ossl (mn_state s)"
    if "\<exists>now pf node0. first_run pf (mn_settings node0) \<and> initialize ossl now pf node0 = Returns (True, s)" for s
    using that initialize_node_ok by blast
next
  fix s t :: MermaiNode
  assume ok: "node_ok ossl (mn_state s)" and "node_step ossl m s t"
  from this(2) show "node_ok ossl (mn_state t)"
  proof (cases rule: node_step.cases)
    case node_starts
    then show ?thesis using ok by (simp add: start_node_def)
  next
    case (node_produces now junk)
    then show ?thesis using consensus_turn_node_ok [OF ok] by simp
  next
    case (node_syncs now junk dial)
    then show ?thesis using ok by (auto simp: sync_turn_def Let_def split: option.splits)
  next
    case (node_accepts n now got n' fds)
    then show ?thesis using ok by simp
  next
    case (node_hears now junk msg p p' w)
    then show ?thesis using handle_message_node_ok [OF ok, of now junk msg p] by simp
  next
    case (node_rpc_accepts r got r' fds)
    then show ?thesis using ok by simp
  next
    case (node_serves now junk received h reply s' fds)
    then show ?thesis using client_thread_node_ok [OF ok] by simp
  next
    case (node_stops pending)
    then show ?thesis using stop_node_ok [OF _ ok] by simp
  qed
qed

text \<open>C1: The invariant of a running node. However block production, messages of peers, requests and
  failures of the database interleave after a first start, the chain in memory stays linked, ordered
  and valid, the validators keep distinct non-empty addresses, and no transaction is ever confirmed:
  the table of unspent outputs starts empty, the program has no operation that puts a first coin into
  it, and every block with a transaction is refused for want of inputs.
\<close>

theorem running_node_invariant:
  assumes "reach (\<lambda>node. \<exists>now pf node0. first_run pf (mn_settings node0) \<and> initialize ossl now pf node0 = Returns (True, node))
    (node_step ossl m) node"
  shows "\<exists>bc c db. ns_chain (mn_state node) = Some bc \<and> chain_ok ossl (chain bc) \<and> is_chain_valid ossl bc \<and>
    consensus_engine (ns_env (mn_state node)) = Some c \<and> distinct (map v_address (validators c)) \<and>
    [] \<notin> set (map v_address (validators c)) \<and>
    ns_db (mn_state node) = Some db \<and> utxos_table (tables db) = [] \<and>
    list_all (\<lambda>b. transactions b = []) (chain bc)"
  using running_node.reach_inv [OF assms] chain_ok_links [of ossl]
  by (auto simp: node_ok_def engine_ok_def registry_inv_def coinless_def is_chain_valid_def)

text \<open>The two loops are sequences of steps, so the invariant holds after any number of their turns; and \<^verbatim>\<open>stop\<close> leaves
  the listener of the peer-to-peer node as it is.\<close>

lemma consensus_loop_steps: "(node_step ossl m)\<^sup>*\<^sup>* node (consensus_loop ossl turns node)"
proof (induction ossl turns node rule: consensus_loop.induct)
  case (2 ossl now junk turns node)
  then show ?case by (auto intro: converse_rtranclp_into_rtranclp node_produces)
qed simp

lemma network_sync_loop_steps: "(node_step ossl m)\<^sup>*\<^sup>* node (network_sync_loop turns node)"
proof (induction turns node rule: network_sync_loop.induct)
  case (2 now junk dial turns node)
  then show ?case by (auto intro: converse_rtranclp_into_rtranclp node_syncs)
qed simp

lemma stop_leaves_listener: "stop_node pending node = Returns node' \<Longrightarrow> mn_p2p node' = mn_p2p node \<and> \<not> mn_running node'"
  by (cases "ns_db (mn_state node)"; cases "mn_rpc node") (auto simp: stop_node_def call_bind_Returns)

section \<open>Restarting\<close>

text \<open>A block the validators \<open>c\<close> explain: its proposer is the one they select, with their stake.\<close>

definition explained :: "'k openssl \<Rightarrow> mermai_time_weighted_pos \<Rightarrow> mermai_block \<Rightarrow> bool" where
  "explained ossl c b \<longleftrightarrow>
     validator_address b = select_block_proposer ossl c (slot_of (blk_timestamp b)) \<and>
     (case find (\<lambda>v. v_address v = validator_address b) (validators c) of
        None \<Rightarrow> False | Some v \<Rightarrow> validator_stake b = v_amount v)"

lemma consult_explained:
  assumes "consult_validator ossl b env = (True, env')" "consensus_engine env = Some c"
  shows "consensus_engine env' = Some c \<and> explained ossl c b"
  using assms
  by (auto simp: consult_validator_def validate_proposal_Some explained_def proposal_matches_def Let_def
      split: option.splits if_splits)

lemma validate_chain_explained:
  assumes "validate_chain ossl now validated blocks env = (Some bs, env')" "consensus_engine env = Some c"
    and "list_all (explained ossl c) (tl validated)"
  shows "consensus_engine env' = Some c \<and> list_all (explained ossl c) (tl bs)"
  using assms
proof (induction blocks arbitrary: validated env)
  case (Cons block blocks)
  then obtain b where block: "block = Some b" by (cases block) auto
  let ?cv = "if validated \<noteq> [] then consult_validator ossl b env else (True, env)"
  obtain valid env1 where cv: "?cv = (valid, env1)" by (cases ?cv)
  from Cons.prems(1) cv have rec: "validate_chain ossl now (validated @ [b]) blocks env1 = (Some bs, env')" and valid
    by (auto simp: block Let_def split: if_splits prod.splits)
  with cv Cons.prems(2) consult_explained [of ossl b env env1 c]
  have "consensus_engine env1 = Some c \<and> (validated \<noteq> [] \<longrightarrow> explained ossl c b)" by (auto split: if_splits)
  with Cons.IH [OF rec] Cons.prems(3) show ?case by (cases validated) auto
qed simp

text \<open>What a file holds for a restart: the validators, the greatest height of a block, and the block a query by height finds.\<close>

definition persisted_validators :: "db_tables \<Rightarrow> mermai_validator_stake list" where
  "persisted_validators t = map (\<lambda>(a, r). validator_of_row a r) (validators_table t)"

definition stored_height :: "db_tables \<Rightarrow> u32" where
  "stored_height t = word_of_int (if blocks_table t = [] then 0 else Max (set (map (row_height \<circ> snd) (blocks_table t))))"

definition stored_block :: "db_tables \<Rightarrow> u32 \<Rightarrow> mermai_block option" where
  "stored_block t h = Option.bind (map_option (row_block \<circ> snd) (find (\<lambda>(k, r). row_height r = sint h) (blocks_table t)))
     (decode_blob deserialize_block)"

text \<open>The database of an earlier run, on which no statement fails.\<close>

definition working_db :: "mermai_db \<Rightarrow> bool" where
  "working_db db \<longleftrightarrow> db_connection db \<and> no_faults db \<and> schema_complete db"

lemma working_queries:
  assumes "working_db db"
  shows "get_all_validators db = (persisted_validators (tables db), db)"
    and "get_latest_block_height db = (stored_height (tables db), db)"
    and "get_block_by_height h db = (stored_block (tables db) h, db)"
  using assms
  by (simp_all add: working_db_def schema_complete_def all_tables_def get_all_validators_def get_latest_block_height_def
      get_block_by_height_def query_no_faults done_or_def persisted_validators_def stored_height_def stored_block_def)

lemma load_blocks_stored:
  assumes "working_db db"
  shows "load_blocks h n db = (those (map (\<lambda>i. stored_block (tables db) (h + of_nat i)) [0..<n]), db)"
proof (induction n arbitrary: h)
  case (Suc n)
  have "map (\<lambda>i. stored_block (tables db) (h + of_nat i)) [0..<Suc n] =
      stored_block (tables db) h # map (\<lambda>i. stored_block (tables db) (h + 1 + of_nat i)) [0..<n]"
    by (simp add: upt_conv_Cons map_Suc_upt [symmetric] add.assoc del: upt_Suc)
  with Suc [of "h + 1"] show ?case
    by (simp add: working_queries [OF assms] split: option.splits del: upt_Suc)
qed simp

lemma those_Some: "those xs = Some ys \<longleftrightarrow> xs = map Some ys"
  by (induction xs arbitrary: ys) (auto split: option.splits simp: map_eq_Cons_conv Cons_eq_map_conv)

lemma restore_all_validators:
  "restore_all vs c = (True, c') \<Longrightarrow> validators c' = validators c @ vs"
  by (induction vs arbitrary: c) (auto simp: restore_validator_def split: if_splits)

lemma restore_chain_explained:
  assumes "restore_chain ossl now db (new_blockchain now, env) = (True, db', bc', env')" "consensus_engine env = Some c" "working_db db"
  shows "\<exists>bs. chain bc' = genesis_block now # bs \<and> chain_ok ossl (chain bc') \<and> consensus_engine env' = Some c \<and>
    list_all (explained ossl c) bs \<and>
    map Some bs = map (\<lambda>i. stored_block (tables db) (of_nat (Suc i))) [0..<unat (stored_height (tables db))]"
proof (cases "stored_height (tables db) > 0")
  case False
  then have "stored_height (tables db) = 0" by (simp add: word_gt_0)
  with assms genesis_chain_ok [of ossl now] show ?thesis
    by (auto simp: restore_chain_def working_queries [OF assms(3)] new_blockchain_def)
next
  case True
  with assms(1) obtain bs where
    r: "replace_chain_if_longer ossl now (get_block (new_blockchain now) 0 # map Some bs) (new_blockchain now, env) = (True, bc', env')"
    and bs: "map Some bs = map (\<lambda>i. stored_block (tables db) (1 + of_nat i)) [0..<unat (stored_height (tables db))]"
    by (auto simp: restore_chain_def working_queries [OF assms(3)] load_blocks_stored [OF assms(3)] those_Some split: prod.splits option.splits)
  from replace_chain_result [OF r] have ok: "chain_ok ossl (chain bc')" "map Some (chain bc') = map Some (genesis_block now # bs)"
    by (simp_all add: get_block_def new_blockchain_def)
  then have ch: "chain bc' = genesis_block now # bs" by (simp add: map_eq_Cons_conv inj_map_eq_map)
  from r obtain vs where "validate_chain ossl now [] (get_block (new_blockchain now) 0 # map Some bs) env = (Some vs, env')"
    "chain bc' = vs"
    by (auto simp: replace_chain_if_longer_def split: if_splits prod.splits option.splits)
  then have "consensus_engine env' = Some c \<and> list_all (explained ossl c) (tl (chain bc'))"
    using validate_chain_explained [OF _ assms(2)] by fastforce
  with ok(1) ch bs show ?thesis by simp
qed

text \<open>C27: What a restart requires. Let a node start on the database file of an earlier run (every table is there), with no
  failing statement. It comes up only if the file explains its own history: the validator set is exactly the list of
  persisted validators, with different addresses, there is a stored block at every height from 1 to the
  greatest stored height, the chain in memory is the genesis block followed by these blocks, linked and
  valid, and each of them was proposed by the validator that today's set selects for its slot, with today's stake.
  (Registering one more validator changes the selection for past slots. A failing query of the height is not
  noticed: \<open>failed_height_query_forgets\<close>.)
\<close>

theorem restart_explains_history:
  assumes "initialize ossl now pf node = Returns (True, node')"
    and "db_file pf (set_db_name (mn_settings node)) = (names, t, [])" "schema_complete (new_db names t [])"
  shows "\<exists>bc c bs. ns_chain (mn_state node') = Some bc \<and> consensus_engine (ns_env (mn_state node')) = Some c \<and>
    validators c = persisted_validators t \<and> registry_inv c \<and> chain bc = genesis_block now # bs \<and>
    map Some bs = map (\<lambda>i. stored_block t (of_nat (Suc i))) [0..<unat (stored_height t)] \<and>
    chain_ok ossl (chain bc) \<and> list_all (explained ossl c) bs"
proof -
  let ?db = "(new_db names t [])\<lparr>db_connection := True\<rparr>" and ?env = "\<lambda>c. \<lparr>consensus_engine = Some c, seen_props = []\<rparr>"
  have w: "working_db ?db" using assms(3) by (simp add: working_db_def new_db_def no_faults_def schema_complete_def)
  have l: "fst (load_state ossl now pf node)" using assms(1) by (auto simp: initialize_def split: prod.splits if_splits)
  have "db_opens pf" by (rule ccontr) (use l in \<open>simp add: load_state_def assms(2) db_initialize_def\<close>)
  then have i: "db_initialize (db_opens pf) (new_db names t []) = (True, ?db)"
    using db_initialize_again [OF assms(3)] by (simp add: new_db_def)
  obtain restored c where r: "restore_all (persisted_validators t) new_pos = (restored, c)" by fastforce
  obtain ok db3 bc env where rc: "restore_chain ossl now ?db (new_blockchain now, ?env c) = (ok, db3, bc, env)" by (metis prod_cases4)
  note step = load_state_def assms(2) i working_queries(1) [OF w] r rc
  have tabs: "tables ?db = t" by (simp add: new_db_def)
  from l have "restored" "ok" by (auto simp: step tabs Let_def split: if_splits)
  moreover from this have "ns_chain (mn_state node') = Some bc" "ns_env (mn_state node') = env"
    unfolding initialize_state [OF assms(1)] by (simp_all add: step tabs Let_def)
  moreover have "registry_inv c" using restore_all_inv [OF new_pos_inv, of "persisted_validators t"] by (simp add: r)
  moreover have "validators c = persisted_validators t"
    using restore_all_validators [of "persisted_validators t" new_pos c] r calculation(1) by (simp add: new_pos_def)
  ultimately show ?thesis using restore_chain_explained [of ossl now ?db "?env c" db3 bc env c, OF _ _ w] rc tabs by auto
qed

text \<open>
  The database reports height 0 when the query fails, and the node takes that for an empty database: it comes up
  with the genesis block alone, whatever is stored.
\<close>

lemma failed_height_query_forgets:
  assumes "db_connection db" "next_fault db \<in> {Prepare_fails, Step_fails, Aborts}"
  shows "\<exists>db'. restore_chain ossl now db s = (True, db', s)"
  using assms by (auto simp: restore_chain_def get_latest_block_height_def query_def run_def done_or_def Let_def)

section \<open>Starting the servers\<close>

definition can_listen :: "net_os \<Rightarrow> nat list \<Rightarrow> u16 \<Rightarrow> bool" where
  "can_listen os fds port \<longleftrightarrow> os_socket os fds \<noteq> None \<and> os_bind os fds port \<and> os_listen os fds port"

lemma load_state_frame:
  "mn_settings (snd (load_state ossl now pf node)) = mn_settings node" "mn_fds (snd (load_state ossl now pf node)) = mn_fds node"
  "mn_p2p (snd (load_state ossl now pf node)) = mn_p2p node" "mn_rpc (snd (load_state ossl now pf node)) = mn_rpc node"
  by (auto simp: load_state_def case_prod_beta Let_def)

text \<open>How the two servers start on a node that has none.\<close>

lemma start_listening_new:
  assumes "sockets_fresh os fds"
  shows "start_listening os (new_node now port, fds) =
    (if can_listen os fds port
     then Returns (True, (new_node now port)\<lparr>listen_socket := the (os_socket os fds), listening := True,
            listener_thread := Accepting\<rparr>, the (os_socket os fds) # fds)
     else Returns (False, new_node now port, fds))"
  using assms
  by (auto simp: start_listening_def can_listen_def new_node_def close_socket_def sockets_fresh_def fresh_handle_def split: option.splits)

lemma start_server_new:
  "start_server os (new_rpc_server port, fds) =
    (if can_listen os fds port
     then Returns (True, (new_rpc_server port)\<lparr>server_socket := the (os_socket os fds), server_running := True,
            server_thread := Accepting\<rparr>, the (os_socket os fds) # fds)
     else Returns (False, new_rpc_server port, fds))"
  by (auto simp: start_server_def can_listen_def new_rpc_server_def split: option.splits)

lemma initialize_cases:
  assumes "load_state ossl now pf (new_mermai_node st) = (ok, node)" "\<And>fds. sockets_fresh (net pf) fds"
  shows "initialize ossl now pf (new_mermai_node st) =
    (let os = net pf; n = new_node now (set_p2p_port st); h = the (os_socket os []); r = new_rpc_server (set_rpc_port st);
         n' = n\<lparr>listen_socket := h, listening := True, listener_thread := Accepting\<rparr>
     in if \<not> ok then Returns (False, node)
        else if \<not> can_listen os [] (set_p2p_port st) then Returns (False, node\<lparr>mn_p2p := Some n, mn_fds := []\<rparr>)
        else if \<not> can_listen os [h] (set_rpc_port st)
        then Returns (False, node\<lparr>mn_p2p := Some n', mn_fds := [h], mn_rpc := Some r\<rparr>)
        else Returns (True, node\<lparr>mn_p2p := Some n', mn_rpc := Some (r\<lparr>server_socket := the (os_socket os [h]),
          server_running := True, server_thread := Accepting\<rparr>), mn_fds := [the (os_socket os [h]), h]\<rparr>))"
proof -
  have "mn_settings node = st" "mn_fds node = []"
    using load_state_frame [of ossl now pf "new_mermai_node st"] assms(1) by (simp_all add: new_mermai_node_def)
  then show ?thesis using assms
    by (simp add: initialize_def start_servers_def start_listening_new start_server_new Let_def)
qed

text \<open>C28: How a start ends. With a valid command line, the program exits with 1 if the database or the stored chain is
  refused or the peer-to-peer port cannot be listened on; if both ports can be listened on, it runs, with both servers
  up on sockets of their own. But when only the second port is taken, exiting destroys the peer-to-peer node, which
  closes its socket and then waits for the thread that sits in \<^verbatim>\<open>accept\<close>: the program exits only if that call
  returns, and otherwise (as on Linux, where closing a socket does not wake the call) it hangs.\<close>

theorem startup_outcome:
  assumes "parse_args default_settings args = Run_with st" "load_state ossl now pf (new_mermai_node st) = (ok, node)"
    "\<forall>fds. sockets_fresh (net pf) fds"
  shows "(\<not> ok \<or> \<not> can_listen (net pf) [] (set_p2p_port st) \<longrightarrow> main_program ossl now pf args = Exit_code 1) \<and>
    (ok \<and> can_listen (net pf) [] (set_p2p_port st) \<longrightarrow>
      (if can_listen (net pf) [the (os_socket (net pf) [])] (set_rpc_port st)
       then \<exists>node' n r. main_program ossl now pf args = Running_node node' \<and> mn_running node' \<and> mn_state node' = mn_state node \<and>
         mn_p2p node' = Some n \<and> listening n \<and> mn_rpc node' = Some r \<and> server_running r \<and> servers_ok (n, r, mn_fds node')
       else main_program ossl now pf args = (if p2p_pending pf = None then Hangs else Exit_code 1)))"
proof -
  have fresh: "sockets_fresh (net pf) fds" for fds using assms(3) by simp
  have frame: "mn_p2p node = None" "mn_rpc node = None" "mn_fds node = []"
    using load_state_frame [of ossl now pf "new_mermai_node st"] assms(2) by (simp_all add: new_mermai_node_def)
  note init = initialize_cases [OF assms(2) fresh]
  show ?thesis
  proof (cases "ok \<and> can_listen (net pf) [] (set_p2p_port st) \<and> can_listen (net pf) [the (os_socket (net pf) [])] (set_rpc_port st)")
    case True
    then have "the (os_socket (net pf) []) \<noteq> 0" "fresh_handle (the (os_socket (net pf) [the (os_socket (net pf) [])])) [the (os_socket (net pf) [])]"
      using fresh [of "[]"] fresh [of "[the (os_socket (net pf) [])]"] by (auto simp: can_listen_def sockets_fresh_def fresh_handle_def)
    with True show ?thesis
      by (simp add: main_program_def assms(1) init start_node_def servers_ok_def fresh_handle_def Let_def)
  next
    case False
    then show ?thesis using frame
      by (auto simp: main_program_def assms(1) init destroy_node_def destroy_rpc_server_def stop_server_def destroy_p2p_node_def
          p2p_stop_def new_node_def new_rpc_server_def Let_def split: option.splits prod.splits)
  qed
qed

section \<open>Producing blocks\<close>

lemma slot_of_slot: "slot_of (slot_of t) = slot_of t" "slot_of t \<le> t"
proof -
  have u: "unat (slot_of t) = unat t - unat t mod 10"
    by (simp add: slot_of_def unat_sub word_le_nat_alt unat_mod)
  then have "unat (slot_of t) mod 10 = 0" by (simp add: minus_mod_eq_mult_div)
  then have "slot_of t mod 10 = 0" by (simp add: word_unat_eq_iff unat_mod)
  then show "slot_of (slot_of t) = slot_of t" by (simp add: slot_of_def)
  show "slot_of t \<le> t" using u by (simp add: word_le_nat_alt)
qed

text \<open>The situation of the loop: \<open>v\<close> is the selected validator, the chain can be extended in this slot,
  and nothing was proposed for it yet.\<close>

definition slot_open :: "'k openssl \<Rightarrow> u64 \<Rightarrow> MermaiNode \<Rightarrow> mermai_time_weighted_pos \<Rightarrow> mermai_blockchain \<Rightarrow> mermai_validator_stake \<Rightarrow> bool" where
  "slot_open ossl now node c bc v \<longleftrightarrow>
     consensus_engine (ns_env (mn_state node)) = Some c \<and> ns_chain (mn_state node) = Some bc \<and>
     select_block_proposer ossl c (slot_of now) = v_address v \<and> v_address v \<noteq> [] \<and>
     find (\<lambda>u. v_address u = v_address v) (validators c) = Some v \<and> 0 < v_amount v \<and>
     chain bc \<noteq> [] \<and> length (chain bc) < 2 ^ 32 \<and> block_hash_hex ossl (last (chain bc)) \<noteq> [] \<and>
     blk_timestamp (last (chain bc)) \<le> slot_of now \<and> slot_of now \<le> now + 120 \<and>
     omap_find (seen_props (ns_env (mn_state node))) (of_nat (length (chain bc)), slot_of now) = None"

definition slot_block :: "'k openssl \<Rightarrow> u64 \<Rightarrow> mermai_time_weighted_pos \<Rightarrow> mermai_blockchain \<Rightarrow> mermai_validator_stake \<Rightarrow> mermai_block" where
  "slot_block ossl now c bc v = produced_block ossl now c (v_address v) bc (last (chain bc))"

lemma slot_block_fields:
  assumes "slot_open ossl now node c bc v"
  shows "height (slot_block ossl now c bc v) = of_nat (length (chain bc))"
    "blk_timestamp (slot_block ossl now c bc v) = slot_of now" "validator_address (slot_block ossl now c bc v) = v_address v"
    "transactions (slot_block ossl now c bc v) = []" "merkle_root (slot_block ossl now c bc v) = []"
    "validator_signature (slot_block ossl now c bc v) = []" "validator_stake (slot_block ossl now c bc v) = v_amount v"
    "validator_age (slot_block ossl now c bc v) = (if slot_of now \<ge> lock_time v then slot_of now - lock_time v else 0)"
    "prev_block_hash (slot_block ossl now c bc v) = block_hash_hex ossl (last (chain bc))"
proof -
  have "of_nat (length (chain bc) - 1) + 1 = (of_nat (length (chain bc)) :: u32)"
    using assms by (cases "chain bc") (auto simp: slot_open_def)
  then show "height (slot_block ossl now c bc v) = of_nat (length (chain bc))"
    using assms by (simp add: slot_open_def slot_block_def produced_block_def new_block_def get_height_def Let_def)
  have "slot_of now > lock_time v \<longleftrightarrow> slot_of now \<ge> lock_time v \<and> slot_of now \<noteq> lock_time v" by auto
  then show "validator_age (slot_block ossl now c bc v) = (if slot_of now \<ge> lock_time v then slot_of now - lock_time v else 0)"
    using assms by (simp add: slot_open_def slot_block_def produced_block_def new_block_def Let_def)
qed (use assms in \<open>simp_all add: slot_open_def slot_block_def produced_block_def new_block_def Let_def\<close>)

lemma slot_block_checked:
  assumes "slot_open ossl now node c bc v"
  shows "can_add_block ossl now (Some (slot_block ossl now c bc v)) bc (ns_env (mn_state node)) =
    (v_public_key v = [], (ns_env (mn_state node))\<lparr>seen_props := omap_put (of_nat (length (chain bc)), slot_of now)
       (block_hash_hex ossl (slot_block ossl now c bc v)) (seen_props (ns_env (mn_state node)))\<rparr>)"
proof -
  let ?b = "slot_block ossl now c bc v"
  note f = slot_block_fields [OF assms]
  have "float_of_u64 (v_amount v) > 0" using assms float_of_u64_pos [of "v_amount v"] by (simp add: slot_open_def)
  then have w: "0 < calculate_weight v (slot_of now)" using calculate_weight_ge [of v "slot_of now"] by linarith
  have n: "unat (of_nat (length (chain bc)) :: u32) = length (chain bc)"
    using assms by (simp add: slot_open_def unat_of_nat take_bit_nat_eq_self)
  have m: "proposal_matches ossl ?b c (v_address v) (slot_of now) \<longleftrightarrow> v_public_key v = []"
    using assms f w by (auto simp: slot_open_def proposal_matches_def verify_validator_signature_def verify_proposer_is_authorized_def Let_def)
  show ?thesis
    using assms f n m
    by (auto simp: slot_open_def can_add_block_def consult_validator_def validate_proposal_Some slot_of_slot verify_time_weight_pos_def
        check_merkle_root_def Let_def)
qed

text \<open>C31: The production loop frames the proposer. When the validator selected for an open slot registered
  a public key, the loop of every node builds an unsigned block in its name, which is refused (the chain
  and the database stay as they are) but recorded: afterwards the block that validator really proposes
  for the slot is refused as an equivocation and half of its stake is taken.
\<close>

theorem production_frames_keyed_proposer:
  assumes "slot_open ossl now node c bc v" "v_public_key v \<noteq> []"
    and "validator_address b' = v_address v" "height b' = of_nat (length (chain bc))" "slot_of (blk_timestamp b') = slot_of now"
    and "block_hash_hex ossl b' \<noteq> block_hash_hex ossl (slot_block ossl now c bc v)"
  shows "\<exists>env. consensus_turn ossl now junk node = (False, node\<lparr>mn_state := (mn_state node)\<lparr>ns_env := env\<rparr>\<rparr>) \<and>
    consult_validator ossl b' env = (False, env\<lparr>consensus_engine := Some (slash_validator (v_address v) (1 / 2) c)\<rparr>)"
proof -
  let ?b = "slot_block ossl now c bc v"
  let ?env = "(ns_env (mn_state node))\<lparr>seen_props := omap_put (of_nat (length (chain bc)), slot_of now) (block_hash_hex ossl ?b)
    (seen_props (ns_env (mn_state node)))\<rparr>"
  have "accept_block ossl now ?b (mn_state node) = (False, (mn_state node)\<lparr>ns_env := ?env\<rparr>)"
    using assms(1,2) slot_block_checked [OF assms(1)] by (auto simp: slot_open_def accept_block_def)
  moreover have "get_latest_block bc = Some (last (chain bc))" using assms(1) by (simp add: slot_open_def get_latest_block_def)
  ultimately have t: "consensus_turn ossl now junk node = (False, node\<lparr>mn_state := (mn_state node)\<lparr>ns_env := ?env\<rparr>\<rparr>)"
    using assms(1) by (simp add: slot_open_def consensus_turn_def slot_block_def Let_def)
  have "consult_validator ossl b' ?env = (False, ?env\<lparr>consensus_engine := Some (slash_validator (v_address v) (1 / 2) c)\<rparr>)"
    using assms by (auto simp: slot_open_def consult_validator_def validate_proposal_Some Let_def)
  with t show ?thesis by blast
qed

lemma apply_empty_block:
  assumes "transactions b = []" "no_faults db" "saved db = None" "db_connection db" "''blocks'' \<in> set (schema db)"
  shows "apply_block ossl now (Some b) db =
    (True, db\<lparr>tables := insert_block_row (block_hash_hex ossl b) (new_block_row b) (tables db)\<rparr>)"
  using assms by (cases db) (simp add: apply_block_def exec_begin_def exec_commit_def save_block_def run_def next_fault_def no_faults_def Let_def)

lemma reward_of_empty_block:
  "transactions b = [] \<Longrightarrow> get_pending_rewards (finalize_block (Some b) p c) (validator_address b) =
     get_pending_rewards c (validator_address b) + get_base_reward (height b)"
  by (simp add: finalize_block_def calculate_block_rewards_def distribute_fees_def add_reward_def get_pending_rewards_def omap_at_def
      split: option.splits)

text \<open>One turn of the loop, when the validator selected for an open slot registered no key and the database works.\<close>

lemma keyless_turn:
  assumes "slot_open ossl now node c bc v" "v_public_key v = []"
    and "ns_db (mn_state node) = Some db" "no_faults db" "saved db = None" "db_connection db" "''blocks'' \<in> set (schema db)"
  shows "consensus_turn ossl now junk node = (True, finish_block junk (slot_block ossl now c bc v) (v_address v) (node\<lparr>mn_state :=
    (mn_state node)\<lparr>
      ns_env := (ns_env (mn_state node))\<lparr>seen_props := omap_put (of_nat (length (chain bc)), slot_of now)
        (block_hash_hex ossl (slot_block ossl now c bc v)) (seen_props (ns_env (mn_state node)))\<rparr>,
      ns_db := Some (db\<lparr>tables := insert_block_row (block_hash_hex ossl (slot_block ossl now c bc v))
        (new_block_row (slot_block ossl now c bc v)) (tables db)\<rparr>),
      ns_chain := Some (bc\<lparr>chain := chain bc @ [slot_block ossl now c bc v]\<rparr>)\<rparr>\<rparr>))"
proof -
  let ?b = "slot_block ossl now c bc v"
  note f = slot_block_fields [OF assms(1)]
  let ?env = "(ns_env (mn_state node))\<lparr>seen_props := omap_put (of_nat (length (chain bc)), slot_of now) (block_hash_hex ossl ?b)
    (seen_props (ns_env (mn_state node)))\<rparr>"
  have can: "can_add_block ossl now (Some ?b) bc (ns_env (mn_state node)) = (True, ?env)"
    using slot_block_checked [OF assms(1)] assms(2) by simp
  have add: "add_block ossl now (Some ?b) (bc, ?env) = (True, bc\<lparr>chain := chain bc @ [?b]\<rparr>, ?env)"
    using can_add_block_again [OF can] by (simp add: add_block_def)
  have o: "consensus_engine (ns_env (mn_state node)) = Some c" "ns_chain (mn_state node) = Some bc"
      "select_block_proposer ossl c (slot_of now) = v_address v" "v_address v \<noteq> []" "get_latest_block bc = Some (last (chain bc))"
    using assms(1) by (simp_all add: slot_open_def get_latest_block_def)
  let ?w = "(mn_state node)\<lparr>ns_env := ?env, ns_db := Some (db\<lparr>tables := insert_block_row (block_hash_hex ossl ?b) (new_block_row ?b) (tables db)\<rparr>),
    ns_chain := Some (bc\<lparr>chain := chain bc @ [?b]\<rparr>)\<rparr>"
  have "accept_block ossl now ?b (mn_state node) = (True, ?w)"
    using can add apply_empty_block [OF f(4) assms(4-7), of ossl now] by (simp add: accept_block_def o(2) assms(3))
  then show ?thesis using o by (simp add: consensus_turn_def slot_block_def [symmetric] Let_def)
qed

text \<open>Progress. When the validator selected for an open slot registered no key and the database works,
  one turn of the production loop extends the chain by an empty block in its name, stores that block
  under its height, and credits the validator with the subsidy of the height.
\<close>

theorem keyless_proposer_produces:
  assumes "slot_open ossl now node c bc v" "v_public_key v = []"
    and "ns_db (mn_state node) = Some db" "no_faults db" "saved db = None" "db_connection db" "''blocks'' \<in> set (schema db)"
  shows "\<exists>node' c'. consensus_turn ossl now junk node = (True, node') \<and>
    ns_chain (mn_state node') = Some (bc\<lparr>chain := chain bc @ [slot_block ossl now c bc v]\<rparr>) \<and>
    ns_db (mn_state node') = Some (db\<lparr>tables := insert_block_row (block_hash_hex ossl (slot_block ossl now c bc v))
      (new_block_row (slot_block ossl now c bc v)) (tables db)\<rparr>) \<and>
    consensus_engine (ns_env (mn_state node')) = Some c' \<and>
    get_pending_rewards c' (v_address v) = get_pending_rewards c (v_address v) + get_base_reward (of_nat (length (chain bc)))"
proof -
  let ?b = "slot_block ossl now c bc v"
  note f = slot_block_fields [OF assms(1)]
  have "get_pending_rewards (finalize_block (Some ?b) (v_address v) c) (v_address v) =
      get_pending_rewards c (v_address v) + get_base_reward (of_nat (length (chain bc)))"
    using reward_of_empty_block [OF f(4), of "v_address v" c] f(1,3) by simp
  moreover have "consensus_engine (ns_env (mn_state node)) = Some c" using assms(1) by (simp add: slot_open_def)
  ultimately show ?thesis using keyless_turn [OF assms] by (simp add: finish_block_def)
qed

text \<open>
  One other proposal recorded for the height and the slot is enough to spoil the turn: the block of the
  loop is refused as an equivocation, and the chain and the database stay as they are.
\<close>

lemma can_add_block_True:
  assumes "can_add_block ossl now (Some b) bc env = (True, env')"
  shows "unat (height b) = length (chain bc)" "prev_block_hash b = block_hash_hex ossl (last (chain bc))"
    "blk_timestamp (last (chain bc)) \<le> blk_timestamp b" "verify_time_weight_pos b" "consult_validator ossl b env = (True, env')"
    "length (transactions b) \<le> MAX_BLOCK_TRANSACTIONS" "check_merkle_root ossl b" "check_transactions ossl now {} (transactions b)"
  using assms by (auto simp: can_add_block_def Let_def not_less split: if_splits prod.splits)

lemma recorded_proposal_blocks_turn:
  assumes "consensus_engine (ns_env (mn_state node)) = Some c" "ns_chain (mn_state node) = Some bc" "chain bc \<noteq> []"
    and "omap_find (seen_props (ns_env (mn_state node))) (of_nat (length (chain bc)), slot_of now) = Some h"
    and "h \<noteq> block_hash_hex ossl (produced_block ossl now c (select_block_proposer ossl c (slot_of now)) bc (last (chain bc)))"
  shows "\<exists>env. consensus_turn ossl now junk node = (False, node\<lparr>mn_state := (mn_state node)\<lparr>ns_env := env\<rparr>\<rparr>)"
proof -
  let ?b = "produced_block ossl now c (select_block_proposer ossl c (slot_of now)) bc (last (chain bc))"
  have "of_nat (length (chain bc) - 1) + 1 = (of_nat (length (chain bc)) :: u32)" using assms(3) by (cases "chain bc") auto
  then have f: "height ?b = of_nat (length (chain bc))" "blk_timestamp ?b = slot_of now"
    using assms(3) by (auto simp: produced_block_def new_block_def get_height_def Let_def split: option.splits)
  obtain can env where ca: "can_add_block ossl now (Some ?b) bc (ns_env (mn_state node)) = (can, env)" by fastforce
  have "\<not> can"
  proof
    assume can
    with ca have "consult_validator ossl ?b (ns_env (mn_state node)) = (True, env)" by (auto dest: can_add_block_True(5))
    then have "fst (validate_proposal ossl (Some ?b) (slot_of now) (c, seen_props (ns_env (mn_state node))))"
      using assms(1) f by (auto simp: consult_validator_def split: prod.splits)
    then show False using assms(4,5) f by (simp add: accepted_iff slot_of_slot)
  qed
  with ca have "accept_block ossl now ?b (mn_state node) = (False, (mn_state node)\<lparr>ns_env := env\<rparr>)"
    by (simp add: accept_block_def assms(2))
  moreover have "\<exists>env. node = node\<lparr>mn_state := (mn_state node)\<lparr>ns_env := env\<rparr>\<rparr>"
    by (rule exI [of _ "ns_env (mn_state node)"]) simp
  ultimately show ?thesis using assms(1-3) by (auto simp: consensus_turn_def get_latest_block_def Let_def)
qed

section \<open>Progress of the production loop\<close>

text \<open>A node on which nothing stands in the way of production from the slot \<open>t\<close> on: its validators, at least one,
  have stake and no key, nothing was proposed above the tip, and the database works.\<close>

definition producing :: "u64 \<Rightarrow> MermaiNode \<Rightarrow> mermai_blockchain \<Rightarrow> bool" where
  "producing t node bc \<longleftrightarrow>
     mn_running node \<and> ns_chain (mn_state node) = Some bc \<and> chain bc \<noteq> [] \<and> blk_timestamp (last (chain bc)) \<le> t \<and>
     (\<exists>c. consensus_engine (ns_env (mn_state node)) = Some c \<and> registry_inv c \<and> validators c \<noteq> [] \<and>
        list_all (\<lambda>v. v_public_key v = [] \<and> 0 < v_amount v) (validators c)) \<and>
     (\<forall>h s. omap_find (seen_props (ns_env (mn_state node))) (h, s) \<noteq> None \<longrightarrow> unat h < length (chain bc)) \<and>
     (\<exists>db. ns_db (mn_state node) = Some db \<and> no_faults db \<and> saved db = None \<and> db_connection db \<and> ''blocks'' \<in> set (schema db))"

lemma pick_proposer_mem: "pick_proposer r acc ws = Some a \<Longrightarrow> a \<in> fst ` set ws"
  by (induction r acc ws rule: pick_proposer.induct) (auto simp: Let_def split: if_splits)

lemma proposer_is_validator:
  assumes "validators c \<noteq> []"
  shows "\<exists>v\<in>set (validators c). select_block_proposer ossl c t = v_address v"
proof -
  have ws: "fst ` set (weigh c t) = v_address ` set (validators c)" "weigh c t \<noteq> []"
    using assms by (auto simp: weigh_def image_image)
  have "select_block_proposer ossl c t \<in> v_address ` set (validators c)"
  proof (cases "total_weight (weigh c t) \<le> 0")
    case False
    then show ?thesis
      using assms ws pick_proposer_mem [of "random_value ossl t (weigh c t)" 0 "weigh c t"]
      by (simp add: select_block_proposer_def Let_def split: option.splits flip: ws(1))
  qed (use assms in \<open>simp add: select_block_proposer_def\<close>)
  then show ?thesis by blast
qed

lemma find_distinct:
  "distinct (map f xs) \<Longrightarrow> x \<in> set xs \<Longrightarrow> find (\<lambda>y. f y = f x) xs = Some x"
  by (induction xs) (auto simp: image_iff)

lemma update_first_all:
  "list_all P xs \<Longrightarrow> (\<And>x. P x \<Longrightarrow> P (f x)) \<Longrightarrow> list_all P (update_first Q f xs)"
  by (induction xs) auto

lemma update_first_Nil [simp]: "update_first Q f xs = [] \<longleftrightarrow> xs = []"
  by (cases xs) auto

lemma producing_slot_open:
  assumes "producing t node bc" "t \<le> slot_of now" "now \<le> now + 120" "length (chain bc) < 2 ^ 32" "sha_length ossl"
  obtains c v where "slot_open ossl now node c bc v" "v_public_key v = []" "consensus_engine (ns_env (mn_state node)) = Some c"
proof -
  from assms(1) obtain c where c: "consensus_engine (ns_env (mn_state node)) = Some c" "registry_inv c" "validators c \<noteq> []"
      "list_all (\<lambda>v. v_public_key v = [] \<and> 0 < v_amount v) (validators c)" by (auto simp: producing_def)
  obtain v where v: "v \<in> set (validators c)" "select_block_proposer ossl c (slot_of now) = v_address v"
    using proposer_is_validator [OF c(3), of ossl] by blast
  have "find (\<lambda>u. v_address u = v_address v) (validators c) = Some v"
    using find_distinct [of v_address "validators c" v] c(2) v(1) by (simp add: registry_inv_def)
  moreover have "v_public_key v = []" "0 < v_amount v" using c(4) v(1) by (auto simp: list_all_iff)
  moreover have "v_address v \<noteq> []" using c(2) v(1) by (force simp: registry_inv_def)
  moreover have "length (block_hash_hex ossl b) = 64" for b
    using assms(5) by (simp add: block_hash_hex_def calculate_hash_def sha_length_def)
  then have "block_hash_hex ossl b \<noteq> []" for b by (metis list.size(3) zero_neq_numeral)
  moreover have "omap_find (seen_props (ns_env (mn_state node))) (of_nat (length (chain bc)), slot_of now) = None"
  proof -
    have "unat (of_nat (length (chain bc)) :: u32) = length (chain bc)"
      using assms(4) by (simp add: unat_of_nat take_bit_nat_eq_self)
    with assms(1) show ?thesis unfolding producing_def by (metis less_irrefl)
  qed
  moreover have "slot_of now \<le> now + 120" using slot_of_slot(2) [of now] assms(3) by (rule order_trans)
  ultimately have "slot_open ossl now node c bc v"
    using assms(1,2,4) c(1) v(2) by (auto simp: producing_def slot_open_def)
  with that c(1) \<open>v_public_key v = []\<close> show ?thesis by blast
qed

lemma producing_turn:
  assumes "producing t node bc" "t \<le> slot_of now" "now \<le> now + 120" "length (chain bc) < 2 ^ 32" "sha_length ossl"
  shows "\<exists>b. producing (slot_of now) (snd (consensus_turn ossl now junk node)) (bc\<lparr>chain := chain bc @ [b]\<rparr>) \<and>
    transactions b = [] \<and> blk_timestamp b = slot_of now \<and> height b = of_nat (length (chain bc))"
proof -
  obtain c v where cv: "slot_open ossl now node c bc v" "v_public_key v = []" "consensus_engine (ns_env (mn_state node)) = Some c"
    using producing_slot_open [OF assms] .
  let ?b = "slot_block ossl now c bc v"
  from assms(1) obtain db where db: "ns_db (mn_state node) = Some db" "no_faults db" "saved db = None" "db_connection db"
    "''blocks'' \<in> set (schema db)" by (auto simp: producing_def)
  note turn = keyless_turn [OF cv(1,2) db, of junk] and f = slot_block_fields [OF cv(1)]
  let ?c = "finalize_block (Some ?b) (v_address v) c"
  have c: "registry_inv c" "validators c \<noteq> []" "list_all (\<lambda>v. v_public_key v = [] \<and> 0 < v_amount v) (validators c)"
    using assms(1) cv(3) by (auto simp: producing_def)
  have "registry_inv ?c" by (rule penalties_inv(4) [OF c(1)])
  moreover have "validators ?c \<noteq> []" "list_all (\<lambda>v. v_public_key v = [] \<and> 0 < v_amount v) (validators ?c)"
    using c update_first_all [OF c(3)] by (simp_all add: finalize_block_def)
  moreover have "unat h < Suc (length (chain bc))"
    if "omap_find (omap_put (of_nat (length (chain bc)), slot_of now) x (seen_props (ns_env (mn_state node)))) (h, s) \<noteq> None" for h s x
  proof (cases "omap_find (seen_props (ns_env (mn_state node))) (h, s) = None")
    case True
    then show ?thesis using that assms(4) by (auto simp: unat_of_nat take_bit_nat_eq_self split: if_splits)
  next
    case False
    then show ?thesis using assms(1) unfolding producing_def by (metis less_SucI)
  qed
  ultimately have "producing (slot_of now) (snd (consensus_turn ossl now junk node)) (bc\<lparr>chain := chain bc @ [?b]\<rparr>)"
    unfolding turn using assms(1) db cv(3) f(2) by (simp add: producing_def finish_block_def no_faults_def)
  with f show ?thesis by blast
qed

text \<open>C26: The production loop makes progress. Consider a running node whose validators (at least one) have stake, different
  addresses and no key, with a database on which no statement fails and no transaction is open, where no proposal is recorded for
  the next height or above, and where the timestamp of the tip is at most the slot of the first turn. If the clock does
  not run backwards (nor within 120 seconds of the end of its 64 bits) and SHA-256 yields 32 bytes, every turn of the loop
  appends one block, whichever validator is selected: after any number of turns the chain is the old one followed by one
  empty block per turn, at the next heights, with the slots of the turns as timestamps (up to the \<open>2^32\<close> heights a block can
  carry). A proposal recorded earlier for the same height and slot blocks the turn: \<open>recorded_proposal_blocks_turn\<close>.
\<close>

theorem production_loop_progress:
  assumes "producing t node bc" "sha_length ossl" "sorted (t # map (slot_of \<circ> fst) turns)"
    "\<forall>(now, junk) \<in> set turns. now \<le> now + 120" "length (chain bc) + length turns \<le> 2 ^ 32"
  shows "\<exists>bs. ns_chain (mn_state (consensus_loop ossl turns node)) = Some (bc\<lparr>chain := chain bc @ bs\<rparr>) \<and>
    map blk_timestamp bs = map (slot_of \<circ> fst) turns \<and> list_all (\<lambda>b. transactions b = []) bs \<and>
    map height bs = map of_nat [length (chain bc)..<length (chain bc) + length turns]"
  using assms
proof (induction turns arbitrary: t node bc)
  case Nil
  then show ?case by (simp add: producing_def)
next
  case (Cons turn turns)
  obtain now junk where turn: "turn = (now, junk)" by fastforce
  have "t \<le> slot_of now" "now \<le> now + 120" "length (chain bc) < 2 ^ 32" using Cons.prems(3-5) by (auto simp: turn)
  from producing_turn [OF Cons.prems(1) this Cons.prems(2), of junk] obtain b where
    b: "producing (slot_of now) (snd (consensus_turn ossl now junk node)) (bc\<lparr>chain := chain bc @ [b]\<rparr>)"
      "transactions b = []" "blk_timestamp b = slot_of now" "height b = of_nat (length (chain bc))" by blast
  have "mn_running node" using Cons.prems(1) by (simp add: producing_def)
  moreover obtain bs where "ns_chain (mn_state (consensus_loop ossl turns (snd (consensus_turn ossl now junk node)))) =
      Some (bc\<lparr>chain := chain bc @ [b] @ bs\<rparr>)" "map blk_timestamp bs = map (slot_of \<circ> fst) turns"
      "list_all (\<lambda>b. transactions b = []) bs" "map height bs = map of_nat [Suc (length (chain bc))..<Suc (length (chain bc)) + length turns]"
    using Cons.IH [OF b(1) Cons.prems(2)] Cons.prems(3-5) by (auto simp: turn)
  ultimately show ?case using b(2-4) by (intro exI [of _ "b # bs"]) (simp add: turn upt_conv_Cons del: upt_Suc)
qed

section \<open>A concrete node\<close>

definition demo_os :: net_os where
  "demo_os = \<lparr>os_socket = (\<lambda>fds. Some (Suc (foldr max fds 2))), os_bind = (\<lambda>fds p. True), os_listen = (\<lambda>fds p. True)\<rparr>"

lemma demo_os_fresh: "sockets_fresh (demo_os\<lparr>os_bind := b\<rparr>) fds"
proof -
  have "h \<le> foldr max fds 2" if "h \<in> set fds" for h
    using that by (induction fds) (auto simp: le_max_iff_disj)
  then show ?thesis by (fastforce simp: sockets_fresh_def demo_os_def fresh_handle_def)
qed

definition demo_platform :: platform where
  "demo_platform = \<lparr>db_file = (\<lambda>_. ([], empty_tables, [])), db_opens = True, net = demo_os, p2p_pending = None, rpc_pending = None,
     genesis_file = (\<lambda>_. None)\<rparr>"

definition loaded :: MermaiNode where
  "loaded = snd (load_state toy_ossl 1640000005 demo_platform (new_mermai_node default_settings))"

definition started :: MermaiNode where
  "started = loaded\<lparr>
     mn_p2p := Some ((new_node 1640000005 6333)\<lparr>listen_socket := 3, listening := True, listener_thread := Accepting\<rparr>),
     mn_rpc := Some ((new_rpc_server 6334)\<lparr>server_socket := 4, server_running := True, server_thread := Accepting\<rparr>),
     mn_fds := [4, 3]\<rparr>"

lemma db_opened: "db_initialize True (new_db [] empty_tables []) =
    (True, \<lparr>schema = [''blocks'', ''transactions'', ''utxos'', ''accounts'', ''validators'', ''validators.public_key'', ''contract_storage'',
      ''contracts'', ''mempool'', ''state_roots''], tables = empty_tables, saved = None, faults = [], db_connection = True\<rparr>)"
  by (simp add: db_initialize_def new_db_def schema_statements_def create_table_def has_column_def update_def query_def run_def
      next_fault_def done_or_def Let_def)

lemma started_restore: "restore_chain toy_ossl now \<lparr>schema = ''blocks'' # names, tables = empty_tables, saved = None, faults = [],
    db_connection = True\<rparr> s = (True, \<lparr>schema = ''blocks'' # names, tables = empty_tables, saved = None, faults = [], db_connection = True\<rparr>, s)"
  by (simp add: restore_chain_def get_latest_block_height_def query_def run_def next_fault_def done_or_def empty_tables_def)

lemma loaded_ok: "load_state toy_ossl 1640000005 demo_platform (new_mermai_node default_settings) = (True, loaded)"
proof -
  have "fst (load_state toy_ossl 1640000005 demo_platform (new_mermai_node default_settings))"
    by (simp add: load_state_def demo_platform_def new_mermai_node_def default_settings_def db_opened started_restore
        get_all_validators_def query_def run_def next_fault_def done_or_def Let_def) (simp add: empty_tables_def started_restore [unfolded empty_tables_def])
  then show ?thesis by (simp add: loaded_def prod_eq_iff)
qed

lemma loaded_frame: "mn_settings loaded = default_settings" "mn_fds loaded = []"
  by (auto simp: loaded_def load_state_def new_mermai_node_def demo_platform_def case_prod_beta Let_def)

lemma started_ok: "initialize toy_ossl 1640000005 demo_platform (new_mermai_node default_settings) = Returns (True, started)"
  unfolding initialize_def loaded_ok
  by (simp add: start_servers_def loaded_frame start_listening_def start_server_def started_def
      demo_platform_def demo_os_def new_node_def new_rpc_server_def default_settings_def)

text \<open>The started node, its loops started, after one turn of block production.\<close>

definition after_turn :: MermaiNode where
  "after_turn = snd (consensus_turn toy_ossl 1640000005 0 (start_node started))"

theorem running_node_invariant_witness:
  "\<exists>bc c db. ns_chain (mn_state after_turn) = Some bc \<and> chain_ok toy_ossl (chain bc) \<and> is_chain_valid toy_ossl bc \<and>
    consensus_engine (ns_env (mn_state after_turn)) = Some c \<and> distinct (map v_address (validators c)) \<and>
    [] \<notin> set (map v_address (validators c)) \<and>
    ns_db (mn_state after_turn) = Some db \<and> utxos_table (tables db) = [] \<and>
    list_all (\<lambda>b. transactions b = []) (chain bc)"
proof -
  let ?start = "\<lambda>node. \<exists>now pf node0. first_run pf (mn_settings node0) \<and> initialize toy_ossl now pf node0 = Returns (True, node)"
  have "first_run demo_platform (mn_settings (new_mermai_node default_settings))"
    by (simp add: first_run_def demo_platform_def empty_tables_def)
  with started_ok have "reach ?start (node_step toy_ossl demo_machine) started" by (blast intro: reach_start)
  then have "reach ?start (node_step toy_ossl demo_machine) (start_node started)" by (blast intro: reach_step node_starts)
  then have "reach ?start (node_step toy_ossl demo_machine) after_turn"
    unfolding after_turn_def by (rule reach_step) (simp add: node_produces start_node_def)
  then show ?thesis by (rule running_node_invariant)
qed

text \<open>The ports of this platform: only the first can be listened on.\<close>

definition busy_platform :: "client option option \<Rightarrow> platform" where
  "busy_platform pending = demo_platform\<lparr>net := demo_os\<lparr>os_bind := (\<lambda>fds p. p = 6333)\<rparr>, p2p_pending := pending\<rparr>"

theorem startup_outcome_witness:
  "main_program toy_ossl 1640000005 (busy_platform None) [] = Hangs \<and>
   main_program toy_ossl 1640000005 (busy_platform (Some None)) [] = Exit_code 1"
proof -
  have "parse_args default_settings [] = Run_with default_settings" by simp
  moreover have "load_state toy_ossl 1640000005 (busy_platform pending) (new_mermai_node default_settings) = (True, loaded)" for pending
    using loaded_ok by (simp add: load_state_def busy_platform_def demo_platform_def)
  moreover have "\<forall>fds. sockets_fresh (net (busy_platform pending)) fds" for pending
    by (simp add: busy_platform_def demo_os_fresh)
  ultimately show ?thesis
    using startup_outcome [of "[]" default_settings toy_ossl 1640000005 "busy_platform None" True loaded]
      startup_outcome [of "[]" default_settings toy_ossl 1640000005 "busy_platform (Some None)" True loaded]
    by (simp add: can_listen_def busy_platform_def demo_platform_def demo_os_def default_settings_def)
qed

text \<open>The started node after one validator registered: \<open>solo\<close> has a key, \<open>keyless\<close> has none.\<close>

definition with_engine :: "mermai_time_weighted_pos \<Rightarrow> MermaiNode" where
  "with_engine c = started\<lparr>mn_state :=
     \<lparr>ns_chain = Some (new_blockchain 0), ns_env = \<lparr>consensus_engine = Some c, seen_props = []\<rparr>,
      ns_db = Some (demo_db []), ns_quorum = Some new_collector\<rparr>\<rparr>"

definition keyless :: mermai_time_weighted_pos where
  "keyless = set_validators [(hd (validators solo))\<lparr>v_public_key := []\<rparr>] solo"

lemma sole_proposer: "validators c = [v] \<Longrightarrow> select_block_proposer ossl c t = v_address v"
  using proposer_is_validator [of c ossl t] by simp

lemma keyless_proposer: "select_block_proposer toy_ossl keyless t = ''alice''"
  using sole_proposer [of keyless _ toy_ossl t] by (simp add: keyless_def solo_validators)

lemma demo_slot_open:
  assumes "select_block_proposer toy_ossl c (slot_of 1640000005) = ''alice''" "validators c = [v]" "v_address v = ''alice''" "v_amount v = 2000000"
  shows "slot_open toy_ossl 1640000005 (with_engine c) c (new_blockchain 0) v"
  using assms by (simp add: slot_open_def with_engine_def new_blockchain_def genesis_block_def new_block_def slot_of_def)

lemma keyless_rewards: "get_pending_rewards keyless a = 0"
  by (simp add: get_pending_rewards_def keyless_def set_validators_def solo_def register_validator_def add_validator_def
      new_pos_def toy_ossl_def Let_def)

theorem keyless_proposer_produces_witness:
  "\<exists>node' c'. consensus_turn toy_ossl 1640000005 0 (with_engine keyless) = (True, node') \<and>
    consensus_engine (ns_env (mn_state node')) = Some c' \<and> get_pending_rewards c' ''alice'' = 50000000"
proof -
  let ?v = "(hd (validators solo))\<lparr>v_public_key := []\<rparr>"
  have "slot_open toy_ossl 1640000005 (with_engine keyless) keyless (new_blockchain 0) ?v"
    by (rule demo_slot_open) (simp_all add: keyless_proposer, simp_all add: keyless_def solo_validators)
  moreover have "v_public_key ?v = []" "v_address ?v = ''alice''" by (simp_all add: solo_validators)
  moreover have "ns_db (mn_state (with_engine keyless)) = Some (demo_db [])" by (simp add: with_engine_def)
  moreover have "no_faults (demo_db [])" "saved (demo_db []) = None" "db_connection (demo_db [])" "''blocks'' \<in> set (schema (demo_db []))"
    by (simp_all add: no_faults_def demo_db_def)
  ultimately obtain node' c' where "consensus_turn toy_ossl 1640000005 0 (with_engine keyless) = (True, node')"
    "consensus_engine (ns_env (mn_state node')) = Some c'" "get_pending_rewards c' ''alice'' = get_base_reward 1"
    using keyless_proposer_produces [of toy_ossl 1640000005 "with_engine keyless" keyless "new_blockchain 0" ?v "demo_db []" 0]
    by (auto simp: keyless_rewards new_blockchain_def)
  then show ?thesis by (auto simp: get_base_reward_def)
qed

lemma toy_hash_length: "length (block_hash_hex toy_ossl b) = 64"
  using toy_sha_length by (simp add: block_hash_hex_def calculate_hash_def sha_length_def)

text \<open>A restart on a file with one validator and the block it proposed.\<close>

definition alice_row :: validator_row where
  "alice_row = \<lparr>row_stake = 2000000, row_lock_time = 10, row_last_proposal = 0, row_weight = 0, row_public_key = []\<rparr>"

definition alice :: mermai_validator_stake where
  "alice = validator_of_row ''alice'' alice_row"

definition alone :: mermai_time_weighted_pos where
  "alone = set_validators [alice] new_pos"

definition first_block :: mermai_block where
  "first_block = slot_block toy_ossl 1640000005 alone (new_blockchain 1640000005) alice"

definition kept_tables :: db_tables where
  "kept_tables = insert_block_row (block_hash_hex toy_ossl first_block) (new_block_row first_block)
     (empty_tables\<lparr>validators_table := [(''alice'', alice_row)]\<rparr>)"

definition kept_platform :: platform where
  "kept_platform = demo_platform\<lparr>db_file := (\<lambda>_. (''validators.public_key'' # all_tables, kept_tables, []))\<rparr>"

definition kept_db :: mermai_db where
  "kept_db = (new_db (''validators.public_key'' # all_tables) kept_tables [])\<lparr>db_connection := True\<rparr>"

lemma alice_fields: "v_address alice = ''alice''" "v_amount alice = 2000000" "lock_time alice = 10" "v_public_key alice = []"
  by (simp_all add: alice_def validator_of_row_def alice_row_def)

lemma alone_validators: "validators alone = [alice]" by (simp add: alone_def)

lemma first_open:
  "slot_open toy_ossl 1640000005
     ((new_mermai_node default_settings)\<lparr>mn_state := \<lparr>ns_chain = Some (new_blockchain 1640000005),
        ns_env = \<lparr>consensus_engine = Some alone, seen_props = []\<rparr>, ns_db = None, ns_quorum = None\<rparr>\<rparr>)
     alone (new_blockchain 1640000005) alice"
  using sole_proposer [OF alone_validators, of toy_ossl] toy_hash_length [of "genesis_block 1640000005"]
  by (auto simp: slot_open_def alone_validators alice_fields new_blockchain_def genesis_block_def new_block_def slot_of_def)

lemma first_block_ok: "block_ok first_block" "height first_block = 1"
  using slot_block_fields [OF first_open, folded first_block_def] toy_hash_length [of "genesis_block 1640000005"]
  by (simp_all add: block_ok_def string_ok_def bytes_ok_def serial_limits alice_fields new_blockchain_def)
    (simp add: first_block_def slot_block_def produced_block_def new_block_def alone_validators alice_fields Let_def)

lemma first_block_stored:
  "stored_height kept_tables = 1" "stored_block kept_tables 1 = Some first_block"
  "persisted_validators kept_tables = [alice]"
proof -
  have "serialize_block first_block \<noteq> []" by (simp add: serialize_block_def write_value_def)
  then show "stored_height kept_tables = 1" "stored_block kept_tables 1 = Some first_block" "persisted_validators kept_tables = [alice]"
    using first_block_ok deserialize_block_iff [of "serialize_block first_block" first_block]
    by (simp_all add: stored_height_def stored_block_def persisted_validators_def kept_tables_def insert_block_row_def new_block_row_def
        empty_tables_def decode_blob_def alice_def)
qed

lemma genesis_extends:
  assumes "can_add_block ossl now (Some b) (new_blockchain now) env = (True, env')"
  shows "replace_chain_if_longer ossl now [Some (genesis_block now), Some b] (new_blockchain now, env) =
    (True, (new_blockchain now)\<lparr>chain := [genesis_block now, b]\<rparr>, env')"
proof -
  have g: "chain (new_blockchain now) = [genesis_block now]" "height (genesis_block now) = 0" "prev_block_hash (genesis_block now) = zero_hash"
      "transactions (genesis_block now) = []" "check_merkle_root ossl (genesis_block now)"
    by (simp_all add: new_blockchain_def genesis_block_def new_block_def check_merkle_root_def)
  note c = can_add_block_True [OF assms, unfolded g]
  have "height b = 1" using c(1) by (simp add: word_unat_eq_iff)
  with c g show ?thesis by (simp add: replace_chain_if_longer_def Let_def not_less)
qed

lemma first_replaces:
  "\<exists>env. replace_chain_if_longer toy_ossl 1640000005 [Some (genesis_block 1640000005), Some first_block]
     (new_blockchain 1640000005, \<lparr>consensus_engine = Some alone, seen_props = []\<rparr>) =
     (True, (new_blockchain 1640000005)\<lparr>chain := [genesis_block 1640000005, first_block]\<rparr>, env)"
proof -
  obtain env where "can_add_block toy_ossl 1640000005 (Some first_block) (new_blockchain 1640000005)
      \<lparr>consensus_engine = Some alone, seen_props = []\<rparr> = (True, env)"
    using slot_block_checked [OF first_open] by (simp add: first_block_def alice_fields)
  from genesis_extends [OF this] show ?thesis by blast
qed

lemma kept_restarts: "\<exists>node'. initialize toy_ossl 1640000005 kept_platform (new_mermai_node default_settings) = Returns (True, node')"
proof -
  have sc: "schema_complete (new_db (''validators.public_key'' # all_tables) kept_tables [])"
    by (simp add: schema_complete_def new_db_def all_tables_def)
  then have w: "working_db kept_db" by (simp add: kept_db_def working_db_def no_faults_def new_db_def schema_complete_def)
  have i: "db_initialize True (new_db (''validators.public_key'' # all_tables) kept_tables []) = (True, kept_db)"
    using db_initialize_again [OF sc] by (simp add: kept_db_def new_db_def)
  have t: "tables kept_db = kept_tables" by (simp add: kept_db_def new_db_def)
  have a: "restore_validator alice new_pos = (True, alone)" by (simp add: restore_validator_def alice_fields alone_def new_pos_def)
  have g: "get_block (new_blockchain 1640000005) 0 = Some (genesis_block 1640000005)" by (simp add: get_block_def new_blockchain_def)
  have "fst (restore_chain toy_ossl 1640000005 kept_db (new_blockchain 1640000005, \<lparr>consensus_engine = Some alone, seen_props = []\<rparr>))"
    using first_replaces
    by (auto simp: restore_chain_def working_queries [OF w] t first_block_stored numeral_eq_Suc g)
  then obtain db1 bc env where "restore_chain toy_ossl 1640000005 kept_db
      (new_blockchain 1640000005, \<lparr>consensus_engine = Some alone, seen_props = []\<rparr>) = (True, db1, bc, env)"
    by (metis (full_types) prod.collapse)
  then obtain node1 where l: "load_state toy_ossl 1640000005 kept_platform (new_mermai_node default_settings) = (True, node1)"
    by (auto simp: load_state_def kept_platform_def demo_platform_def new_mermai_node_def i working_queries [OF w] t first_block_stored a Let_def)
  have n: "mn_settings node1 = default_settings" "mn_fds node1 = []"
    using load_state_frame [of toy_ossl 1640000005 kept_platform "new_mermai_node default_settings"] l by (simp_all add: new_mermai_node_def)
  show ?thesis unfolding initialize_def l
    by (simp add: start_servers_def n start_listening_def start_server_def kept_platform_def demo_platform_def demo_os_def new_node_def
        new_rpc_server_def default_settings_def)
qed

theorem restart_explains_history_witness:
  "\<exists>node' bc c. initialize toy_ossl 1640000005 kept_platform (new_mermai_node default_settings) = Returns (True, node') \<and>
     ns_chain (mn_state node') = Some bc \<and> consensus_engine (ns_env (mn_state node')) = Some c \<and> validators c = [alice] \<and>
     chain bc = [genesis_block 1640000005, first_block] \<and> explained toy_ossl c first_block"
proof -
  obtain node' where i: "initialize toy_ossl 1640000005 kept_platform (new_mermai_node default_settings) = Returns (True, node')"
    using kept_restarts by blast
  have "schema_complete (new_db (''validators.public_key'' # all_tables) kept_tables [])"
    by (simp add: schema_complete_def new_db_def all_tables_def)
  from restart_explains_history [OF i _ this] i show ?thesis
    by (auto simp: kept_platform_def new_mermai_node_def first_block_stored)
qed

text \<open>Three turns, two of them in one slot.\<close>

definition three_turns :: "(u64 \<times> u32) list" where
  "three_turns = [(1640000005, 0), (1640000009, 0), (1640000031, 0)]"

lemma keyless_registry: "registry_inv keyless"
proof -
  have "registry_inv solo" by (simp add: solo_def register_validator_inv new_pos_inv)
  then show ?thesis by (simp add: registry_inv_def keyless_def solo_validators)
qed

lemma keyless_producing: "producing 1640000000 (start_node (with_engine keyless)) (new_blockchain 0)"
proof -
  have "validators keyless \<noteq> [] \<and> list_all (\<lambda>v. v_public_key v = [] \<and> 0 < v_amount v) (validators keyless)"
    by (simp add: keyless_def solo_validators)
  then show ?thesis using keyless_registry
    by (simp add: producing_def start_node_def with_engine_def new_blockchain_def genesis_block_def new_block_def no_faults_def demo_db_def)
qed

theorem production_loop_progress_witness:
  "\<exists>bs. ns_chain (mn_state (consensus_loop toy_ossl three_turns (start_node (with_engine keyless)))) = Some ((new_blockchain 0)\<lparr>chain := genesis_block 0 # bs\<rparr>) \<and>
    map blk_timestamp bs = [1640000000, 1640000000, 1640000030] \<and> map height bs = [1, 2, 3]"
proof -
  have slots: "map (slot_of \<circ> fst) three_turns = [1640000000, 1640000000, 1640000030]"
    by (simp add: three_turns_def slot_of_def)
  have "sorted (1640000000 # map (slot_of \<circ> fst) three_turns)" by (simp add: slots)
  moreover have "\<forall>(now, junk) \<in> set three_turns. now \<le> now + 120" by (simp add: three_turns_def)
  moreover have g: "chain (new_blockchain 0) = [genesis_block 0]" by (simp add: new_blockchain_def)
  moreover have l: "length three_turns = 3" by (simp add: three_turns_def)
  ultimately obtain bs where bs: "ns_chain (mn_state (consensus_loop toy_ossl three_turns (start_node (with_engine keyless)))) =
      Some ((new_blockchain 0)\<lparr>chain := [genesis_block 0] @ bs\<rparr>)" "map blk_timestamp bs = map (slot_of \<circ> fst) three_turns"
      "map height bs = map of_nat [1..<1 + 3]"
    using production_loop_progress [OF keyless_producing toy_sha_length, of three_turns] by auto
  then have "map height bs = [1, 2, 3]" by (simp add: upt_rec)
  with bs(1,2) slots show ?thesis by auto
qed

text \<open>The block of the slot and the same block with the signature of its proposer have different hashes:
  the serialized forms have different lengths, which the toy digest keeps.\<close>

lemma toy_hash_differs:
  assumes "of_nat (length (serialize_block b)) \<noteq> (of_nat (length (serialize_block b')) :: byte)"
  shows "block_hash_hex toy_ossl b \<noteq> block_hash_hex toy_ossl b'"
  using assms by (auto simp: block_hash_hex_def calculate_hash_def toy_ossl_def)

lemma toy_signed_length:
  assumes "validator_public_key b = [k]" "validator_signature b = []"
  shows "length (serialize_block (snd (block_sign toy_ossl (Some k) b))) = 2 * length (serialize_block b) + 1"
proof -
  have "block_sign toy_ossl (Some k) b = (True, b\<lparr>validator_signature := k # bytes_of_chars (serialize_block b)\<rparr>)"
    using assms by (cases b) (simp add: block_sign_def exported_key_def block_signing_payload_def sign_payload_def toy_ossl_def)
  then show ?thesis using assms by (simp add: serialize_block_def write_bytes_def write_value_def)
qed

theorem production_frames_keyed_proposer_witness:
  "\<exists>env b'. verify_validator_signature toy_ossl b' \<and>
    consensus_turn toy_ossl 1640000005 0 (with_engine solo) = (False, (with_engine solo)\<lparr>mn_state := (mn_state (with_engine solo))\<lparr>ns_env := env\<rparr>\<rparr>) \<and>
    consult_validator toy_ossl b' env = (False, env\<lparr>consensus_engine := Some (slash_validator ''alice'' (1 / 2) solo)\<rparr>)"
proof -
  let ?v = "hd (validators solo)" and ?bc = "new_blockchain 0"
  let ?b = "slot_block toy_ossl 1640000005 solo ?bc ?v"
  let ?b' = "snd (block_sign toy_ossl (Some 7) ?b)"
  have o: "slot_open toy_ossl 1640000005 (with_engine solo) solo ?bc ?v"
    by (rule demo_slot_open) (simp_all add: solo_proposer, simp_all add: solo_validators)
  note f = slot_block_fields [OF o]
  have pk: "validator_public_key ?b = [7]"
    by (simp add: slot_block_def produced_block_def solo_validators new_block_def Let_def)
  have s: "validator_address ?b' = v_address ?v" "height ?b' = of_nat (length (chain ?bc))" "blk_timestamp ?b' = slot_of 1640000005"
    using f by (simp_all add: block_sign_def exported_key_def Let_def split: prod.splits)
  have ver: "verify_validator_signature toy_ossl ?b'" using block_sign_accepted [of toy_ossl 7 ?b] pk by simp
  have n: "length (serialize_block ?b) = 130"
    by (simp add: serialize_block_def f pk toy_hash_length) (simp add: write_string_def write_bytes_def write_counted_def write_value_def solo_validators)
  have "length (serialize_block ?b') = 261" using toy_signed_length [OF pk f(6)] n by simp
  with n have "block_hash_hex toy_ossl ?b' \<noteq> block_hash_hex toy_ossl ?b" by (intro toy_hash_differs) simp
  then obtain env where e: "consensus_turn toy_ossl 1640000005 0 (with_engine solo) =
      (False, (with_engine solo)\<lparr>mn_state := (mn_state (with_engine solo))\<lparr>ns_env := env\<rparr>\<rparr>)"
    "consult_validator toy_ossl ?b' env = (False, env\<lparr>consensus_engine := Some (slash_validator (v_address ?v) (1 / 2) solo)\<rparr>)"
    using production_frames_keyed_proposer [OF o, of ?b' 0] s by (auto simp: solo_validators slot_of_slot)
  have "v_address ?v = ''alice''" by (simp add: solo_validators)
  with e ver show ?thesis by metis
qed

end
