(* ===== verification/Mermai_PubSub.thy ===== *)
theory Mermai_PubSub
  imports Std_Map Std_Text
begin

text \<open>
  Subscriptions to events (\<^verbatim>\<open>src/src/rpc/mermai_pubsub.cpp\<close>): the map from subscription ids to
  topics and pending events, and the counter the ids are printed from. Every operation holds the
  mutex of the engine, so a history is a sequence of whole operations.
\<close>

section \<open>State and operations\<close>

record rpc_subscription =
  sub_id :: string
  topic :: string
  sub_filter :: string
  pending_events :: "string list"

record mermai_pubsub_engine =
  subscriptions :: "(string, rpc_subscription) omap"
  next_sub_id :: u64

definition new_pubsub :: mermai_pubsub_engine where
  "new_pubsub = \<lparr>subscriptions = [], next_sub_id = 1\<rparr>"

definition subscribe :: "string \<Rightarrow> string \<Rightarrow> mermai_pubsub_engine \<Rightarrow> string \<times> mermai_pubsub_engine" where
  "subscribe t f e =
     (let i = ''0x'' @ hex_string (unat (next_sub_id e));
          sub = \<lparr>sub_id = i, topic = t, sub_filter = f, pending_events = []\<rparr>
      in (i, e\<lparr>next_sub_id := next_sub_id e + 1, subscriptions := omap_put i sub (subscriptions e)\<rparr>))"

definition unsubscribe :: "string \<Rightarrow> mermai_pubsub_engine \<Rightarrow> bool \<times> mermai_pubsub_engine" where
  "unsubscribe i e = (omap_find (subscriptions e) i \<noteq> None, e\<lparr>subscriptions := omap_erase i (subscriptions e)\<rparr>)"

definition publish :: "string \<Rightarrow> string \<Rightarrow> mermai_pubsub_engine \<Rightarrow> mermai_pubsub_engine" where
  "publish t event_json e =
     e\<lparr>subscriptions := map (\<lambda>(k, sub). (k, if topic sub = t
        then sub\<lparr>pending_events := pending_events sub @ [event_json]\<rparr> else sub)) (subscriptions e)\<rparr>"

definition poll_events :: "string \<Rightarrow> mermai_pubsub_engine \<Rightarrow> string list \<times> mermai_pubsub_engine" where
  "poll_events i e =
     (case omap_find (subscriptions e) i of
        None \<Rightarrow> ([], e)
      | Some sub \<Rightarrow> (pending_events sub, e\<lparr>subscriptions := omap_put i (sub\<lparr>pending_events := []\<rparr>) (subscriptions e)\<rparr>))"

definition get_subscriber_count :: "string \<Rightarrow> mermai_pubsub_engine \<Rightarrow> u64" where
  "get_subscriber_count t e =
     (if t = [] then of_nat (length (subscriptions e))
      else of_nat (length (filter (\<lambda>(k, sub). topic sub = t) (subscriptions e))))"

definition pubsub_clear :: "mermai_pubsub_engine \<Rightarrow> mermai_pubsub_engine" where
  "pubsub_clear e = e\<lparr>subscriptions := []\<rparr>"

section \<open>Histories\<close>

datatype pubsub_call =
    Subscribe string string
  | Unsubscribe string
  | Publish string string
  | Poll string
  | Clear

fun pubsub_do :: "pubsub_call \<Rightarrow> mermai_pubsub_engine \<Rightarrow> mermai_pubsub_engine" where
  "pubsub_do (Subscribe t f) e = snd (subscribe t f e)"
| "pubsub_do (Unsubscribe i) e = snd (unsubscribe i e)"
| "pubsub_do (Publish t x) e = publish t x e"
| "pubsub_do (Poll i) e = snd (poll_events i e)"
| "pubsub_do Clear e = pubsub_clear e"

abbreviation pubsub_run :: "pubsub_call list \<Rightarrow> mermai_pubsub_engine \<Rightarrow> mermai_pubsub_engine" where
  "pubsub_run \<equiv> fold pubsub_do"

text \<open>What the polls of \<open>i\<close> in a history return, one after the other, and what it publishes on a topic.\<close>

fun polled :: "string \<Rightarrow> pubsub_call list \<Rightarrow> mermai_pubsub_engine \<Rightarrow> string list" where
  "polled i [] e = []"
| "polled i (c # cs) e = (if c = Poll i then fst (poll_events i e) else []) @ polled i cs (pubsub_do c e)"

fun published :: "string \<Rightarrow> pubsub_call list \<Rightarrow> string list" where
  "published t [] = []"
| "published t (c # cs) = (case c of Publish t' x \<Rightarrow> if t' = t then [x] else [] | _ \<Rightarrow> []) @ published t cs"

section \<open>Identifiers\<close>

lemma hex_string_inj: "hex_string m = hex_string n \<Longrightarrow> m = n"
proof (induction m arbitrary: n rule: hex_string.induct)
  case (1 m)
  have ne: "hex_string k \<noteq> []" for k by (subst hex_string.simps) simp
  note h = "1.prems" [unfolded hex_string.simps [of m] hex_string.simps [of n]]
  show ?case
  proof (cases "m < 16 \<and> n < 16")
    case True
    with h show ?thesis by simp
  next
    case False
    with h ne [of "m div 16"] ne [of "n div 16"] have "\<not> m < 16" "\<not> n < 16" by (auto split: if_splits)
    with h have "hex_string (m div 16) = hex_string (n div 16)" "m mod 16 = n mod 16"
      by auto
    with "1.IH" [OF \<open>\<not> m < 16\<close>] show ?thesis by (metis div_mult_mod_eq)
  qed
qed

text \<open>The invariant while the counter has not wrapped around: the map is ordered and every id was
  printed from a smaller counter.\<close>

definition pubsub_ok :: "mermai_pubsub_engine \<Rightarrow> bool" where
  "pubsub_ok e \<longleftrightarrow> omap_ok (subscriptions e) \<and>
     (\<forall>i \<in> dom (omap_find (subscriptions e)). \<exists>n < unat (next_sub_id e). i = ''0x'' @ hex_string n)"

lemma pubsub_ok_fresh: "pubsub_ok e \<Longrightarrow> omap_find (subscriptions e) (''0x'' @ hex_string (unat (next_sub_id e))) = None"
  by (rule ccontr) (auto simp: pubsub_ok_def dom_def dest!: hex_string_inj)

lemma publish_keys [simp]: "map fst (subscriptions (publish t x e)) = map fst (subscriptions e)"
  by (simp add: publish_def case_prod_beta o_def)

lemma publish_find: "omap_find (subscriptions (publish t x e)) i =
    map_option (\<lambda>sub. if topic sub = t then sub\<lparr>pending_events := pending_events sub @ [x]\<rparr> else sub) (omap_find (subscriptions e) i)"
  by (simp add: publish_def map_of_map)

lemma publish_dom: "dom (omap_find (subscriptions (publish t x e))) = dom (omap_find (subscriptions e))"
  by (auto simp: dom_def publish_find)

lemma pubsub_do_ok:
  assumes "pubsub_ok e" "unat (next_sub_id e) + 1 < 2 ^ 64"
  shows "pubsub_ok (pubsub_do c e) \<and> unat (next_sub_id (pubsub_do c e)) \<le> unat (next_sub_id e) + 1"
proof -
  have n: "unat (next_sub_id e + 1) = unat (next_sub_id e) + 1" using assms(2) by (simp add: unat_word_ariths)
  have "pubsub_ok (pubsub_do c e)"
  proof (cases c)
    case (Publish t x)
    have "omap_ok (subscriptions (publish t x e))" using assms(1) by (simp add: pubsub_ok_def omap_ok_def)
    then show ?thesis using assms(1) Publish by (simp add: pubsub_ok_def publish_dom) (simp add: publish_def)
  next
    case (Poll i)
    then show ?thesis using assms(1) by (auto simp: pubsub_ok_def poll_events_def split: option.splits)
  qed (use assms(1) n in \<open>auto simp: pubsub_ok_def subscribe_def unsubscribe_def pubsub_clear_def Let_def less_Suc_eq\<close>)
  moreover have "unat (next_sub_id (pubsub_do c e)) \<le> unat (next_sub_id e) + 1"
    by (cases c) (auto simp: subscribe_def unsubscribe_def publish_def poll_events_def pubsub_clear_def n Let_def split: option.splits)
  ultimately show ?thesis by simp
qed

lemma pubsub_run_ok:
  assumes "pubsub_ok e" "unat (next_sub_id e) + length cs < 2 ^ 64"
  shows "pubsub_ok (pubsub_run cs e) \<and> unat (next_sub_id (pubsub_run cs e)) \<le> unat (next_sub_id e) + length cs"
  using assms
proof (induction cs arbitrary: e)
  case (Cons c cs)
  then have "pubsub_ok (pubsub_do c e) \<and> unat (next_sub_id (pubsub_do c e)) \<le> unat (next_sub_id e) + 1"
    by (intro pubsub_do_ok) simp_all
  with Cons.IH [of "pubsub_do c e"] Cons.prems(2) show ?case by simp
qed simp

lemma new_pubsub_ok: "pubsub_ok new_pubsub"
  by (simp add: pubsub_ok_def new_pubsub_def)

section \<open>Delivery\<close>

text \<open>One call changes what a subscription has pending by what it publishes and what it hands out.\<close>

lemma pubsub_do_pending:
  assumes "pubsub_ok e" "omap_find (subscriptions e) i = Some sub" "c \<noteq> Unsubscribe i" "c \<noteq> Clear"
  shows "\<exists>sub'. omap_find (subscriptions (pubsub_do c e)) i = Some sub' \<and> topic sub' = topic sub \<and>
    pending_events sub @ published (topic sub) [c] = (if c = Poll i then fst (poll_events i e) else []) @ pending_events sub'"
  using assms pubsub_ok_fresh [OF assms(1)]
  by (cases c) (auto simp: subscribe_def unsubscribe_def poll_events_def publish_find Let_def split: option.splits)

lemma polled_pending:
  assumes "pubsub_ok e" "unat (next_sub_id e) + length cs < 2 ^ 64" "omap_find (subscriptions e) i = Some sub"
    and "Unsubscribe i \<notin> set cs" "Clear \<notin> set cs"
  shows "polled i cs e @ fst (poll_events i (pubsub_run cs e)) = pending_events sub @ published (topic sub) cs"
  using assms
proof (induction cs arbitrary: e sub)
  case Nil
  then show ?case by (simp add: poll_events_def)
next
  case (Cons c cs)
  from Cons.prems pubsub_do_ok [of e c] have ok: "pubsub_ok (pubsub_do c e)" "unat (next_sub_id (pubsub_do c e)) + length cs < 2 ^ 64"
    by auto
  from Cons.prems pubsub_do_pending [of e i sub c] obtain sub' where
    s: "omap_find (subscriptions (pubsub_do c e)) i = Some sub'" "topic sub' = topic sub"
      "pending_events sub @ published (topic sub) [c] = (if c = Poll i then fst (poll_events i e) else []) @ pending_events sub'"
    by auto
  have "polled i (c # cs) e @ fst (poll_events i (pubsub_run (c # cs) e)) =
      (if c = Poll i then fst (poll_events i e) else []) @ pending_events sub' @ published (topic sub) cs"
    using Cons.IH [OF ok s(1)] Cons.prems(4,5) s(2) by simp
  also have "\<dots> = pending_events sub @ published (topic sub) (c # cs)"
    using s(3) by (simp flip: append_assoc)
  finally show ?case .
qed

text \<open>C34: Exactly-once delivery in order. Whatever happened before, a new subscription that is not
  cancelled receives, over all its polls together, precisely the events published on its topic since it
  was made, in the order of publication, as long as fewer than \<open>2^64\<close> calls were made in all; the filter
  plays no part.
\<close>

theorem events_delivered_once:
  assumes "subscribe t f (pubsub_run before new_pubsub) = (i, e)"
    and "Unsubscribe i \<notin> set cs" "Clear \<notin> set cs" and "length before + length cs + 2 < 2 ^ 64"
  shows "polled i cs e @ fst (poll_events i (pubsub_run cs e)) = published t cs"
proof -
  let ?e0 = "pubsub_run before new_pubsub"
  have n: "unat (next_sub_id new_pubsub) = 1" by (simp add: new_pubsub_def)
  with assms(4) pubsub_run_ok [OF new_pubsub_ok, of before]
  have e0: "pubsub_ok ?e0" "unat (next_sub_id ?e0) \<le> 1 + length before" by simp_all
  have e: "e = pubsub_do (Subscribe t f) ?e0" using assms(1) by simp
  have "pubsub_ok e" "unat (next_sub_id e) + length cs < 2 ^ 64"
    using pubsub_do_ok [OF e0(1), of "Subscribe t f"] e0(2) assms(4) by (simp_all add: e)
  moreover have "omap_find (subscriptions e) i = Some \<lparr>sub_id = i, topic = t, sub_filter = f, pending_events = []\<rparr>"
    using assms(1) by (auto simp: subscribe_def Let_def)
  ultimately show ?thesis using polled_pending [of e cs i] assms(2,3) by simp
qed

lemma events_delivered_once_witness:
  "let (i, e) = subscribe ''blocks'' [] (pubsub_run [Subscribe ''blocks'' [], Unsubscribe ''0x1''] new_pubsub);
       cs = [Publish ''blocks'' ''a'', Poll i, Publish ''votes'' ''v'', Publish ''blocks'' ''b'']
   in i = ''0x2'' \<and> polled i cs e = [''a''] \<and> fst (poll_events i (pubsub_run cs e)) = [''b'']"
proof -
  have h: "hex_string 1 = ''1''" "hex_string (Suc 0) = ''1''" "hex_string 2 = ''2''" by code_simp+
  let ?cs = "[Publish ''blocks'' ''a'', Poll ''0x2'', Publish ''votes'' ''v'', Publish ''blocks'' ''b'']"
  obtain i e where s: "subscribe ''blocks'' [] (pubsub_run [Subscribe ''blocks'' [], Unsubscribe ''0x1''] new_pubsub) = (i, e)"
    by fastforce
  then have i: "i = ''0x2''" and e: "polled ''0x2'' ?cs e = [''a'']"
    by (auto simp: subscribe_def unsubscribe_def new_pubsub_def poll_events_def publish_def omap_erase_def h Let_def)
  have "polled ''0x2'' ?cs e @ fst (poll_events ''0x2'' (pubsub_run ?cs e)) = published ''blocks'' ?cs"
    by (rule events_delivered_once [OF s [unfolded i]]) simp_all
  also have "\<dots> = [''a''] @ [''b'']" by simp
  finally have "fst (poll_events ''0x2'' (pubsub_run ?cs e)) = [''b'']" unfolding e by (rule append_eq_append_conv [THEN iffD1, THEN conjunct2, rotated]) simp
  with i e show ?thesis unfolding s by (simp only: Let_def prod.case simp_thms)
qed

end
