(* ===== verification/Mermai_Biometric.thy ===== *)
theory Mermai_Biometric
  imports OpenSSL Std_Text "HOL-Library.Sublist"
begin

unbundle bit_operations_syntax

text \<open>
  Signatures of hardware authenticators (\<^verbatim>\<open>src/src/core/mermai_biometric.cpp\<close>): deriving an
  address from a credential key, the hash an authenticator signs, and the check of a WebAuthn assertion.
  The two further entry points of OpenSSL it calls are a parameter: \<open>EC_fromdata\<close> builds a P-256
  key from an encoded point (\<open>None\<close> when one of the calls of the sequence fails), and \<open>PKEY_verify\<close>
  is the return value of \<^verbatim>\<open>EVP_PKEY_verify\<close> on a signature and a digest (\<open>None\<close> when the
  context cannot be made).
\<close>

section \<open>Assertions\<close>

record 'k ec_keys =
  EC_fromdata :: "bytes \<Rightarrow> 'k option"
  PKEY_verify :: "'k \<Rightarrow> bytes \<Rightarrow> bytes \<Rightarrow> int option"

record mermai_biometric_assertion =
  credential_id :: string
  authenticator_data :: bytes
  client_data_json :: string
  ba_signature :: bytes
  ba_public_key :: bytes
  sign_count :: u32

definition parse_ec_public_key :: "'k openssl \<Rightarrow> 'k ec_keys \<Rightarrow> bytes \<Rightarrow> 'k option" where
  "parse_ec_public_key ossl ec key_bytes =
     (if key_bytes = [] then None
      else case d2i_PUBKEY ossl key_bytes of
             Some (pkey, used) \<Rightarrow> Some pkey
           | None \<Rightarrow> if length key_bytes = 65 \<or> length key_bytes = 33 then EC_fromdata ec key_bytes else None)"

definition derive_biometric_address :: "'k openssl \<Rightarrow> bytes \<Rightarrow> string" where
  "derive_biometric_address ossl public_key =
     (if public_key = [] then [] else ''mrm_bio1'' @ hex_encode (take 20 (SHA256 ossl public_key)))"

definition compute_webauthn_hash :: "'k openssl \<Rightarrow> bytes \<Rightarrow> string \<Rightarrow> bytes" where
  "compute_webauthn_hash ossl auth_data client_json =
     (let client_hash = SHA256 ossl (bytes_of_chars client_json) in SHA256 ossl (auth_data @ client_hash))"

definition verify_biometric_signature :: "'k openssl \<Rightarrow> 'k ec_keys \<Rightarrow> bytes \<Rightarrow> bytes \<Rightarrow> bytes \<Rightarrow> bool" where
  "verify_biometric_signature ossl ec data_hash sig public_key =
     (if data_hash = [] \<or> sig = [] \<or> public_key = [] then False
      else case parse_ec_public_key ossl ec public_key of
             None \<Rightarrow> False
           | Some pkey \<Rightarrow> PKEY_verify ec pkey sig data_hash = Some 1)"

definition verify_assertion :: "'k openssl \<Rightarrow> 'k ec_keys \<Rightarrow> string \<Rightarrow> mermai_biometric_assertion \<Rightarrow> bool" where
  "verify_assertion ossl ec expected_challenge_hex a =
     (if client_data_json a = [] \<or> authenticator_data a = [] \<or> ba_public_key a = [] \<or> ba_signature a = [] then False
      else if expected_challenge_hex \<noteq> [] \<and> after expected_challenge_hex (client_data_json a) = None then False
      else if length (authenticator_data a) < 37 then False
      else let flags = authenticator_data a ! 32
        in if flags AND 1 = 0 then False
           else verify_biometric_signature ossl ec
                  (compute_webauthn_hash ossl (authenticator_data a) (client_data_json a)) (ba_signature a) (ba_public_key a))"

section \<open>What an accepted assertion shows\<close>

lemma after_sublist: "after needle s \<noteq> None \<longleftrightarrow> sublist needle s"
proof (induction s)
  case (Cons c cs)
  have "take (length needle) (c # cs) = needle \<longleftrightarrow> prefix needle (c # cs)" by (metis prefix_def append_take_drop_id append_eq_conv_conj)
  with Cons show ?case by (auto simp: sublist_Cons_right)
qed simp

lemma verify_biometric_signature_iff:
  "verify_biometric_signature ossl ec h sig key \<longleftrightarrow> h \<noteq> [] \<and> sig \<noteq> [] \<and>
     (\<exists>k. parse_ec_public_key ossl ec key = Some k \<and> PKEY_verify ec k sig h = Some 1)"
  by (auto simp: verify_biometric_signature_def parse_ec_public_key_def split: option.splits)

text \<open>The check as one condition: the challenge occurs somewhere in the client data (vacuously when no
  challenge is expected), the authenticator data has its fixed part with the user-present flag, and the
  key accepts the signature over the hash.\<close>

lemma verify_assertion_iff:
  "verify_assertion ossl ec challenge a \<longleftrightarrow>
     client_data_json a \<noteq> [] \<and> ba_public_key a \<noteq> [] \<and> sublist challenge (client_data_json a) \<and>
     37 \<le> length (authenticator_data a) \<and> odd (authenticator_data a ! 32) \<and>
     verify_biometric_signature ossl ec (compute_webauthn_hash ossl (authenticator_data a) (client_data_json a)) (ba_signature a) (ba_public_key a)"
proof -
  have "x AND 1 = 0 \<longleftrightarrow> even x" for x :: byte by (simp add: and_one_eq even_iff_mod_2_eq_zero)
  moreover have "challenge \<noteq> [] \<and> after challenge (client_data_json a) = None \<longleftrightarrow> \<not> sublist challenge (client_data_json a)"
    using after_sublist [of challenge "client_data_json a"] by auto
  ultimately show ?thesis by (auto simp: verify_assertion_def verify_biometric_signature_iff Let_def)
qed

text \<open>The hash determines what was signed, or two of the byte strings hashed for it collide.\<close>

definition webauthn_inputs :: "'k openssl \<Rightarrow> bytes \<Rightarrow> string \<Rightarrow> bytes set" where
  "webauthn_inputs ossl auth_data client_json =
     {bytes_of_chars client_json, auth_data @ SHA256 ossl (bytes_of_chars client_json)}"

lemma webauthn_hash_inject:
  assumes "sha_length ossl" "compute_webauthn_hash ossl d c = compute_webauthn_hash ossl d' c'"
  shows "d = d' \<and> c = c' \<or> sha_clash ossl (webauthn_inputs ossl d c \<union> webauthn_inputs ossl d' c')"
proof -
  let ?h = "\<lambda>c. SHA256 ossl (bytes_of_chars c)" and ?S = "webauthn_inputs ossl d c \<union> webauthn_inputs ossl d' c'"
  have "d @ ?h c = d' @ ?h c' \<or> sha_clash ossl ?S"
    using assms(2) sha_clashI [of ossl "d @ ?h c" "d' @ ?h c'" ?S] by (auto simp: compute_webauthn_hash_def webauthn_inputs_def)
  moreover have "d = d' \<and> ?h c = ?h c'" if "d @ ?h c = d' @ ?h c'"
    using that assms(1) by (simp add: sha_length_def)
  moreover have "c = c' \<or> sha_clash ossl ?S" if "?h c = ?h c'"
    using sha_clashI [OF that, of ?S] by (auto simp: webauthn_inputs_def bytes_of_chars_inject)
  ultimately show ?thesis by blast
qed

text \<open>
  A forgery against an authenticator that signed the listed data: its key accepts the signature for a digest
  that is none of theirs.
\<close>

definition forged ::
  "'k openssl \<Rightarrow> 'k ec_keys \<Rightarrow> (bytes \<times> string) list \<Rightarrow> mermai_biometric_assertion \<Rightarrow> bool" where
  "forged ossl ec signed_data a \<longleftrightarrow>
     (let h = compute_webauthn_hash ossl (authenticator_data a) (client_data_json a)
      in h \<notin> (\<lambda>(d, c). compute_webauthn_hash ossl d c) ` set signed_data \<and>
         verify_biometric_signature ossl ec h (ba_signature a) (ba_public_key a))"

text \<open>C35: What an accepted assertion proves. It has a user present, its authenticator data has the fixed part, and
  the expected challenge occurs in its client data (every text contains the empty challenge). And whatever
  data (pairs of authenticator data and client data) an authenticator has signed, an accepted assertion presents one of
  these pairs; otherwise the presented pair and a signed one exhibit a SHA-256 collision, or the assertion
  is a forgery: the key accepts its signature for a digest the authenticator never signed. Nothing is assumed of
  the signature scheme.
\<close>

theorem accepted_assertion_was_signed:
  assumes "sha_length ossl" "verify_assertion ossl ec challenge a"
  shows "odd (authenticator_data a ! 32) \<and> 37 \<le> length (authenticator_data a) \<and> sublist challenge (client_data_json a) \<and>
    ((authenticator_data a, client_data_json a) \<in> set signed_data \<or>
     (\<exists>(d, c)\<in>set signed_data. sha_clash ossl (webauthn_inputs ossl d c \<union> webauthn_inputs ossl (authenticator_data a) (client_data_json a))) \<or>
     forged ossl ec signed_data a)"
proof (cases "forged ossl ec signed_data a")
  case False
  with assms(2) obtain d c where dc: "(d, c) \<in> set signed_data"
    and h: "compute_webauthn_hash ossl d c = compute_webauthn_hash ossl (authenticator_data a) (client_data_json a)"
    by (auto simp: verify_assertion_iff forged_def Let_def)
  from webauthn_hash_inject [OF assms(1) h] dc assms(2) show ?thesis by (auto simp: verify_assertion_iff)
qed (use assms(2) in \<open>simp add: verify_assertion_iff\<close>)

text \<open>Neither the signature counter nor the credential takes part, so an accepted assertion is accepted
  again, and one check does not prevent a replay.\<close>

lemma assertion_replayable:
  "verify_assertion ossl ec challenge (a\<lparr>sign_count := n, credential_id := i\<rparr>) = verify_assertion ossl ec challenge a"
  by (simp add: verify_assertion_def)

section \<open>A concrete authenticator\<close>

definition toy_ec :: "byte ec_keys" where
  "toy_ec = \<lparr>EC_fromdata = (\<lambda>_. None), PKEY_verify = (\<lambda>k sig h. Some (if sig = k # h then 1 else 0))\<rparr>"

definition demo_assertion :: mermai_biometric_assertion where
  "demo_assertion = \<lparr>credential_id = ''c'', authenticator_data = replicate 37 1, client_data_json = ''challenge:ab'',
     ba_signature = 5 # compute_webauthn_hash toy_ossl (replicate 37 1) ''challenge:ab'', ba_public_key = [5], sign_count = 0\<rparr>"

lemma demo_assertion_accepted: "verify_assertion toy_ossl toy_ec ''ab'' demo_assertion"
proof -
  have "length (compute_webauthn_hash toy_ossl d c) = 32" for d c
    using toy_sha_length by (simp add: compute_webauthn_hash_def sha_length_def)
  then have "compute_webauthn_hash toy_ossl d c \<noteq> []" for d c by (metis list.size(3) zero_neq_numeral)
  moreover have "sublist ''ab'' ''challenge:ab''" by (simp add: sublist_code)
  ultimately show ?thesis
    by (simp add: verify_assertion_iff verify_biometric_signature_iff demo_assertion_def parse_ec_public_key_def toy_ec_def toy_ossl_def)
qed

text \<open>The authenticator signed two pairs; the accepted assertion presents the first.\<close>

definition demo_signed :: "(bytes \<times> string) list" where
  "demo_signed = [(replicate 37 1, ''challenge:ab''), (replicate 37 2, ''other'')]"

lemma demo_not_forged: "\<not> forged toy_ossl toy_ec demo_signed demo_assertion"
  by (simp add: forged_def demo_signed_def demo_assertion_def Let_def)

lemma toy_digest_parts:
  "hd (SHA256 toy_ossl x) = of_nat (length x)" "length (SHA256 toy_ossl x) = 32"
  "hd (tl (SHA256 toy_ossl (replicate 37 b @ h))) = b"
  using toy_sha_length by (simp_all add: toy_ossl_def sha_length_def hd_append take_Cons' hd_take)

lemma toy_no_clash:
  assumes "(d, c) \<in> set demo_signed"
  shows "\<not> sha_clash toy_ossl (webauthn_inputs toy_ossl d c \<union> webauthn_inputs toy_ossl (replicate 37 1) ''challenge:ab'')"
proof
  assume "sha_clash toy_ossl (webauthn_inputs toy_ossl d c \<union> webauthn_inputs toy_ossl (replicate 37 1) ''challenge:ab'')"
  then obtain x y where xy: "x \<noteq> y" "SHA256 toy_ossl x = SHA256 toy_ossl y"
    and mem: "x \<in> webauthn_inputs toy_ossl d c \<union> webauthn_inputs toy_ossl (replicate 37 1) ''challenge:ab''"
      "y \<in> webauthn_inputs toy_ossl d c \<union> webauthn_inputs toy_ossl (replicate 37 1) ''challenge:ab''"
    by (auto simp: sha_clash_def)
  from xy(2) have eqs: "(of_nat (length x) :: byte) = of_nat (length y)" "hd (tl (SHA256 toy_ossl x)) = hd (tl (SHA256 toy_ossl y))"
    by (metis toy_digest_parts(1), simp)
  from assms consider "d = replicate 37 1" "c = ''challenge:ab''" | "d = replicate 37 2" "c = ''other''"
    by (auto simp: demo_signed_def)
  then show False
    using mem eqs xy(1) toy_digest_parts(2) by cases (auto simp: webauthn_inputs_def toy_digest_parts(3))
qed

theorem accepted_assertion_was_signed_witness:
  "odd (authenticator_data demo_assertion ! 32) \<and> sublist ''ab'' (client_data_json demo_assertion) \<and>
   (authenticator_data demo_assertion, client_data_json demo_assertion) \<in> set demo_signed"
  using accepted_assertion_was_signed [OF toy_sha_length demo_assertion_accepted, of demo_signed] demo_not_forged toy_no_clash
  by (auto simp: demo_assertion_def)

end
