(* ===== verification/Spec2Isabelle.thy ===== *)
theory Spec2Isabelle
  imports Mermai_Governance Mermai_Multisig Mermai_Light_Client Mermai_Self_Aware Merlite_Compiler Mermai_Node Mermai_PubSub Mermai_Biometric
begin

text \<open>
  A verification development for the Mermai node, the C++ program under \<^verbatim>\<open>src/src\<close> and
  \<^verbatim>\<open>src/include/mermai\<close>.

  \<^bold>\<open>The program.\<close> A node keeps a chain of blocks in memory (\<^verbatim>\<open>mermai_blockchain\<close>) and a SQLite
  database (\<^verbatim>\<open>mermai_db\<close>) with blocks, unspent outputs, validators and contracts. A validator set
  (\<^verbatim>\<open>mermai_time_weighted_pos\<close>) selects one proposer per slot of ten seconds by stake and age;
  \<^verbatim>\<open>mermai_proposal_validator\<close> checks proposals and slashes double proposals;
  \<^verbatim>\<open>mermai_quorum_collector\<close> finalises blocks by signed votes of two thirds of the stake. Peers exchange
  framed messages (\<^verbatim>\<open>mermai_p2p_node\<close>), clients send JSON-RPC requests (\<^verbatim>\<open>mermai_rpc_server\<close>),
  contracts run on a stack machine (\<^verbatim>\<open>mermai_vm\<close>) and are written in assembler or in the language
  Merlite. \<^verbatim>\<open>mermai_main.cpp\<close> puts these together: start-up from the database, a thread that produces
  blocks, a thread that synchronises, one thread per connection.

  \<^bold>\<open>Theories and what they model.\<close>
    \<^item> \<open>Mermai_Prelude\<close>: byte and word types, exceptions as values of \<open>cpp_error + 'a\<close>, hexadecimal and
      decimal text, reachability (\<open>reach\<close>) and the locale \<open>safe_system\<close> (an invariant of the start states
      kept by every step holds in every reachable state), interpreted by each component with a state.
      \<open>Std_Map\<close>, \<open>Std_Text\<close>: \<^verbatim>\<open>std::map\<close> as an ordered association list behind the locale
      \<open>keyed_store\<close>, and the text and integer conversions of the C++ library. \<open>Mermai_Float\<close>: IEEE single
      and double arithmetic with rounding to even, as the weights and penalties use it.
    \<^item> \<open>OpenSSL\<close>, \<open>Sqlite\<close>: the two libraries as parameters (below).
    \<^item> \<open>Codec\<close>, \<open>Mermai_Data\<close>, \<open>Mermai_Signing\<close> (\<^verbatim>\<open>mermai_blockchain.cpp\<close>): the locale \<open>codec\<close> of a
      reader that inverts a writer, the wire formats of transactions, votes and blocks, hashes,
      signatures, and the stand-alone validation of a transaction.
    \<^item> \<open>Mermai_Merkle\<close> (\<^verbatim>\<open>mermai_merkle.cpp\<close>, \<^verbatim>\<open>mermai_db.cpp\<close>): both Merkle trees over the locale
      \<open>merkle_hash\<close>. \<open>Mermai_Mempool\<close> (\<^verbatim>\<open>mermai_mempool.cpp\<close>): the transaction pool.
    \<^item> \<open>Mermai_Consensus\<close>, \<open>Mermai_Quorum\<close>, \<open>Mermai_Proposal\<close> (\<^verbatim>\<open>mermai_consensus.cpp\<close>): validator registry,
      weights, proposer selection, slashing and rewards; votes and finality; proposal checks.
      \<open>Mermai_Blockchain\<close> (\<^verbatim>\<open>mermai_blockchain.cpp\<close>): the chain, adding and replacing.
    \<^item> \<open>Mermai_DB\<close>, \<open>Mermai_Ledger\<close>, \<open>Mermai_Backup\<close> (\<^verbatim>\<open>mermai_db.cpp\<close>): every statement as a function on the
      tables; the abstract ledger of coins that \<open>apply_block\<close> refines; the file, its backup and its size.
    \<^item> \<open>Mermai_P2P\<close>, \<open>Mermai_Network\<close> (\<^verbatim>\<open>mermai_network.cpp\<close>): framing and peers; the message handlers.
    \<^item> \<open>Mermai_VM\<close>, \<open>Mermai_Token\<close>, \<open>Merlite_Compiler\<close> (\<^verbatim>\<open>src/src/vm\<close>): the machine and its assembler, the
      token contract, the compiler and disassembler.
    \<^item> \<open>Mermai_Json\<close>, \<open>Mermai_RPC\<close>, \<open>Mermai_PubSub\<close> (\<^verbatim>\<open>src/src/rpc\<close>): reading requests and writing JSON,
      with the grammar of RFC 8259 as its specification; every request method, the envelope of replies, one
      client connection; event subscriptions. \<open>Mermai_Biometric\<close>, \<open>Mermai_Multisig\<close>, \<open>Mermai_Light_Client\<close>,
      \<open>Mermai_Self_Aware\<close> (\<^verbatim>\<open>src/src/core\<close>), \<open>Mermai_Governance\<close> (\<^verbatim>\<open>mermai_governance.cpp\<close>): the services of
      these names.
    \<^item> \<open>Mermai_Server\<close> (\<^verbatim>\<open>mermai_network.cpp\<close>, \<^verbatim>\<open>mermai_rpc.cpp\<close>): the two listeners, their accept loops and
      connection threads, over the locale \<open>tcp_server\<close>. \<open>Mermai_Node\<close> (\<^verbatim>\<open>mermai_main.cpp\<close>): command line,
      start-up, the loops, shutdown, destruction, \<^verbatim>\<open>main\<close>, and the step relation of a running node.
  Records carry the members of the C++ classes under their names (with a prefix where two classes share
  one), operations the names of the methods; state is passed explicitly, exceptions and early returns are
  branches, \<^verbatim>\<open>uint8_t\<close> to \<^verbatim>\<open>uint64_t\<close> are words of their width.

  \<^bold>\<open>What the theorems show.\<close>
    \<^item> Composition: the invariant of a node over every interleaving of production, peers, requests and
      database failures; chain and database move together; what a restart requires and how a start
      ends; the life of the two servers; when a turn produces a block, that the
      production loop makes progress, and when it makes the selected validator lose stake.
    \<^item> Ledger: applying a block refines the abstract ledger (a transaction without inputs issues its
      outputs, every other pays for them), conserves value up to issues and fees, and is atomic unless SQLite
      rolls the transaction of a block with transactions back on its own, in which case a block is shown to be
      torn; closing and opening the file yields the durable state.
    \<^item> Chain and consensus: reachable chains are well formed; the tip hash and the Merkle root commit to
      the history and to the transactions; finality needs two thirds of the stake and conflicting
      finality names a third of it (for an unchanging validator set and stakes below a third of \<open>2^64\<close>); one proposal per slot; proposer selection by weight; weights are
      monotone and bounded with all rounding included; rewards.
    \<^item> Formats: decoding inverts encoding and accepts nothing else (transactions, blocks), framing over a
      stream delivered in arbitrary pieces, chains, tokens of the compiler.
    \<^item> Services: double-spend freedom of the pool, token supply, governance majorities, thresholds of
      multi-signature accounts, machine arithmetic and termination, compiled code, replies, delivery of
      events, authenticator assertions, light-client headers.
  Statements that rest on a hash function name the byte strings that would have to collide
  (\<open>sha_clash\<close> on a finite set), since a function with digests of 32 bytes has collisions.

  \<^bold>\<open>Parameters.\<close> \<open>'k openssl\<close> (SHA-256, key parsing, signing, verification; \<open>sound_key\<close> and \<open>sha_length\<close> are its
  documented behaviour; \<open>toy_ossl\<close> is a concrete instance for examples) and \<open>'k ec_keys\<close>; the list of
  \<open>sqlite_fault\<close> that says which library calls fail, with or without an automatic rollback; \<open>vm_config\<close> and the
  fields of \<open>machine\<close> (the header \<^verbatim>\<open>mermai_vm.hpp\<close> is not in the repository, so opcode numbers, gas constants
  and the default context are parameters); \<open>platform\<close> and \<open>net_os\<close> (the database file, the
  answers of the socket calls, whether closing a socket ends a pending \<^verbatim>\<open>accept\<close>, the genesis file); \<open>backup_env\<close>; the clock; the contents of uninitialised memory where the code reads it; a socket as the bytes and sizes of
  the single calls.

  \<^bold>\<open>Termination.\<close> Loops are structural or carry a measure, except the machine loop, a
  \<open>partial_function (option)\<close>: \<open>None\<close> is an execution that does not return; assembled programs are shown to
  end, by returning or in the crash of a division by a word whose low 64 bits are zero, and byte code that never ends is
  exhibited. No fuel is used. The search for the last finalized block
  counts down in \<^verbatim>\<open>int\<close> and is modelled for chains of at most \<open>2^31\<close> blocks.

  \<^bold>\<open>Not modelled.\<close> Console output and sleeping; the Windows branches of the socket code (the model is the POSIX
  build). The threads interleave whole turns and handlers, which is an idealisation: the chain and the validator set
  are shared without a lock, and data races on them are not modelled. The step relation of a node keeps no table of its connected peers: a message
  arrives from any peer, and what it does to that peer (its reputation, its socket) is left out of the step. Descriptor 0 is
  taken to be in use (the code reads 0 as no socket). The cast of a float to \<^verbatim>\<open>uint64_t\<close>, undefined in C++ for values from
  \<open>2^64\<close> on, wraps around. The explorer, the SDKs, scripts and tests are not
  part of the node. The copies of the hexadecimal printer in six source files are one function here (\<open>hex_encode\<close>), and
  \<^verbatim>\<open>hex_to_bytes\<close> in \<^verbatim>\<open>mermai_main.cpp\<close> is never called.
\<close>

end
